(* ===== verification/Prelude.thy ===== *)
theory Prelude
  imports Main "HOL-Library.Word" "HOL-Library.Monad_Syntax"
begin

text \<open>
  Shared vocabulary of the development: machine integers, byte buffers, the panic monad and
  the big-endian encodings that every wire format of the load balancer uses.

  \<^item> A Rust \<open>u8\<close>, \<open>u16\<close>, \<open>u32\<close>, \<open>u64\<close> is a word of that width; \<open>usize\<close> values are offsets
    and lengths of buffers that fit in memory and are \<open>nat\<close>.
  \<^item> A slice or a fixed-size array is a list. Indexing and slicing are \<open>idx\<close>, \<open>slice\<close> and
    \<open>slice_from\<close>, which fail exactly where Rust panics.
  \<^item> A computation that may panic has type \<open>'a run\<close>, that is \<open>'a option\<close> with \<open>None\<close> for a
    panic (the release profile aborts the process on one). The program's own \<open>Option\<close> and
    \<open>Result\<close> values sit inside: \<open>'a option run\<close> is a function that returns an \<open>Option\<close>
    and may panic on the way.
\<close>

unbundle bit_operations_syntax

type_synonym byte = "8 word"
type_synonym bytes = "byte list"
type_synonym u8 = "8 word"
type_synonym u16 = "16 word"
type_synonym u32 = "32 word"
type_synonym u64 = "64 word"
type_synonym 'a run = "'a option"

text \<open>A monotonic clock reading in nanoseconds, and whole seconds in that unit.\<close>

type_synonym instant = nat

definition secs :: "nat \<Rightarrow> nat" where
  "secs n = n * 1000000000"

text \<open>\<open>Instant::duration_since\<close> and \<open>saturating_duration_since\<close> are zero when the argument is later.\<close>

definition duration_since :: "instant \<Rightarrow> instant \<Rightarrow> nat" where
  "duration_since now earlier = now - earlier"

definition as_secs :: "nat \<Rightarrow> nat" where
  "as_secs d = d div 1000000000"

abbreviation (input) ret :: "'a \<Rightarrow> 'a run" where
  "ret \<equiv> Some"

abbreviation (input) panic :: "'a run" where
  "panic \<equiv> None"

named_theorems buf_simps \<open>evaluation of in-range buffer accesses\<close>
named_theorems run_defs \<open>unfolding of the buffer primitives\<close>

section \<open>Buffers\<close>

text \<open>\<open>xs[i]\<close>, \<open>&xs[a..b]\<close> and \<open>&xs[a..]\<close>.\<close>

definition idx :: "'a list \<Rightarrow> nat \<Rightarrow> 'a run" where
  "idx xs i = (if i < length xs then ret (xs ! i) else panic)"

definition slice :: "'a list \<Rightarrow> nat \<Rightarrow> nat \<Rightarrow> 'a list run" where
  "slice xs a b = (if a \<le> b \<and> b \<le> length xs then ret (take (b - a) (drop a xs)) else panic)"

definition slice_from :: "'a list \<Rightarrow> nat \<Rightarrow> 'a list run" where
  "slice_from xs a = (if a \<le> length xs then ret (drop a xs) else panic)"

text \<open>\<open>buf[i] = v\<close>, and \<open>buf[i..j].copy_from_slice(src)\<close>, which also panics when the lengths differ.\<close>

definition set_idx :: "'a list \<Rightarrow> nat \<Rightarrow> 'a \<Rightarrow> 'a list run" where
  "set_idx buf i v = (if i < length buf then ret (buf[i := v]) else panic)"

definition copy_into :: "'a list \<Rightarrow> nat \<Rightarrow> nat \<Rightarrow> 'a list \<Rightarrow> 'a list run" where
  "copy_into buf i j src =
     (if i \<le> j \<and> j \<le> length buf \<and> length src = j - i
      then ret (take i buf @ src @ drop j buf) else panic)"

declare idx_def [run_defs] slice_def [run_defs] slice_from_def [run_defs]
  set_idx_def [run_defs] copy_into_def [run_defs]

lemma idx_in [simp, buf_simps]: "i < length xs \<Longrightarrow> idx xs i = Some (xs ! i)"
  by (simp add: idx_def)

lemma idx_eq_Some [simp]: "idx xs i = Some x \<longleftrightarrow> i < length xs \<and> x = xs ! i"
  by (auto simp: idx_def)

lemma slice_in [simp, buf_simps]:
  "a \<le> b \<Longrightarrow> b \<le> length xs \<Longrightarrow> slice xs a b = Some (take (b - a) (drop a xs))"
  by (simp add: slice_def)

lemma slice_eq_Some [simp]:
  "slice xs a b = Some ys \<longleftrightarrow> a \<le> b \<and> b \<le> length xs \<and> ys = take (b - a) (drop a xs)"
  by (auto simp: slice_def)

lemma slice_from_in [simp, buf_simps]: "a \<le> length xs \<Longrightarrow> slice_from xs a = Some (drop a xs)"
  by (simp add: slice_from_def)

lemma slice_from_eq_Some [simp]:
  "slice_from xs a = Some ys \<longleftrightarrow> a \<le> length xs \<and> ys = drop a xs"
  by (auto simp: slice_from_def)

lemma slice_from_out [simp]: "slice_from xs a = None \<longleftrightarrow> length xs < a"
  by (simp add: slice_from_def)

lemma set_idx_in [simp, buf_simps]: "i < length buf \<Longrightarrow> set_idx buf i v = Some (buf[i := v])"
  by (simp add: set_idx_def)

lemma copy_into_in [simp, buf_simps]:
  "i \<le> j \<Longrightarrow> j \<le> length buf \<Longrightarrow> length src = j - i \<Longrightarrow>
     copy_into buf i j src = Some (take i buf @ src @ drop j buf)"
  by (simp add: copy_into_def)

lemma copy_into_eq_Some:
  "copy_into buf i j src = Some buf' \<longleftrightarrow>
     i \<le> j \<and> j \<le> length buf \<and> length src = j - i \<and> buf' = take i buf @ src @ drop j buf"
  by (auto simp: copy_into_def)

lemma copy_into_length: "copy_into buf i j src = Some buf' \<Longrightarrow> length buf' = length buf"
  by (auto simp: copy_into_eq_Some)

text \<open>A buffer that is filled from the front: \<open>written\<close> is written, the tail of \<open>buf\<close> is still untouched.\<close>

definition filled :: "'a list \<Rightarrow> 'a list \<Rightarrow> 'a list" where
  "filled written buf = written @ drop (length written) buf"

lemma length_filled [simp]: "length written \<le> length buf \<Longrightarrow> length (filled written buf) = length buf"
  by (simp add: filled_def)

lemma set_start: "0 < length buf \<Longrightarrow> set_idx buf 0 v = Some (filled [v] buf)"
  by (cases buf) (simp_all add: filled_def set_idx_def)

lemma copy_start: "j = length src \<Longrightarrow> j \<le> length buf \<Longrightarrow> copy_into buf 0 j src = Some (filled src buf)"
  by (simp add: filled_def copy_into_def)

lemma copy_all: "length src = length buf \<Longrightarrow> j = length buf \<Longrightarrow> copy_into buf 0 j src = Some src"
  by (simp add: copy_into_def)

lemma set_filled:
  "i = length written \<Longrightarrow> i < length buf \<Longrightarrow> set_idx (filled written buf) i v = Some (filled (written @ [v]) buf)"
  by (simp add: filled_def set_idx_def list_update_append Cons_nth_drop_Suc [symmetric])

lemma copy_filled:
  "i = length written \<Longrightarrow> j = i + length src \<Longrightarrow> j \<le> length buf \<Longrightarrow>
     copy_into (filled written buf) i j src = Some (filled (written @ src) buf)"
  by (simp add: filled_def copy_into_def add.commute)

lemma slice_filled:
  "j = length written \<Longrightarrow> j \<le> length buf \<Longrightarrow> slice (filled written buf) 0 j = Some written"
  by (simp add: filled_def)

lemmas filling = set_start copy_start set_filled copy_filled slice_filled

lemma run_bind_eq_Some [simp]:
  "(m \<bind> f) = Some y \<longleftrightarrow> (\<exists>x. m = Some x \<and> f x = Some y)"
  by (cases m) auto

text \<open>\<open>Result\<close> is a sum with the error on the left; \<open>try_bind\<close> is the question mark operator.\<close>

definition try_bind :: "('e + 'a) run \<Rightarrow> ('a \<Rightarrow> ('e + 'b) run) \<Rightarrow> ('e + 'b) run" where
  "try_bind m f = do { r \<leftarrow> m; case r of Inl e \<Rightarrow> ret (Inl e) | Inr x \<Rightarrow> f x }"

lemma try_bind_simps [simp]:
  "try_bind (Some (Inl e)) f = Some (Inl e)"
  "try_bind (Some (Inr x)) f = f x"
  "try_bind None f = None"
  by (simp_all add: try_bind_def)

lemma try_bind_eq_Inr [simp]:
  "try_bind m f = Some (Inr y) \<longleftrightarrow> (\<exists>x. m = Some (Inr x) \<and> f x = Some (Inr y))"
  by (cases m) (auto simp: try_bind_def split: sum.splits)

lemma try_bind_no_panic:
  "(\<exists>r. m = Some r) \<Longrightarrow> (\<And>x. m = Some (Inr x) \<Longrightarrow> \<exists>r. f x = Some r) \<Longrightarrow>
     \<exists>r. try_bind m f = Some r"
proof -
  assume m: "\<exists>r. m = Some r" and f: "\<And>x. m = Some (Inr x) \<Longrightarrow> \<exists>r. f x = Some r"
  from m obtain r where "m = Some r" ..
  with f show ?thesis by (cases r) auto
qed

text \<open>The question mark operator on a Rust \<open>Option\<close>.\<close>

definition opt_bind :: "'a option run \<Rightarrow> ('a \<Rightarrow> 'b option run) \<Rightarrow> 'b option run" where
  "opt_bind m f = do { r \<leftarrow> m; case r of None \<Rightarrow> ret None | Some x \<Rightarrow> f x }"

lemma opt_bind_simps [simp]:
  "opt_bind (Some None) f = Some None"
  "opt_bind (Some (Some x)) f = f x"
  "opt_bind None f = None"
  by (simp_all add: opt_bind_def)

lemma opt_bind_eq_Some [simp]:
  "opt_bind m f = Some (Some y) \<longleftrightarrow> (\<exists>x. m = Some (Some x) \<and> f x = Some (Some y))"
  by (cases m) (auto simp: opt_bind_def split: option.splits)

lemma opt_bind_no_panic:
  "(\<exists>r. m = Some r) \<Longrightarrow> (\<And>x. m = Some (Some x) \<Longrightarrow> \<exists>r. f x = Some r) \<Longrightarrow>
     \<exists>r. opt_bind m f = Some r"
proof -
  assume m: "\<exists>r. m = Some r" and f: "\<And>x. m = Some (Some x) \<Longrightarrow> \<exists>r. f x = Some r"
  from m obtain r where "m = Some r" ..
  with f show ?thesis by (cases r) auto
qed

text \<open>\<open>Result::map_err\<close> and \<open>Option::ok_or\<close>.\<close>

definition map_err :: "('e \<Rightarrow> 'f) \<Rightarrow> ('e + 'a) run \<Rightarrow> ('f + 'a) run" where
  "map_err f m = map_option (map_sum f id) m"

definition ok_or :: "'e \<Rightarrow> 'a option \<Rightarrow> ('e + 'a) run" where
  "ok_or e x = ret (case x of None \<Rightarrow> Inl e | Some y \<Rightarrow> Inr y)"

lemma map_err_simps [simp]:
  "map_err f (Some (Inl e)) = Some (Inl (f e))"
  "map_err f (Some (Inr x)) = Some (Inr x)"
  "map_err f None = None"
  by (simp_all add: map_err_def)

lemma map_err_eq_Inr [simp]: "map_err f m = Some (Inr x) \<longleftrightarrow> m = Some (Inr x)"
  by (cases m) (auto simp: map_err_def map_sum_def split: sum.splits)

lemma map_err_no_panic [simp]: "(\<exists>r. map_err f m = Some r) \<longleftrightarrow> (\<exists>r. m = Some r)"
  by (cases m) (auto simp: map_err_def)

lemma ok_or_eq_Inr [simp]: "ok_or e x = Some (Inr y) \<longleftrightarrow> x = Some y"
  by (auto simp: ok_or_def split: option.splits)

lemma ok_or_simps [simp]:
  "ok_or e None = Some (Inl e)"
  "ok_or e (Some y) = Some (Inr y)"
  by (simp_all add: ok_or_def)

text \<open>\<open>iter().map(f).collect::<Result<Vec<_>, _>>()\<close>: left to right, up to the first error.\<close>

fun try_map :: "('a \<Rightarrow> ('e + 'b) run) \<Rightarrow> 'a list \<Rightarrow> ('e + 'b list) run" where
  "try_map f [] = ret (Inr [])"
| "try_map f (x # xs) = try_bind (f x) (\<lambda>y. try_bind (try_map f xs) (\<lambda>ys. ret (Inr (y # ys))))"

lemma try_map_Inr:
  "try_map f xs = Some (Inr ys) \<Longrightarrow> list_all2 (\<lambda>x y. f x = Some (Inr y)) xs ys"
  by (induction xs arbitrary: ys) auto

text \<open>A \<open>for\<close> loop whose body updates a state and may panic.\<close>

fun foldM :: "('s \<Rightarrow> 'a \<Rightarrow> 's run) \<Rightarrow> 's \<Rightarrow> 'a list \<Rightarrow> 's run" where
  "foldM f s [] = ret s"
| "foldM f s (x # xs) = do { s' \<leftarrow> f s x; foldM f s' xs }"

lemma foldM_append: "foldM f s (xs @ ys) = do { s' \<leftarrow> foldM f s xs; foldM f s' ys }"
proof (induction xs arbitrary: s)
  case (Cons x xs)
  then show ?case by (cases "f s x") auto
qed simp

section \<open>Words\<close>

lemma unat_byte_lt [simp]: "unat (b :: byte) < 256"
proof -
  have "unat b < 2 ^ LENGTH(8)" by (rule unsigned_less)
  then show ?thesis by simp
qed

lemma unat_byte_le: "unat (b :: byte) \<le> 255"
  using unat_byte_lt [of b] by linarith

lemma of_nat_unat_byte [simp]: "(of_nat (unat b) :: byte) = b"
  by simp

lemma unat_of_nat_byte: "n < 256 \<Longrightarrow> unat (of_nat n :: byte) = n"
  by (simp add: unsigned_of_nat take_bit_nat_eq_self_iff)

lemma unat_of_nat_u16: "n < 65536 \<Longrightarrow> unat (of_nat n :: u16) = n"
  by (simp add: unsigned_of_nat take_bit_nat_eq_self_iff)

lemma unat_of_nat_u32: "n < 2 ^ 32 \<Longrightarrow> unat (of_nat n :: u32) = n"
  by (simp add: unsigned_of_nat take_bit_nat_eq_self_iff)

lemma not_bit_nat: "n < 2 ^ k \<Longrightarrow> k \<le> j \<Longrightarrow> \<not> bit n (j :: nat)" for n :: nat
  by (metis bit_take_bit_iff not_less take_bit_nat_eq_self_iff)

section \<open>Big-endian words\<close>

text \<open>\<open>uN::from_be_bytes\<close> and \<open>to_be_bytes\<close> over a list of octets.\<close>

definition from_be :: "bytes \<Rightarrow> 'a::len word" where
  "from_be bs = foldl (\<lambda>acc b. push_bit 8 acc OR ucast b) 0 bs"

definition to_be :: "nat \<Rightarrow> 'a::len word \<Rightarrow> bytes" where
  "to_be n w = map (\<lambda>i. ucast (drop_bit (8 * i) w)) (rev [0..<n])"

text \<open>The \<open>u16\<close> read from two octets, as every header parser does.\<close>

definition be16 :: "byte \<Rightarrow> byte \<Rightarrow> u16" where
  "be16 a b = from_be [a, b]"

lemma length_to_be [simp]: "length (to_be n w) = n"
  by (simp add: to_be_def)

lemma to_be_Suc: "to_be (Suc n) w = ucast (drop_bit (8 * n) w) # to_be n w"
  by (simp add: to_be_def)

lemma to_be_0 [simp]: "to_be 0 w = []"
  by (simp add: to_be_def)

lemma to_be_snoc: "to_be (Suc n) (w :: 'a::len word) = to_be n (drop_bit 8 w) @ [ucast w]"
  by (induction n) (simp_all add: to_be_Suc ac_simps)

lemma from_be_Nil [simp]: "from_be [] = 0"
  by (simp add: from_be_def)

lemma from_be_snoc: "from_be (bs @ [b]) = push_bit 8 (from_be bs) OR ucast b"
  by (simp add: from_be_def)

lemma bit_from_be_snoc:
  "bit (from_be (bs @ [b]) :: 'a::len word) n \<longleftrightarrow>
     n < LENGTH('a) \<and> (if n < 8 then bit b n else bit (from_be bs :: 'a word) (n - 8))"
  by (auto simp: from_be_snoc bit_or_iff bit_push_bit_iff bit_ucast_iff dest: bit_imp_le_length)

text \<open>Only the low \<open>8 * n\<close> bits of a value survive \<open>to_be n\<close>; a word that fits is recovered.\<close>

lemma bit_from_be_to_be:
  "bit (from_be (to_be n (w :: 'a word)) :: 'a::len word) k \<longleftrightarrow> k < 8 * n \<and> bit w k"
proof (induction n arbitrary: k w)
  case 0
  then show ?case by simp
next
  case (Suc n)
  show ?case
    by (auto simp: to_be_snoc bit_from_be_snoc Suc.IH bit_ucast_iff bit_drop_bit_eq dest: bit_imp_le_length)
qed

lemma from_be_to_be: "8 * n \<ge> LENGTH('a) \<Longrightarrow> from_be (to_be n (w :: 'a::len word)) = w"
  by (rule bit_eqI) (auto simp: bit_from_be_to_be)

lemma from_be_to_be_widths [simp]:
  "from_be (to_be 2 (w :: u16)) = w"
  "from_be (to_be 4 (x :: u32)) = x"
  "from_be (to_be 8 (y :: u64)) = y"
  by (rule from_be_to_be, simp)+

lemma bit_from_be_bound: "bit (from_be bs :: 'a::len word) k \<Longrightarrow> k < 8 * length bs"
proof (induction bs arbitrary: k rule: rev_induct)
  case (snoc b bs)
  then show ?case
    by (auto simp: bit_from_be_snoc dest!: snoc.IH split: if_splits)
qed simp

lemma to_be_from_be:
  "8 * length bs \<le> LENGTH('a) \<Longrightarrow> to_be (length bs) (from_be bs :: 'a::len word) = bs"
proof (induction bs rule: rev_induct)
  case (snoc b bs)
  let ?w = "from_be (bs @ [b]) :: 'a word"
  have "drop_bit 8 ?w = from_be bs"
    using snoc.prems
    by (intro bit_word_eqI) (auto simp: bit_drop_bit_eq bit_from_be_snoc dest: bit_from_be_bound)
  moreover have "(ucast ?w :: byte) = b"
    using snoc.prems
    by (intro bit_word_eqI) (auto simp: bit_ucast_iff bit_from_be_snoc)
  ultimately show ?case using snoc by (simp add: to_be_snoc)
qed simp

lemma to_be_inject_u64: "to_be 8 (x :: u64) = to_be 8 y \<longleftrightarrow> x = y"
  by (metis from_be_to_be_widths(3))

end
