(* ===== verification/Common.thy ===== *)
theory Common
  imports Prelude "HOL-Library.Sublist"
begin

text \<open>
  The crate \<open>pesigitg-common\<close>: the protocol constants shared by the XDP program and the daemon,
  and the two text codecs (\<open>hex.rs\<close>, \<open>mac.rs\<close>), with the parts of the Rust standard library they
  call: \<open>str::trim\<close>, \<open>str::split\<close>, the character-boundary check of string slicing and
  \<open>from_str_radix\<close>. A string is the list of its UTF-8 bytes. The locale \<open>text_codec\<close> states the
  contract of an encoder and its decoder; both codecs interpret it.
\<close>

section \<open>Constants (\<open>lib.rs\<close>)\<close>

definition ETH_HDR_LEN :: nat where [simp]: "ETH_HDR_LEN = 14"
definition IPV4_MIN_HDR_LEN :: nat where [simp]: "IPV4_MIN_HDR_LEN = 20"
definition IPV6_HDR_LEN :: nat where [simp]: "IPV6_HDR_LEN = 40"
definition UDP_HDR_LEN :: nat where [simp]: "UDP_HDR_LEN = 8"
definition ICMP_HDR_LEN :: nat where [simp]: "ICMP_HDR_LEN = 8"
definition MAX_IPV6_EXT_HDRS :: nat where [simp]: "MAX_IPV6_EXT_HDRS = 6"

definition ETH_P_IP :: u16 where [simp]: "ETH_P_IP = 0x0800"
definition ETH_P_IPV6 :: u16 where [simp]: "ETH_P_IPV6 = 0x86dd"

definition IPPROTO_ICMP :: u8 where [simp]: "IPPROTO_ICMP = 1"
definition IPPROTO_HOPOPTS :: u8 where [simp]: "IPPROTO_HOPOPTS = 0"
definition IPPROTO_UDP :: u8 where [simp]: "IPPROTO_UDP = 17"
definition IPPROTO_ROUTING :: u8 where [simp]: "IPPROTO_ROUTING = 43"
definition IPPROTO_FRAGMENT :: u8 where [simp]: "IPPROTO_FRAGMENT = 44"
definition IPPROTO_ICMPV6 :: u8 where [simp]: "IPPROTO_ICMPV6 = 58"
definition IPPROTO_DSTOPTS :: u8 where [simp]: "IPPROTO_DSTOPTS = 60"

definition ICMP_DEST_UNREACH :: u8 where [simp]: "ICMP_DEST_UNREACH = 3"
definition ICMP_TIME_EXCEEDED :: u8 where [simp]: "ICMP_TIME_EXCEEDED = 11"
definition ICMPV6_DEST_UNREACH :: u8 where [simp]: "ICMPV6_DEST_UNREACH = 1"
definition ICMPV6_PACKET_TOO_BIG :: u8 where [simp]: "ICMPV6_PACKET_TOO_BIG = 2"
definition ICMPV6_TIME_EXCEEDED :: u8 where [simp]: "ICMPV6_TIME_EXCEEDED = 3"

definition MAX_QUEUES :: nat where [simp]: "MAX_QUEUES = 256"
definition DEFAULT_QUEUES :: nat where [simp]: "DEFAULT_QUEUES = 1"
definition DEFAULT_PORT :: u16 where [simp]: "DEFAULT_PORT = 443"

section \<open>Strings\<close>

text \<open>The UTF-8 encodings of the characters that \<open>char::is_whitespace\<close> accepts.\<close>

definition whitespace :: "string list" where
  "whitespace = map (map char_of)
     ([[9], [10], [11], [12], [13], [32 :: nat], [194, 133], [194, 160], [225, 154, 128]]
      @ map (\<lambda>k. [226, 128, k]) [128..<139]
      @ [[226, 128, 168], [226, 128, 169], [226, 128, 175], [226, 129, 159], [227, 128, 128]])"

lemma whitespace_nonempty: "w \<in> set whitespace \<Longrightarrow> w \<noteq> []"
  by (auto simp: whitespace_def)

definition strip_one :: "string list \<Rightarrow> string \<Rightarrow> string option" where
  "strip_one ws s = map_option (\<lambda>w. drop (length w) s) (find (\<lambda>w. w \<noteq> [] \<and> prefix w s) ws)"

lemma strip_one_shorter: "strip_one ws s = Some t \<Longrightarrow> length t < length s"
  by (auto simp: strip_one_def find_Some_iff prefix_def)

function strip_all :: "string list \<Rightarrow> string \<Rightarrow> string" where
  "strip_all ws s = (case strip_one ws s of None \<Rightarrow> s | Some t \<Rightarrow> strip_all ws t)"
  by pat_completeness auto
termination
  by (relation "measure (\<lambda>(ws, s). length s)") (auto dest: strip_one_shorter)

declare strip_all.simps [simp del]

definition trim :: "string \<Rightarrow> string" where
  "trim s = rev (strip_all (map rev whitespace) (rev (strip_all whitespace s)))"

text \<open>\<open>s.split(c)\<close>: \<open>n\<close> separators give \<open>n + 1\<close> parts.\<close>

fun split_on :: "char \<Rightarrow> string \<Rightarrow> string list" where
  "split_on c [] = [[]]"
| "split_on c (x # xs) =
     (if x = c then [] # split_on c xs
      else case split_on c xs of [] \<Rightarrow> [[x]] | p # ps \<Rightarrow> (x # p) # ps)"

text \<open>A UTF-8 continuation byte; a slice bound in front of one is not a character boundary.\<close>

definition continuation :: "char \<Rightarrow> bool" where
  "continuation c \<longleftrightarrow> 128 \<le> (of_char c :: nat) \<and> (of_char c :: nat) < 192"

definition to_digit :: "nat \<Rightarrow> char \<Rightarrow> nat option" where
  "to_digit radix c =
     (let n = of_char c :: nat;
          d = (if 48 \<le> n \<and> n \<le> 57 then Some (n - 48)
               else if 97 \<le> n \<and> n \<le> 122 then Some (n - 87)
               else if 65 \<le> n \<and> n \<le> 90 then Some (n - 55) else None)
      in case d of Some k \<Rightarrow> if k < radix then Some k else None | None \<Rightarrow> None)"

fun parse_digits :: "nat \<Rightarrow> nat \<Rightarrow> string \<Rightarrow> nat option" where
  "parse_digits radix acc [] = Some acc"
| "parse_digits radix acc (c # cs) =
     (case to_digit radix c of None \<Rightarrow> None | Some d \<Rightarrow> parse_digits radix (acc * radix + d) cs)"

text \<open>
  \<open>uN::from_str_radix\<close>: one leading plus sign is accepted, a lone sign and the empty string are
  errors, and so is a value that does not fit \<open>bits\<close> bits. The accumulator only grows, so an
  overflow on the way is an overflow of the final value.
\<close>

definition from_str_radix :: "nat \<Rightarrow> nat \<Rightarrow> string \<Rightarrow> nat option" where
  "from_str_radix bits radix s =
     (case s of [] \<Rightarrow> None
      | c # cs \<Rightarrow>
          (case (if c = CHR ''+'' then (if cs = [] then None else parse_digits radix 0 cs)
                 else parse_digits radix 0 s) of
             None \<Rightarrow> None
           | Some v \<Rightarrow> if v < 2 ^ bits then Some v else None))"

section \<open>\<open>hex.rs\<close>\<close>

datatype hex_error = OddLength | InvalidHexAt nat

fun hex_decode_from :: "nat \<Rightarrow> string \<Rightarrow> (hex_error + bytes) run" where
  "hex_decode_from i (a # b # rest) =
     (if rest \<noteq> [] \<and> continuation (hd rest) then panic
      else case from_str_radix 8 16 [a, b] of
             None \<Rightarrow> ret (Inl (InvalidHexAt i))
           | Some v \<Rightarrow> do {
               r \<leftarrow> hex_decode_from (i + 2) rest;
               ret (map_sum id (\<lambda>bs. of_nat v # bs) r)
             })"
| "hex_decode_from i _ = ret (Inr [])"

definition hex_decode :: "string \<Rightarrow> (hex_error + bytes) run" where
  "hex_decode s =
     (let s = trim s
      in if odd (length s) then ret (Inl OddLength) else hex_decode_from 0 s)"

definition hex_digit :: "nat \<Rightarrow> char" where
  "hex_digit n = (if n < 10 then char_of (48 + n) else char_of (87 + n))"

definition fmt02x :: "byte \<Rightarrow> string" where
  "fmt02x b = [hex_digit (unat b div 16), hex_digit (unat b mod 16)]"

definition hex_encode :: "bytes \<Rightarrow> string" where
  "hex_encode bs = concat (map fmt02x bs)"

section \<open>\<open>mac.rs\<close>\<close>

datatype mac_error = WrongCount nat | InvalidOctet string nat

fun join :: "string \<Rightarrow> string list \<Rightarrow> string" where
  "join sep [] = []"
| "join sep [p] = p"
| "join sep (p # ps) = p @ sep @ join sep ps"

definition mac_format :: "bytes \<Rightarrow> string" where
  "mac_format mac = join '':'' (map fmt02x mac)"

fun mac_octets :: "nat \<Rightarrow> string list \<Rightarrow> mac_error + bytes" where
  "mac_octets i [] = Inr []"
| "mac_octets i (part # parts) =
     (case from_str_radix 8 16 part of
        None \<Rightarrow> Inl (InvalidOctet part i)
      | Some v \<Rightarrow> map_sum id (\<lambda>bs. of_nat v # bs) (mac_octets (Suc i) parts))"

definition mac_parse :: "string \<Rightarrow> mac_error + bytes" where
  "mac_parse s =
     (let parts = split_on CHR '':'' s
      in if length parts \<noteq> 6 then Inl (WrongCount (length parts)) else mac_octets 0 parts)"

definition mac_wf :: "bytes \<Rightarrow> bool" where
  "mac_wf mac \<longleftrightarrow> length mac = 6"

section \<open>The contract of a text codec\<close>

text \<open>
  A value in the codec's domain is encoded to text that its decoder reads back without a panic.
  Clients that compare or log encoded values rely on the consequence that encoding is injective.
\<close>

locale text_codec =
  fixes enc :: "'a \<Rightarrow> string"
    and dec :: "string \<Rightarrow> ('e + 'a) run"
    and valid :: "'a \<Rightarrow> bool"
  assumes dec_enc: "valid x \<Longrightarrow> dec (enc x) = ret (Inr x)"
begin

lemma enc_inj: "valid x \<Longrightarrow> valid y \<Longrightarrow> enc x = enc y \<Longrightarrow> x = y"
  by (metis dec_enc option.inject sum.inject(2))

lemma dec_total: "valid x \<Longrightarrow> \<exists>r. dec (enc x) = ret r"
  by (simp add: dec_enc)

end

section \<open>Hexadecimal digits\<close>

lemma of_char_hex_digit: "n < 16 \<Longrightarrow> (of_char (hex_digit n) :: nat) = (if n < 10 then 48 + n else 87 + n)"
  by (simp add: hex_digit_def)

lemma to_digit_hex [simp]: "n < 16 \<Longrightarrow> to_digit 16 (hex_digit n) = Some n"
  by (auto simp: to_digit_def of_char_hex_digit Let_def)

lemma hex_digit_ascii: "n < 16 \<Longrightarrow> (of_char (hex_digit n) :: nat) \<in> {48..57} \<union> {97..102}"
  by (auto simp: of_char_hex_digit)

lemma hex_digit_neq: "n < 16 \<Longrightarrow> (of_char c :: nat) \<notin> {48..57} \<union> {97..102} \<Longrightarrow> hex_digit n \<noteq> c"
  using hex_digit_ascii by blast

lemma hex_digit_not_sep [simp]:
  assumes "n < 16" shows "hex_digit n \<noteq> CHR ''+''" "hex_digit n \<noteq> CHR '':''"
  by (rule hex_digit_neq [OF assms]; simp)+

lemma hex_digit_not_continuation [simp]: "n < 16 \<Longrightarrow> \<not> continuation (hex_digit n)"
  using hex_digit_ascii [of n] by (auto simp: continuation_def)

lemma byte_nibbles [simp]: "unat (b :: byte) div 16 < 16" "unat (b :: byte) mod 16 < 16"
  using unat_byte_lt [of b] by (simp_all del: unat_byte_lt)

lemma from_str_radix_fmt02x [simp]: "from_str_radix 8 16 (fmt02x b) = Some (unat b)"
  using unat_byte_lt [of b] by (simp add: from_str_radix_def fmt02x_def)

lemma length_fmt02x [simp]: "length (fmt02x b) = 2"
  by (simp add: fmt02x_def)

lemma length_hex_encode [simp]: "length (hex_encode bs) = 2 * length bs"
  by (induction bs) (simp_all add: hex_encode_def)

lemma hex_encode_Cons [simp]: "hex_encode (b # bs) = fmt02x b @ hex_encode bs"
  by (simp add: hex_encode_def)

lemma hex_encode_Nil [simp]: "hex_encode [] = []"
  by (simp add: hex_encode_def)

lemma set_hex_encode: "c \<in> set (hex_encode bs) \<Longrightarrow> \<exists>n < 16. c = hex_digit n"
  by (auto simp: hex_encode_def fmt02x_def intro: byte_nibbles)

section \<open>Trimming text that has no white space at its ends\<close>

text \<open>Every encoding of a white space character starts and ends outside the hexadecimal digits.\<close>

lemma whitespace_ends:
  assumes "w \<in> set whitespace" "n < 16"
  shows "hd w \<noteq> hex_digit n" "last w \<noteq> hex_digit n"
proof -
  have "list_all (\<lambda>w. (of_char (hd w) :: nat) \<notin> {48..57} \<union> {97..102} \<and>
                     (of_char (last w) :: nat) \<notin> {48..57} \<union> {97..102}) whitespace"
    by (simp add: whitespace_def upt_rec)
  with assms(1) have "(of_char (hd w) :: nat) \<notin> {48..57} \<union> {97..102}"
    "(of_char (last w) :: nat) \<notin> {48..57} \<union> {97..102}"
    by (auto simp: list_all_iff)
  with assms(2) show "hd w \<noteq> hex_digit n" "last w \<noteq> hex_digit n"
    by (metis hex_digit_neq)+
qed

lemma strip_all_stop: "(\<And>w. w \<in> set ws \<Longrightarrow> w \<noteq> [] \<Longrightarrow> \<not> prefix w s) \<Longrightarrow> strip_all ws s = s"
  by (subst strip_all.simps) (auto simp: strip_one_def find_Some_iff split: option.splits dest: nth_mem)

lemma not_prefix_hd: "w \<noteq> [] \<Longrightarrow> s \<noteq> [] \<Longrightarrow> hd w \<noteq> hd s \<Longrightarrow> \<not> prefix w s"
  by (auto simp: prefix_def)

lemma trim_hex_ends:
  assumes "s = [] \<or> (\<exists>m n. m < 16 \<and> n < 16 \<and> hd s = hex_digit m \<and> last s = hex_digit n)"
  shows "trim s = s"
proof -
  have start: "strip_all whitespace s = s"
  proof (rule strip_all_stop)
    fix w assume w: "w \<in> set whitespace" "w \<noteq> []"
    with assms show "\<not> prefix w s"
      by (metis whitespace_ends(1) not_prefix_hd prefix_bot.extremum_uniqueI)
  qed
  have "strip_all (map rev whitespace) (rev s) = rev s"
  proof (rule strip_all_stop)
    fix w assume w: "w \<in> set (map rev whitespace)" "w \<noteq> []"
    then obtain v where v: "v \<in> set whitespace" "w = rev v" by auto
    with w assms show "\<not> prefix w (rev s)"
      by (metis whitespace_ends(2) not_prefix_hd prefix_bot.extremum_uniqueI hd_rev rev_is_Nil_conv)
  qed
  with start show ?thesis by (simp add: trim_def)
qed

lemma trim_hex_encode [simp]: "trim (hex_encode bs) = hex_encode bs"
proof (rule trim_hex_ends)
  show "hex_encode bs = [] \<or>
    (\<exists>m n. m < 16 \<and> n < 16 \<and> hd (hex_encode bs) = hex_digit m \<and> last (hex_encode bs) = hex_digit n)"
  proof (cases "hex_encode bs = []")
    case False
    then show ?thesis
      by (meson set_hex_encode hd_in_set last_in_set)
  qed simp
qed

section \<open>Both codecs meet the contract\<close>

lemma hex_decode_from_encode: "hex_decode_from i (hex_encode bs) = Some (Inr bs)"
proof (induction bs arbitrary: i)
  case (Cons b bs)
  obtain x y where xy: "fmt02x b = [x, y]" by (simp add: fmt02x_def)
  have bound: "\<not> (hex_encode bs \<noteq> [] \<and> continuation (hd (hex_encode bs)))"
    by (metis hex_digit_not_continuation set_hex_encode hd_in_set)
  have "from_str_radix 8 16 [x, y] = Some (unat b)"
    by (metis xy from_str_radix_fmt02x)
  with bound Cons.IH show ?case
    by (simp add: xy)
qed simp

interpretation hex: text_codec hex_encode hex_decode "\<lambda>_. True"
  by unfold_locales (simp add: hex_decode_def hex_decode_from_encode Let_def)

lemma split_on_no_sep: "c \<notin> set p \<Longrightarrow> split_on c p = [p]"
  by (induction p) auto

lemma split_on_app: "c \<notin> set p \<Longrightarrow> split_on c (p @ c # s) = p # split_on c s"
  by (induction p) auto

lemma split_on_join:
  "ps \<noteq> [] \<Longrightarrow> (\<And>p. p \<in> set ps \<Longrightarrow> c \<notin> set p) \<Longrightarrow> split_on c (join [c] ps) = ps"
  by (induction "[c]" ps rule: join.induct) (auto simp: split_on_no_sep split_on_app)

lemma colon_not_in_fmt02x [simp]: "CHR '':'' \<notin> set (fmt02x b)"
  by (simp add: fmt02x_def hex_digit_not_sep(2) [symmetric])

lemma mac_octets_format: "mac_octets i (map fmt02x mac) = Inr mac"
  by (induction mac arbitrary: i) auto

interpretation mac: text_codec mac_format "\<lambda>s. ret (mac_parse s)" mac_wf
proof
  fix m assume "mac_wf m"
  then have "split_on CHR '':'' (mac_format m) = map fmt02x m"
    unfolding mac_format_def mac_wf_def by (intro split_on_join) auto
  with \<open>mac_wf m\<close> show "ret (mac_parse (mac_format m)) = ret (Inr m)"
    by (simp add: mac_parse_def mac_wf_def mac_octets_format Let_def)
qed


text \<open>
  The text codecs of the configuration are lossless: decoding the lowercase hex encoding of any byte
  string gives the bytes back, and parsing the formatted form of any six-byte MAC gives the MAC back, so
  both encodings are injective.
\<close>

lemma codecs_round_trip:
  assumes "mac_wf mac"
  shows "hex_decode (hex_encode bs) = Some (Inr bs) \<and> mac_parse (mac_format mac) = Inr mac \<and>
    (hex_encode bs = hex_encode bs' \<longrightarrow> bs = bs')"
  using hex.dec_enc [of bs] mac.dec_enc [OF assms] hex.enc_inj [of bs bs'] by simp

text \<open>The decoders accept a leading plus sign, which is not a hex digit.\<close>

lemma hex_decode_accepts_sign: "hex_decode ''+a'' = Some (Inr [10])"
  by code_simp

lemma mac_parse_accepts_sign: "mac_parse ''+a:00ff:0:0:0:0'' = Inr [10, 255, 0, 0, 0, 0]"
  by code_simp

end
