(* ===== verification/Ip_Addr.thy ===== *)
theory Ip_Addr
  imports Common
begin

text \<open>
  \<open>std::net::IpAddr\<close>: an address is its octets, and its textual form is read the way the standard
  library's parser reads it (four decimal groups without leading zeros for IPv4; up to eight
  groups of at most four hexadecimal digits, one compressed run of zeros and an optional
  embedded IPv4 tail for IPv6). A reader returns the value and the rest of the text; a reader
  that fails consumes nothing.
\<close>

datatype ip_addr = V4 (octets: bytes) | V6 (octets: bytes)

fun ip_wf :: "ip_addr \<Rightarrow> bool" where
  "ip_wf (V4 os) \<longleftrightarrow> length os = 4"
| "ip_wf (V6 os) \<longleftrightarrow> length os = 16"

text \<open>The digits at the front of the text, and the text after them.\<close>

fun span_digits :: "nat \<Rightarrow> string \<Rightarrow> nat list \<times> string" where
  "span_digits radix [] = ([], [])"
| "span_digits radix (c # cs) =
     (case to_digit radix c of
        None \<Rightarrow> ([], c # cs)
      | Some d \<Rightarrow> (let (ds, rest) = span_digits radix cs in (d # ds, rest)))"

definition read_number :: "nat \<Rightarrow> nat \<Rightarrow> nat \<Rightarrow> bool \<Rightarrow> string \<Rightarrow> (nat \<times> string) option" where
  "read_number radix max_digits bits allow_zero_prefix s =
     (let (ds, rest) = span_digits radix s;
          v = foldl (\<lambda>acc d. acc * radix + d) 0 ds
      in if length ds > max_digits then None
         else if ds = [] then None
         else if \<not> allow_zero_prefix \<and> hd ds = 0 \<and> length ds > 1 then None
         else if v < 2 ^ bits then Some (v, rest) else None)"

text \<open>\<open>read_separator\<close>: every group but the first is preceded by the separator.\<close>

definition read_separator :: "char \<Rightarrow> nat \<Rightarrow> (string \<Rightarrow> ('a \<times> string) option) \<Rightarrow> string \<Rightarrow> ('a \<times> string) option" where
  "read_separator sep i inner s =
     (if i = 0 then inner s
      else case s of c # cs \<Rightarrow> if c = sep then inner cs else None | [] \<Rightarrow> None)"

fun read_ipv4_groups :: "nat \<Rightarrow> nat \<Rightarrow> string \<Rightarrow> (bytes \<times> string) option" where
  "read_ipv4_groups i 0 s = Some ([], s)"
| "read_ipv4_groups i (Suc n) s = do {
     (v, rest) \<leftarrow> read_separator CHR ''.'' i (read_number 10 3 8 False) s;
     (vs, rest) \<leftarrow> read_ipv4_groups (Suc i) n rest;
     Some (of_nat v # vs, rest)
   }"

definition read_ipv4_addr :: "string \<Rightarrow> (bytes \<times> string) option" where
  "read_ipv4_addr s = read_ipv4_groups 0 4 s"

text \<open>\<open>read_groups\<close> of the IPv6 reader: the octets read, whether they end in an IPv4 tail, the rest.\<close>

fun read_ipv6_groups :: "nat \<Rightarrow> nat \<Rightarrow> string \<Rightarrow> bytes \<times> bool \<times> string" where
  "read_ipv6_groups i 0 s = ([], False, s)"
| "read_ipv6_groups i (Suc n) s =
     (case (if n > 0 then read_separator CHR '':'' i read_ipv4_addr s else None) of
        Some (v4, rest) \<Rightarrow> (v4, True, rest)
      | None \<Rightarrow>
          (case read_separator CHR '':'' i (read_number 16 4 16 True) s of
             None \<Rightarrow> ([], False, s)
           | Some (g, rest) \<Rightarrow>
               (let (os, v4, rest) = read_ipv6_groups (Suc i) n rest
                in (of_nat (g div 256) # of_nat (g mod 256) # os, v4, rest))))"

definition read_ipv6_addr :: "string \<Rightarrow> (bytes \<times> string) option" where
  "read_ipv6_addr s =
     (let (head, head_ipv4, rest) = read_ipv6_groups 0 8 s
      in if length head = 16 then Some (head, rest)
         else if head_ipv4 then None
         else case rest of
           c1 # c2 # rest \<Rightarrow>
             if c1 = CHR '':'' \<and> c2 = CHR '':'' then
               (let limit = 8 - (length head div 2 + 1);
                    (tail, _, rest) = read_ipv6_groups 0 limit rest
                in Some (head @ replicate (16 - length head - length tail) 0 @ tail, rest))
             else None
         | _ \<Rightarrow> None)"

definition parse_ip :: "string \<Rightarrow> ip_addr option" where
  "parse_ip s =
     (case (case read_ipv4_addr s of
              Some (os, rest) \<Rightarrow> Some (V4 os, rest)
            | None \<Rightarrow> map_option (\<lambda>(os, rest). (V6 os, rest)) (read_ipv6_addr s)) of
        Some (ip, []) \<Rightarrow> Some ip
      | _ \<Rightarrow> None)"

text \<open>Whatever the text, an address that is read has the length of its family.\<close>

lemma read_ipv4_groups_length: "read_ipv4_groups i n s = Some (os, rest) \<Longrightarrow> length os = n"
  by (induction i n s arbitrary: os rest rule: read_ipv4_groups.induct) (auto split: prod.splits)

lemma read_ipv4_addr_length: "read_ipv4_addr s = Some (os, rest) \<Longrightarrow> length os = 4"
  unfolding read_ipv4_addr_def by (rule read_ipv4_groups_length)

lemma read_separator_inner:
  "read_separator sep i inner s = Some r \<Longrightarrow> \<exists>t. inner t = Some r"
  by (auto simp: read_separator_def split: if_splits list.splits)

lemma read_ipv6_groups_length:
  "read_ipv6_groups i n s = (os, v4, rest) \<Longrightarrow> length os \<le> 2 * n \<and> even (length os)"
proof (induction i n s arbitrary: os v4 rest rule: read_ipv6_groups.induct)
  case (2 i n s)
  show ?case
  proof (cases "if n > 0 then read_separator CHR '':'' i read_ipv4_addr s else None")
    case None
    with 2 show ?thesis
      by (fastforce split: option.splits prod.splits simp: Let_def)
  next
    case (Some r)
    then have "n > 0" by (simp split: if_splits)
    moreover obtain o4 r4 where r: "r = (o4, r4)" by force
    ultimately obtain t where "read_ipv4_addr t = Some (o4, r4)"
      using Some by (auto dest: read_separator_inner)
    then have "length o4 = 4" by (rule read_ipv4_addr_length)
    with 2 Some r \<open>n > 0\<close> show ?thesis by auto
  qed
qed simp

lemma read_ipv6_addr_length: "read_ipv6_addr s = Some (os, rest) \<Longrightarrow> length os = 16"
proof -
  assume read: "read_ipv6_addr s = Some (os, rest)"
  obtain head v4 r where head: "read_ipv6_groups 0 8 s = (head, v4, r)"
    by (cases "read_ipv6_groups 0 8 s")
  have hl: "length head \<le> 16" "even (length head)"
    using read_ipv6_groups_length [OF head] by auto
  show ?thesis
  proof (cases "length head = 16")
    case True
    with read head show ?thesis by (simp add: read_ipv6_addr_def)
  next
    case False
    with read head obtain r' tail v4' r'' where
      tail: "read_ipv6_groups 0 (8 - (length head div 2 + 1)) r' = (tail, v4', r'')"
      and os: "os = head @ replicate (16 - length head - length tail) 0 @ tail"
      by (auto simp: read_ipv6_addr_def Let_def split: if_splits list.splits prod.splits)
    have "length tail \<le> 2 * (8 - (length head div 2 + 1))"
      using read_ipv6_groups_length [OF tail] by simp
    with hl False os show ?thesis by auto
  qed
qed

lemma parse_ip_wf: "parse_ip s = Some ip \<Longrightarrow> ip_wf ip"
  by (auto simp: parse_ip_def split: option.splits prod.splits list.splits
      dest: read_ipv4_addr_length read_ipv6_addr_length)

end
