(* ===== verification/Route.thy ===== *)
theory Route
  imports Ip_Addr
begin

text \<open>
  \<open>pesigitg-routing/src/route.rs\<close>: the validated route entries and the validation that turns the
  deserialised TOML into them. The TOML deserialiser is third-party code and a parameter of
  \<open>parse_routes\<close>; so is the AES key schedule \<open>aes_new\<close>. A block cipher is the record of its two
  directions, and \<open>block_cipher\<close> is the documented law of the crate: both directions map 16-byte
  blocks to 16-byte blocks, and decryption inverts encryption.
\<close>

section \<open>Data\<close>

record aes128 =
  encrypt_block :: "bytes \<Rightarrow> bytes"
  decrypt_block :: "bytes \<Rightarrow> bytes"

definition block_cipher :: "aes128 \<Rightarrow> bool" where
  "block_cipher c \<longleftrightarrow>
     (\<forall>b. length b = 16 \<longrightarrow>
        length (encrypt_block c b) = 16 \<and> length (decrypt_block c b) = 16 \<and>
        decrypt_block c (encrypt_block c b) = b)"

datatype encryption =
    Plaintext
  | SinglePass bytes aes128
  | FourPass bytes aes128

record server =
  srv_id :: bytes
  srv_address :: ip_addr
  srv_mac :: "bytes option"
  srv_draining :: bool
  srv_healthy :: bool
  srv_transitions :: u32
  srv_state_since :: "instant option"

record route_config =
  rc_config_id :: u8
  rc_first_octet_encodes_cid_length :: bool
  rc_server_id_length :: u8
  rc_nonce_length :: u8
  rc_encryption :: encryption
  rc_servers :: "server list"
  rc_max_key_age_secs :: "u64 option"

datatype validation =
    ConfigIdRange u8
  | ServerIdLengthRange u8
  | NonceLengthRange u8
  | SumExceeds u8 u8 u16
  | InvalidHexKey hex_error
  | KeyLength nat
  | ServerIdHexLength string nat nat
  | InvalidHexServerId string hex_error
  | ServerIdLength string nat u8
  | InvalidServerAddress string
  | InvalidServerMac string mac_error
  | MaxKeyAgeZero u8
  | NoConfigs
  | DuplicateConfigId u8
  | RetryMode string
  | RetryLifetime u64
  | RetryKeyRequired
  | InvalidHexRetryKey hex_error
  | RetryKeyLength nat
  | RetryLoadSectionMissing
  | RetryTriggerZero
  | RetryLoadSectionUnexpected
  | RetryMaxKeyAgeZero

datatype route_config_error = Io string | Parse string | Validation validation

record raw_server =
  raw_id :: string
  raw_address :: string
  raw_mac :: "string option"
  raw_draining :: bool

record raw_config =
  raw_config_id :: u8
  raw_first_octet_encodes_cid_length :: bool
  raw_server_id_length :: u8
  raw_nonce_length :: u8
  raw_key :: "string option"
  raw_servers :: "raw_server list"
  raw_max_key_age_secs :: "u64 option"

section \<open>Operations\<close>

fun same_key :: "encryption \<Rightarrow> encryption \<Rightarrow> bool" where
  "same_key Plaintext Plaintext = True"
| "same_key (SinglePass a _) (SinglePass b _) \<longleftrightarrow> a = b"
| "same_key (FourPass a _) (FourPass b _) \<longleftrightarrow> a = b"
| "same_key _ _ = False"

text \<open>\<open>Clone\<close> rebuilds the cipher from the stored key.\<close>

fun encryption_clone :: "(bytes \<Rightarrow> aes128) \<Rightarrow> encryption \<Rightarrow> encryption" where
  "encryption_clone aes_new Plaintext = Plaintext"
| "encryption_clone aes_new (SinglePass key _) = SinglePass key (aes_new key)"
| "encryption_clone aes_new (FourPass key _) = FourPass key (aes_new key)"

definition parse_hex_key :: "string \<Rightarrow> (route_config_error + bytes) run" where
  "parse_hex_key s =
     try_bind (map_err (\<lambda>e. Validation (InvalidHexKey e)) (hex_decode s)) (\<lambda>bs.
       if length bs \<noteq> 16 then ret (Inl (Validation (KeyLength (length bs))))
       else ret (Inr bs))"

definition parse_server :: "raw_server \<Rightarrow> u8 \<Rightarrow> (route_config_error + server) run" where
  "parse_server raw expected_id_len =
     (let expected_hex_len = unat expected_id_len * 2 in
      if length (trim (raw_id raw)) \<noteq> expected_hex_len then
        ret (Inl (Validation (ServerIdHexLength (raw_id raw) (length (trim (raw_id raw))) expected_hex_len)))
      else
        try_bind (map_err (\<lambda>e. Validation (InvalidHexServerId (raw_id raw) e)) (hex_decode (raw_id raw))) (\<lambda>sid.
        if length sid \<noteq> unat expected_id_len then
          ret (Inl (Validation (ServerIdLength (raw_id raw) (length sid) expected_id_len)))
        else
          try_bind (ok_or (Validation (InvalidServerAddress (raw_address raw))) (parse_ip (raw_address raw))) (\<lambda>address.
          try_bind
            (case raw_mac raw of
               None \<Rightarrow> ret (Inr None)
             | Some m \<Rightarrow> ret (map_sum (\<lambda>e. Validation (InvalidServerMac m e)) Some (mac_parse m))) (\<lambda>mac.
          ret (Inr \<lparr>srv_id = sid, srv_address = address, srv_mac = mac,
                    srv_draining = raw_draining raw, srv_healthy = False,
                    srv_transitions = 0, srv_state_since = None\<rparr>)))))"

definition validate :: "(bytes \<Rightarrow> aes128) \<Rightarrow> raw_config \<Rightarrow> (route_config_error + route_config) run" where
  "validate aes_new raw =
     (if raw_config_id raw > 6 then ret (Inl (Validation (ConfigIdRange (raw_config_id raw))))
      else if raw_server_id_length raw = 0 \<or> raw_server_id_length raw > 15 then
        ret (Inl (Validation (ServerIdLengthRange (raw_server_id_length raw))))
      else if raw_nonce_length raw < 4 \<or> raw_nonce_length raw > 18 then
        ret (Inl (Validation (NonceLengthRange (raw_nonce_length raw))))
      else
        (let sum = (ucast (raw_server_id_length raw) :: u16) + ucast (raw_nonce_length raw) in
         if sum > 19 then
           ret (Inl (Validation (SumExceeds (raw_server_id_length raw) (raw_nonce_length raw) sum)))
         else
           try_bind
             (case raw_key raw of
                None \<Rightarrow> ret (Inr Plaintext)
              | Some hex \<Rightarrow>
                  try_bind (parse_hex_key hex) (\<lambda>key.
                    let cipher = aes_new key in
                    ret (Inr (if sum = 16 then SinglePass key cipher else FourPass key cipher))))
             (\<lambda>encryption.
                try_bind (try_map (\<lambda>s. parse_server s (raw_server_id_length raw)) (raw_servers raw))
                  (\<lambda>servers.
                     if raw_max_key_age_secs raw = Some 0 then
                       ret (Inl (Validation (MaxKeyAgeZero (raw_config_id raw))))
                     else
                       ret (Inr \<lparr>rc_config_id = raw_config_id raw,
                         rc_first_octet_encodes_cid_length = raw_first_octet_encodes_cid_length raw,
                         rc_server_id_length = raw_server_id_length raw,
                         rc_nonce_length = raw_nonce_length raw,
                         rc_encryption = encryption,
                         rc_servers = servers,
                         rc_max_key_age_secs = raw_max_key_age_secs raw\<rparr>)))))"

definition cid_payload_length :: "route_config \<Rightarrow> u8" where
  "cid_payload_length rc = rc_server_id_length rc + rc_nonce_length rc"

definition cid_length :: "route_config \<Rightarrow> u8" where
  "cid_length rc = 1 + cid_payload_length rc"

text \<open>\<open>iter().position(p)\<close>.\<close>

fun position :: "('a \<Rightarrow> bool) \<Rightarrow> 'a list \<Rightarrow> nat option" where
  "position P [] = None"
| "position P (x # xs) = (if P x then Some 0 else map_option Suc (position P xs))"

definition find_server_idx :: "route_config \<Rightarrow> bytes \<Rightarrow> nat option" where
  "find_server_idx rc sid = position (\<lambda>s. srv_id s = sid) (rc_servers rc)"

fun parse_routes_loop ::
  "(bytes \<Rightarrow> aes128) \<Rightarrow> bool list \<Rightarrow> route_config list \<Rightarrow> raw_config list
     \<Rightarrow> (route_config_error + route_config list) run" where
  "parse_routes_loop aes_new seen out [] = ret (Inr out)"
| "parse_routes_loop aes_new seen out (raw # raws) =
     try_bind (validate aes_new raw) (\<lambda>config. do {
       dup \<leftarrow> idx seen (unat (rc_config_id config));
       if dup then ret (Inl (Validation (DuplicateConfigId (rc_config_id config))))
       else do {
         seen \<leftarrow> set_idx seen (unat (rc_config_id config)) True;
         parse_routes_loop aes_new seen (out @ [config]) raws
       }
     })"

definition parse_routes ::
  "(bytes \<Rightarrow> aes128) \<Rightarrow> (string \<Rightarrow> string + raw_config list) \<Rightarrow> string
     \<Rightarrow> (route_config_error + route_config list) run" where
  "parse_routes aes_new toml text =
     (case toml text of
        Inl e \<Rightarrow> ret (Inl (Parse e))
      | Inr raws \<Rightarrow>
          if raws = [] then ret (Inl (Validation NoConfigs))
          else parse_routes_loop aes_new (replicate 7 False) [] raws)"

section \<open>What validation establishes\<close>

definition server_wf :: "u8 \<Rightarrow> server \<Rightarrow> bool" where
  "server_wf sid_len s \<longleftrightarrow>
     length (srv_id s) = unat sid_len \<and> ip_wf (srv_address s) \<and>
     (\<forall>m. srv_mac s = Some m \<longrightarrow> mac_wf m)"

text \<open>The mode a config must run in, given its key and lengths.\<close>

fun encryption_wf :: "(bytes \<Rightarrow> aes128) \<Rightarrow> nat \<Rightarrow> encryption \<Rightarrow> bool" where
  "encryption_wf aes_new payload Plaintext = True"
| "encryption_wf aes_new payload (SinglePass key c) \<longleftrightarrow> payload = 16 \<and> length key = 16 \<and> c = aes_new key"
| "encryption_wf aes_new payload (FourPass key c) \<longleftrightarrow> payload \<noteq> 16 \<and> length key = 16 \<and> c = aes_new key"

definition lengths_ok :: "nat \<Rightarrow> nat \<Rightarrow> bool" where
  "lengths_ok sid_len nonce_len \<longleftrightarrow>
     1 \<le> sid_len \<and> sid_len \<le> 15 \<and> 4 \<le> nonce_len \<and> nonce_len \<le> 18 \<and> sid_len + nonce_len \<le> 19"

definition route_wf :: "(bytes \<Rightarrow> aes128) \<Rightarrow> route_config \<Rightarrow> bool" where
  "route_wf aes_new rc \<longleftrightarrow>
     rc_config_id rc \<le> 6 \<and>
     lengths_ok (unat (rc_server_id_length rc)) (unat (rc_nonce_length rc)) \<and>
     encryption_wf aes_new (unat (rc_server_id_length rc) + unat (rc_nonce_length rc)) (rc_encryption rc) \<and>
     list_all (server_wf (rc_server_id_length rc)) (rc_servers rc) \<and>
     rc_max_key_age_secs rc \<noteq> Some 0"

definition server_initial :: "server \<Rightarrow> bool" where
  "server_initial s \<longleftrightarrow> \<not> srv_healthy s \<and> srv_transitions s = 0 \<and> srv_state_since s = None"

definition ascii :: "string \<Rightarrow> bool" where
  "ascii s \<longleftrightarrow> list_all (\<lambda>c. (of_char c :: nat) < 128) s"

definition raw_ascii :: "raw_config \<Rightarrow> bool" where
  "raw_ascii raw \<longleftrightarrow>
     (\<forall>k. raw_key raw = Some k \<longrightarrow> ascii k) \<and> list_all (\<lambda>s. ascii (raw_id s)) (raw_servers raw)"

text \<open>The addition of the two lengths in \<open>u16\<close> and in \<open>u8\<close> does not wrap where it is used.\<close>

lemma unat_sum_u16:
  "unat ((ucast (a :: u8) :: u16) + ucast b) = unat a + unat (b :: u8)"
proof -
  have "unat a + unat b < 2 ^ LENGTH(16)"
    using unat_byte_le [of a] unat_byte_le [of b] by simp
  then show ?thesis
    by (simp add: unat_add_lem [THEN iffD1] unsigned_ucast_eq take_bit_nat_eq_self unat_word_ariths)
qed

lemma sum_fits:
  "(a :: u8) \<le> 15 \<Longrightarrow> (b :: u8) \<le> 18 \<Longrightarrow> unat (a + b) = unat a + unat b"
proof -
  assume "a \<le> 15" "b \<le> 18"
  then have "unat a \<le> 15" "unat b \<le> 18" by (simp_all add: word_le_nat_alt)
  then show ?thesis by (simp add: unat_word_ariths)
qed

lemma cid_lengths:
  assumes "lengths_ok (unat (rc_server_id_length rc)) (unat (rc_nonce_length rc))"
  shows "unat (cid_payload_length rc) = unat (rc_server_id_length rc) + unat (rc_nonce_length rc)"
    and "unat (cid_length rc) = Suc (unat (rc_server_id_length rc) + unat (rc_nonce_length rc))"
  using assms
  by (simp_all add: lengths_ok_def cid_payload_length_def cid_length_def unat_word_ariths)

lemma map_sum_eq_Inr [simp]: "map_sum f g r = Inr y \<longleftrightarrow> (\<exists>x. r = Inr x \<and> y = g x)"
  by (cases r) auto

lemma mac_octets_length: "mac_octets i ps = Inr bs \<Longrightarrow> length bs = length ps"
  by (induction i ps arbitrary: bs rule: mac_octets.induct) (auto split: option.splits)

lemma mac_parse_wf: "mac_parse s = Inr m \<Longrightarrow> mac_wf m"
  by (auto simp: mac_parse_def mac_wf_def Let_def dest: mac_octets_length split: if_splits)

lemma parse_hex_key_length: "parse_hex_key s = Some (Inr k) \<Longrightarrow> length k = 16"
  by (auto simp: parse_hex_key_def split: if_splits)

lemma parse_server_wf:
  "parse_server raw n = Some (Inr s) \<Longrightarrow>
     server_wf n s \<and> server_initial s \<and> srv_draining s = raw_draining raw"
  by (auto simp: parse_server_def server_wf_def server_initial_def Let_def
      dest: parse_ip_wf mac_parse_wf split: if_splits option.splits)

lemma validate_accepts:
  assumes "validate aes_new raw = Some (Inr rc)"
  shows "raw_config_id raw \<le> 6"
    and "lengths_ok (unat (raw_server_id_length raw)) (unat (raw_nonce_length raw))"
    and "rc_config_id rc = raw_config_id raw"
    and "rc_server_id_length rc = raw_server_id_length raw"
    and "rc_nonce_length rc = raw_nonce_length raw"
    and "list_all2 (\<lambda>r s. parse_server r (raw_server_id_length raw) = Some (Inr s))
           (raw_servers raw) (rc_servers rc)"
    and "encryption_wf aes_new (unat (raw_server_id_length raw) + unat (raw_nonce_length raw)) (rc_encryption rc)"
    and "rc_max_key_age_secs rc \<noteq> Some 0"
proof -
  let ?sum = "(ucast (raw_server_id_length raw) :: u16) + ucast (raw_nonce_length raw)"
  have eq: "?sum = 16 \<longleftrightarrow> unat (raw_server_id_length raw) + unat (raw_nonce_length raw) = 16"
    by (simp add: word_unat_eq_iff unat_sum_u16)
  have pos: "raw_server_id_length raw = 0 \<longleftrightarrow> unat (raw_server_id_length raw) = 0"
    by (simp add: unat_eq_0)
  note * = assms [unfolded validate_def Let_def]
  show "raw_config_id raw \<le> 6" "rc_config_id rc = raw_config_id raw"
    "rc_server_id_length rc = raw_server_id_length raw"
    "rc_nonce_length rc = raw_nonce_length raw" "rc_max_key_age_secs rc \<noteq> Some 0"
    using * by (auto split: if_splits)
  show "lengths_ok (unat (raw_server_id_length raw)) (unat (raw_nonce_length raw))"
    using * by (auto simp: lengths_ok_def pos not_less unat_sum_u16 word_le_nat_alt split: if_splits)
  show "list_all2 (\<lambda>r s. parse_server r (raw_server_id_length raw) = Some (Inr s))
     (raw_servers raw) (rc_servers rc)"
    using * by (auto split: if_splits dest: try_map_Inr)
  show "encryption_wf aes_new (unat (raw_server_id_length raw) + unat (raw_nonce_length raw)) (rc_encryption rc)"
    using * by (auto simp: eq split: if_splits option.splits dest: parse_hex_key_length)
qed

lemma validate_wf:
  assumes "validate aes_new raw = Some (Inr rc)"
  shows "route_wf aes_new rc" and "list_all server_initial (rc_servers rc)"
  using validate_accepts [OF assms]
  by (auto simp: route_wf_def list_all_length list_all2_conv_all_nth dest!: parse_server_wf)

text \<open>
  The duplicate check keeps \<open>seen\<close> equal to the characteristic vector of the ids accepted so far,
  so the loop accepts exactly when every entry validates and no id occurs twice.
\<close>

definition seen_of :: "route_config list \<Rightarrow> bool list" where
  "seen_of rcs = map (\<lambda>k. \<exists>rc \<in> set rcs. unat (rc_config_id rc) = k) [0..<7]"

lemma config_id_lt_7: "validate aes_new raw = Some (Inr rc) \<Longrightarrow> unat (rc_config_id rc) < 7"
  using validate_accepts(1,3) [of aes_new raw rc] by (simp add: word_le_nat_alt)

lemma idx_seen_of [simp]:
  "unat (rc_config_id rc) < 7 \<Longrightarrow>
     idx (seen_of rcs) (unat (rc_config_id rc)) = Some (rc_config_id rc \<in> rc_config_id ` set rcs)"
  by (simp add: seen_of_def image_iff word_unat_eq_iff) (metis)

lemma set_idx_seen_of [simp]:
  "unat (rc_config_id rc) < 7 \<Longrightarrow>
     set_idx (seen_of rcs) (unat (rc_config_id rc)) True = Some (seen_of (rcs @ [rc]))"
  by (auto simp: set_idx_def seen_of_def nth_list_update intro!: nth_equalityI split: if_splits)

lemma parse_routes_loop_iff:
  "parse_routes_loop aes_new (seen_of out) out raws = Some (Inr rcs) \<longleftrightarrow>
     (\<exists>new. rcs = out @ new \<and> list_all2 (\<lambda>raw rc. validate aes_new raw = Some (Inr rc)) raws new \<and>
        distinct (map rc_config_id new) \<and>
        set (map rc_config_id new) \<inter> set (map rc_config_id out) = {})"
proof (induction raws arbitrary: out)
  case Nil
  then show ?case by auto
next
  case (Cons raw raws)
  show ?case
  proof (cases "\<exists>rc. validate aes_new raw = Some (Inr rc)")
    case True
    then obtain rc where rc: "validate aes_new raw = Some (Inr rc)" ..
    have "unat (rc_config_id rc) < 7" by (rule config_id_lt_7 [OF rc])
    then show ?thesis
      by (auto simp: rc Cons.IH list_all2_Cons1)
  next
    case False
    then show ?thesis by (auto simp: list_all2_Cons1)
  qed
qed

lemma seen_of_Nil: "replicate 7 False = seen_of []"
  by (simp add: seen_of_def map_replicate_const)

text \<open>
  C40. \<open>parse_routes\<close> accepts a file exactly when its TOML has at least one entry, every entry passes
  \<open>validate\<close>, and no two entries share a config id; it then returns the validated entries in
  declaration order.
\<close>

theorem parse_routes_iff:
  "parse_routes aes_new toml text = Some (Inr rcs) \<longleftrightarrow>
     (\<exists>raws. toml text = Inr raws \<and> raws \<noteq> [] \<and>
        list_all2 (\<lambda>raw rc. validate aes_new raw = Some (Inr rc)) raws rcs \<and>
        distinct (map rc_config_id rcs))"
  using parse_routes_loop_iff [of aes_new "[]"]
  by (auto simp: parse_routes_def seen_of_Nil split: sum.splits)

lemma parse_routes_result:
  assumes "parse_routes aes_new toml text = Some (Inr rcs)"
  shows "list_all (route_wf aes_new) rcs \<and> list_all (\<lambda>rc. list_all server_initial (rc_servers rc)) rcs \<and>
    distinct (map rc_config_id rcs) \<and> rcs \<noteq> [] \<and> length rcs \<le> 7"
proof -
  from assms obtain raws where raws: "raws \<noteq> []"
      "list_all2 (\<lambda>raw rc. validate aes_new raw = Some (Inr rc)) raws rcs"
      and dist: "distinct (map rc_config_id rcs)"
    using parse_routes_loop_iff [of aes_new "[]"]
    by (auto simp: parse_routes_def seen_of_Nil split: sum.splits if_splits)
  have val: "\<exists>raw. validate aes_new raw = Some (Inr rc)" if "rc \<in> set rcs" for rc
    using raws(2) that by (auto simp: list_all2_conv_all_nth in_set_conv_nth)
  have "length rcs = card (rc_config_id ` set rcs)"
    using dist by (metis distinct_card length_map list.set_map)
  also have "\<dots> = card (unat ` rc_config_id ` set rcs)"
    by (rule card_image [symmetric]) (auto intro: inj_onI simp: word_unat_eq_iff)
  also have "\<dots> \<le> card {..<7::nat}"
    by (rule card_mono) (auto dest!: val config_id_lt_7)
  finally have "length rcs \<le> 7" by simp
  moreover have "route_wf aes_new rc \<and> list_all server_initial (rc_servers rc)" if "rc \<in> set rcs" for rc
    using val [OF that] validate_wf by blast
  ultimately show ?thesis
    using raws dist by (auto simp: list_all_iff)
qed

text \<open>
  Every entry of an accepted route file is well formed: its config id is at most 6, its server id
  and nonce lengths are in the ranges of the draft and sum to at most 19, its mode is the one its key
  and lengths call for with the cipher of that key, every server id has the configured length, every
  MAC has six octets, and every server starts unhealthy. There are between one and seven entries.
\<close>

lemma parse_routes_wf:
  assumes "parse_routes aes_new toml text = Some (Inr rcs)"
  shows "list_all (route_wf aes_new) rcs \<and> list_all (\<lambda>rc. list_all server_initial (rc_servers rc)) rcs \<and>
    distinct (map rc_config_id rcs) \<and> rcs \<noteq> [] \<and> length rcs \<le> 7"
  using parse_routes_result [OF assms] .

section \<open>Panic freedom on ASCII input\<close>

lemma ascii_Cons: "ascii (c # s) \<longleftrightarrow> (of_char c :: nat) < 128 \<and> ascii s"
  by (simp add: ascii_def)

lemma ascii_no_continuation: "ascii s \<Longrightarrow> s \<noteq> [] \<Longrightarrow> \<not> continuation (hd s)"
  by (cases s) (auto simp: ascii_def continuation_def)

lemma hex_decode_from_total: "ascii s \<Longrightarrow> \<exists>r. hex_decode_from i s = Some r"
  by (induction i s rule: hex_decode_from.induct)
    (auto simp: ascii_Cons ascii_no_continuation split: option.splits)

lemma set_strip_all: "set (strip_all ws s) \<subseteq> set s"
proof (induction ws s rule: strip_all.induct)
  case (1 ws s)
  show ?case
  proof (cases "strip_one ws s")
    case None
    then show ?thesis by (simp add: strip_all.simps [of ws s])
  next
    case (Some t)
    then have "set t \<subseteq> set s" by (auto simp: strip_one_def dest: in_set_dropD)
    with 1 [OF Some] Some show ?thesis by (auto simp: strip_all.simps [of ws s])
  qed
qed

lemma ascii_trim: "ascii s \<Longrightarrow> ascii (trim s)"
  using set_strip_all [of "map rev whitespace" "rev (strip_all whitespace s)"] set_strip_all [of whitespace s]
  by (auto simp: ascii_def trim_def list_all_iff)

lemma hex_decode_total: "ascii s \<Longrightarrow> \<exists>r. hex_decode s = Some r"
  by (auto simp: hex_decode_def Let_def intro: hex_decode_from_total ascii_trim)

lemma parse_hex_key_total: "ascii s \<Longrightarrow> \<exists>r. parse_hex_key s = Some r"
  unfolding parse_hex_key_def by (rule try_bind_no_panic) (auto dest: hex_decode_total)

lemma parse_server_total: "ascii (raw_id raw) \<Longrightarrow> \<exists>r. parse_server raw n = Some r"
  unfolding parse_server_def Let_def
  by (auto simp: ok_or_def dest: hex_decode_total intro!: try_bind_no_panic split: option.splits)

lemma try_map_total:
  "(\<And>x. x \<in> set xs \<Longrightarrow> \<exists>r. f x = Some r) \<Longrightarrow> \<exists>r. try_map f xs = Some r"
  by (induction xs) (auto intro!: try_bind_no_panic)

lemma validate_total: "raw_ascii raw \<Longrightarrow> \<exists>r. validate aes_new raw = Some r"
  unfolding validate_def Let_def raw_ascii_def list_all_iff
  by (auto intro!: try_bind_no_panic try_map_total parse_server_total parse_hex_key_total split: option.splits)

lemma parse_routes_loop_total:
  "list_all raw_ascii raws \<Longrightarrow> \<exists>r. parse_routes_loop aes_new (seen_of out) out raws = Some r"
proof (induction raws arbitrary: out)
  case (Cons raw raws)
  then show ?case
    by (auto simp: config_id_lt_7 intro!: try_bind_no_panic validate_total)
qed simp

text \<open>
  Parsing a route file never panics as long as the hex strings in it are ASCII: whatever the
  deserialiser returns, the outcome is a parse error, a validation error or a table.
\<close>

lemma parse_routes_total:
  assumes "\<And>raws. toml text = Inr raws \<Longrightarrow> list_all raw_ascii raws"
  shows "\<exists>r. parse_routes aes_new toml text = Some r"
  using assms parse_routes_loop_total [of _ aes_new "[]"]
  by (auto simp: parse_routes_def seen_of_Nil split: sum.splits)

lemma ascii_hex_encode: "ascii (hex_encode bs)"
  by (auto simp: ascii_def list_all_iff of_char_hex_digit dest!: set_hex_encode)

section \<open>A concrete cipher and a concrete route file\<close>

text \<open>
  A 16-byte one-time pad satisfies the block cipher law; it instantiates the cipher parameter where
  a statement is evaluated.
\<close>

definition xor_cipher :: "bytes \<Rightarrow> aes128" where
  "xor_cipher key = \<lparr>encrypt_block = map2 (XOR) key, decrypt_block = map2 (XOR) key\<rparr>"

lemma xor_cipher_block_cipher: "length key = 16 \<Longrightarrow> block_cipher (xor_cipher key)"
  by (auto simp: block_cipher_def xor_cipher_def xor.assoc [symmetric] intro!: nth_equalityI)

definition sample_key :: bytes where
  "sample_key = [0, 1, 2, 3, 4, 5, 6, 7, 8, 9, 10, 11, 12, 13, 14, 15]"

definition sample_mac :: bytes where
  "sample_mac = [0xaa, 0xbb, 0xcc, 0xdd, 0xee, 1]"

definition sample_raw_server :: "bytes \<Rightarrow> raw_server" where
  "sample_raw_server sid =
     \<lparr>raw_id = hex_encode sid, raw_address = ''10.0.1.10'', raw_mac = Some (mac_format sample_mac), raw_draining = False\<rparr>"

definition sample_raw :: raw_config where
  "sample_raw = \<lparr>raw_config_id = 2, raw_first_octet_encodes_cid_length = False,
     raw_server_id_length = 2, raw_nonce_length = 14, raw_key = Some (hex_encode sample_key),
     raw_servers = [sample_raw_server [10, 11]], raw_max_key_age_secs = None\<rparr>"

definition sample_toml :: "string \<Rightarrow> string + raw_config list" where
  "sample_toml text = Inr [sample_raw]"

definition sample_server :: "bytes \<Rightarrow> server" where
  "sample_server sid =
     \<lparr>srv_id = sid, srv_address = V4 [10, 0, 1, 10], srv_mac = Some sample_mac, srv_draining = False,
      srv_healthy = False, srv_transitions = 0, srv_state_since = None\<rparr>"

definition sample_rc :: route_config where
  "sample_rc = \<lparr>rc_config_id = 2, rc_first_octet_encodes_cid_length = False,
     rc_server_id_length = 2, rc_nonce_length = 14,
     rc_encryption = SinglePass sample_key (xor_cipher sample_key),
     rc_servers = [sample_server [10, 11]], rc_max_key_age_secs = None\<rparr>"

lemma parse_ip_sample: "parse_ip ''10.0.1.10'' = Some (V4 [10, 0, 1, 10])"
  by code_simp

lemma parse_server_sample: "parse_server (sample_raw_server [10, 11]) 2 = Some (Inr (sample_server [10, 11]))"
proof -
  have "mac_parse (mac_format sample_mac) = Inr sample_mac"
    using mac.dec_enc [of sample_mac] by (simp add: mac_wf_def sample_mac_def)
  then show ?thesis
    by (simp add: parse_server_def sample_raw_server_def sample_server_def hex.dec_enc parse_ip_sample del: hex_encode_Cons)
qed

lemma validate_sample: "validate xor_cipher sample_raw = Some (Inr sample_rc)"
  by (simp add: validate_def sample_raw_def sample_rc_def parse_hex_key_def hex.dec_enc parse_server_sample)
    (simp add: sample_key_def)

lemma sample_parses: "parse_routes xor_cipher sample_toml [] = Some (Inr [sample_rc])"
  by (simp add: parse_routes_def sample_toml_def validate_sample) (simp add: sample_rc_def)

end
