(* ===== verification/Cid.thy ===== *)
theory Cid
  imports Route
begin

text \<open>
  \<open>pesigitg-routing/src/cid.rs\<close>: extraction of connection ids from QUIC headers and decryption of
  the QUIC-LB payload, with every index and slice of the source as a step that may panic.
\<close>

section \<open>Header accessors\<close>

definition first_cid_octet :: "bytes \<Rightarrow> u8 option run" where
  "first_cid_octet quic =
     (if quic = [] then ret None
      else do {
        b0 \<leftarrow> idx quic 0;
        if b0 AND 0x80 \<noteq> 0 then
          if length quic < 7 then ret None
          else do {
            l \<leftarrow> idx quic 5;
            if l = 0 then ret None else do { b \<leftarrow> idx quic 6; ret (Some b) }
          }
        else if length quic < 2 then ret None
        else do { b \<leftarrow> idx quic 1; ret (Some b) }
      })"

definition extract_raw_dcid :: "bytes \<Rightarrow> u8 \<Rightarrow> bytes option run" where
  "extract_raw_dcid quic cid_len =
     (if quic = [] then ret None
      else do {
        b0 \<leftarrow> idx quic 0;
        r \<leftarrow> (if b0 AND 0x80 \<noteq> 0 then
               if length quic < 6 then ret None
               else do {
                 l \<leftarrow> idx quic 5;
                 let end = 6 + unat l;
                 if length quic < end then ret None
                 else do { d \<leftarrow> slice quic 6 end; ret (Some d) }
               }
             else
               (let end = 1 + unat cid_len in
                if length quic < end then ret None
                else do { d \<leftarrow> slice quic 1 end; ret (Some d) }));
        case r of
          None \<Rightarrow> ret None
        | Some dcid \<Rightarrow> if dcid = [] then ret None else ret (Some dcid)
      })"

definition extract_scid :: "bytes \<Rightarrow> bytes option run" where
  "extract_scid quic =
     (if quic = [] then ret None
      else do {
        b0 \<leftarrow> idx quic 0;
        if b0 AND 0x80 = 0 then ret None
        else if length quic < 6 then ret None
        else do {
          dl \<leftarrow> idx quic 5;
          let scid_len_offset = 6 + unat dl;
          if length quic < scid_len_offset + 1 then ret None
          else do {
            scid_len \<leftarrow> idx quic scid_len_offset;
            if scid_len = 0 then ret None
            else do {
              let scid_start = scid_len_offset + 1;
              let scid_end = scid_start + unat scid_len;
              if length quic < scid_end then ret None
              else do { s \<leftarrow> slice quic scid_start scid_end; ret (Some s) }
            }
          }
        }
      })"

section \<open>Decryption\<close>

definition decrypt_single_pass :: "bytes \<Rightarrow> aes128 \<Rightarrow> bytes run" where
  "decrypt_single_pass buf cipher = do {
     block \<leftarrow> slice buf 0 16;
     copy_into buf 0 16 (decrypt_block cipher block)
   }"

text \<open>\<open>for j in 0..n { buf[off + j] ^= ga[j] }\<close>.\<close>

definition xor_into :: "bytes \<Rightarrow> nat \<Rightarrow> bytes \<Rightarrow> nat \<Rightarrow> bytes run" where
  "xor_into buf off ga n =
     foldM (\<lambda>buf j. do { g \<leftarrow> idx ga j; b \<leftarrow> idx buf (off + j); set_idx buf (off + j) (b XOR g) }) buf [0..<n]"

text \<open>One iteration of the Feistel loop, for pass \<open>i\<close>.\<close>

definition decrypt_pass :: "nat \<Rightarrow> nat \<Rightarrow> aes128 \<Rightarrow> bytes \<Rightarrow> u8 \<Rightarrow> bytes run" where
  "decrypt_pass sid_len nonce_len cipher buf i =
     (let block = replicate 16 0 in
      if i mod 2 = 1 then do {
        left \<leftarrow> slice buf 0 sid_len;
        block \<leftarrow> copy_into block 0 sid_len left;
        b0 \<leftarrow> idx block 0;
        block \<leftarrow> set_idx block 0 (b0 XOR i);
        let ga = encrypt_block cipher block;
        xor_into buf sid_len ga nonce_len
      } else do {
        right \<leftarrow> slice buf sid_len (sid_len + nonce_len);
        block \<leftarrow> copy_into block 0 nonce_len right;
        b0 \<leftarrow> idx block 0;
        block \<leftarrow> set_idx block 0 (b0 XOR i);
        let ga = encrypt_block cipher block;
        xor_into buf 0 ga sid_len
      })"

definition decrypt_four_pass :: "bytes \<Rightarrow> nat \<Rightarrow> nat \<Rightarrow> aes128 \<Rightarrow> bytes run" where
  "decrypt_four_pass buf sid_len nonce_len cipher =
     foldM (decrypt_pass sid_len nonce_len cipher) buf [3, 2, 1, 0]"

definition resolve_server_idx :: "bytes \<Rightarrow> route_config \<Rightarrow> nat option run" where
  "resolve_server_idx dcid config =
     (let payload_len = unat (cid_payload_length config);
          sid_len = unat (rc_server_id_length config) in
      if length dcid < 1 + payload_len then ret None
      else do {
        payload \<leftarrow> slice dcid 1 (1 + payload_len);
        buf \<leftarrow> copy_into (replicate 19 0) 0 payload_len payload;
        buf \<leftarrow> (case rc_encryption config of
                  Plaintext \<Rightarrow> ret buf
                | SinglePass _ cipher \<Rightarrow> decrypt_single_pass buf cipher
                | FourPass _ cipher \<Rightarrow> decrypt_four_pass buf sid_len (payload_len - sid_len) cipher);
        sid \<leftarrow> slice buf 0 sid_len;
        ret (find_server_idx config sid)
      })"

section \<open>The accessors never panic\<close>

lemma first_cid_octet_total: "\<exists>r. first_cid_octet quic = Some r"
  by (auto simp: first_cid_octet_def)

lemma extract_raw_dcid_total: "\<exists>r. extract_raw_dcid quic n = Some r"
  by (auto simp: extract_raw_dcid_def Let_def)

lemma extract_scid_total: "\<exists>r. extract_scid quic = Some r"
  by (auto simp: extract_scid_def Let_def)

section \<open>The Feistel network\<close>

lemma xor_into_in:
  "off + n \<le> length buf \<Longrightarrow> n \<le> length ga \<Longrightarrow>
     xor_into buf off ga n =
       Some (take off buf @ map2 (XOR) (take n (drop off buf)) ga @ drop (off + n) buf)"
proof (induction n)
  case 0
  then show ?case by (simp add: xor_into_def)
next
  case (Suc n)
  let ?pre = "take off buf @ map2 (XOR) (take n (drop off buf)) ga"
  have pre: "length ?pre = off + n" using Suc.prems by simp
  have rest: "drop (off + n) buf = buf ! (off + n) # drop (off + Suc n) buf"
    using Suc.prems by (metis Cons_nth_drop_Suc Suc_le_lessD add_Suc_right)
  have snoc: "map2 (XOR) (take (Suc n) (drop off buf)) ga =
      map2 (XOR) (take n (drop off buf)) ga @ [buf ! (off + n) XOR ga ! n]"
    using Suc.prems
    by (intro nth_equalityI) (auto simp: nth_append less_Suc_eq)
  have "xor_into buf off ga (Suc n) = do {
      s \<leftarrow> xor_into buf off ga n; b \<leftarrow> idx s (off + n); set_idx s (off + n) (b XOR ga ! n) }"
    using Suc.prems by (simp add: xor_into_def foldM_append)
  also have "\<dots> = Some (?pre @ [buf ! (off + n) XOR ga ! n] @ drop (off + Suc n) buf)"
    using Suc pre rest by (simp add: nth_append list_update_append)
  finally show ?case by (simp add: snoc)
qed

lemma xor_into_out: "length ga < n \<Longrightarrow> xor_into buf off ga n = None"
proof -
  let ?f = "\<lambda>buf j. do { g \<leftarrow> idx ga j; b \<leftarrow> idx buf (off + j); set_idx buf (off + j) (b XOR g) }"
  assume "length ga < n"
  then have "[0..<n] = [0..<length ga] @ length ga # [Suc (length ga)..<n]"
    by (metis le_add1 add_0 upt_add_eq_append upt_conv_Cons le_iff_add less_imp_le)
  then show ?thesis
    by (cases "foldM ?f buf [0..<length ga]") (simp_all add: xor_into_def foldM_append idx_def)
qed

text \<open>
  The value the loop computes. \<open>pad\<close> is the input block of pass \<open>i\<close>, \<open>round_mask\<close> the round function,
  and \<open>feistel\<close> one pass on the pair of server id and nonce. A pass is its own inverse, so running
  the passes backwards undoes them.
\<close>

definition pad :: "u8 \<Rightarrow> bytes \<Rightarrow> bytes" where
  "pad i src = (let block = src @ replicate (16 - length src) 0 in block[0 := block ! 0 XOR i])"

definition round_mask :: "aes128 \<Rightarrow> u8 \<Rightarrow> bytes \<Rightarrow> bytes" where
  "round_mask c i src = encrypt_block c (pad i src)"

fun feistel :: "aes128 \<Rightarrow> u8 \<Rightarrow> bytes \<times> bytes \<Rightarrow> bytes \<times> bytes" where
  "feistel c i (left, right) =
     (if i mod 2 = 1 then (left, map2 (XOR) right (round_mask c i left))
      else (map2 (XOR) left (round_mask c i right), right))"

lemma length_pad [simp]: "length src \<le> 16 \<Longrightarrow> length (pad i src) = 16"
  by (simp add: pad_def Let_def)

lemma length_round_mask [simp]: "block_cipher c \<Longrightarrow> length src \<le> 16 \<Longrightarrow> length (round_mask c i src) = 16"
  by (simp add: round_mask_def block_cipher_def)

lemma xor_twice: "length xs \<le> length m \<Longrightarrow> map2 (XOR) (map2 (XOR) xs m) m = (xs :: bytes)"
  by (rule nth_equalityI) (auto simp: xor.assoc)

lemma feistel_lengths:
  "block_cipher c \<Longrightarrow> length l \<le> 16 \<Longrightarrow> length r \<le> 16 \<Longrightarrow> feistel c i (l, r) = (l', r') \<Longrightarrow>
     length l' = length l \<and> length r' = length r"
  by (auto split: if_splits)

lemma feistel_involution:
  "block_cipher c \<Longrightarrow> length l \<le> 16 \<Longrightarrow> length r \<le> 16 \<Longrightarrow> feistel c i (feistel c i (l, r)) = (l, r)"
  by (simp add: xor_twice)

lemma decrypt_pass_eq:
  assumes "block_cipher c" "length l \<le> 16" "length r \<le> 16" "feistel c i (l, r) = (l', r')"
  shows "decrypt_pass (length l) (length r) c (l @ r @ rest) i = Some (l' @ r' @ rest)"
proof -
  have block: "encrypt_block c ((src @ replicate (16 - length src) 0)
      [0 := (src @ replicate (16 - length src) 0) ! 0 XOR i]) = round_mask c i src" for src
    by (simp add: round_mask_def pad_def Let_def)
  show ?thesis
    using assms
    by (auto simp: decrypt_pass_def Let_def block xor_into_in split: if_splits)
qed

lemma fold_decrypt_pass:
  assumes "block_cipher c" "length l \<le> 16" "length r \<le> 16" "fold (feistel c) is (l, r) = (l', r')"
  shows "foldM (decrypt_pass (length l) (length r) c) (l @ r @ rest) is = Some (l' @ r' @ rest) \<and>
    length l' = length l \<and> length r' = length r"
  using assms
proof (induction "is" arbitrary: l r)
  case (Cons i "is")
  obtain l1 r1 where lr: "feistel c i (l, r) = (l1, r1)" by fastforce
  with Cons.prems have "length l1 = length l" "length r1 = length r"
    by (metis feistel_lengths)+
  with Cons.IH [of l1 r1] Cons.prems lr show ?case
    by (simp add: decrypt_pass_eq del: feistel.simps)
qed simp

lemma four_pass_inverse:
  assumes "block_cipher c" "length l \<le> 16" "length r \<le> 16"
  shows "fold (feistel c) [3, 2, 1, 0] (fold (feistel c) [0, 1, 2, 3] (l, r)) = (l, r)"
proof -
  have inv: "feistel c i (feistel c i p) = p" if "length (fst p) \<le> 16" "length (snd p) \<le> 16" for i p
    using feistel_involution [OF assms(1), of "fst p" "snd p"] that by simp
  have len: "length (fst (feistel c i p)) = length (fst p) \<and> length (snd (feistel c i p)) = length (snd p)"
    if "length (fst p) \<le> 16" "length (snd p) \<le> 16" for i p
    using feistel_lengths [OF assms(1), of "fst p" "snd p" i] that by (metis prod.collapse)
  show ?thesis using assms by (simp add: inv len del: feistel.simps)
qed

section \<open>Resolution\<close>

lemma position_eq_Some:
  "position P xs = Some i \<longleftrightarrow> i < length xs \<and> P (xs ! i) \<and> (\<forall>j < i. \<not> P (xs ! j))"
proof (induction xs arbitrary: i)
  case (Cons x xs)
  show ?case by (cases i) (auto simp: Cons.IH All_less_Suc2)
qed simp

lemma position_eq_None: "position P xs = None \<longleftrightarrow> (\<forall>x \<in> set xs. \<not> P x)"
  by (induction xs) auto

lemma find_server_idx_in_range: "find_server_idx rc sid = Some i \<Longrightarrow> i < length (rc_servers rc)"
  by (simp add: find_server_idx_def position_eq_Some)

lemma find_server_idx_distinct:
  "distinct (map srv_id (rc_servers rc)) \<Longrightarrow> i < length (rc_servers rc) \<Longrightarrow>
     find_server_idx rc (srv_id (rc_servers rc ! i)) = Some i"
  by (auto simp: find_server_idx_def position_eq_Some distinct_conv_nth)

fun is_four_pass :: "encryption \<Rightarrow> bool" where
  "is_four_pass (FourPass _ _) = True"
| "is_four_pass _ = False"

definition ciphers_ok :: "(bytes \<Rightarrow> aes128) \<Rightarrow> bool" where
  "ciphers_ok aes_new \<longleftrightarrow> (\<forall>key. length key = 16 \<longrightarrow> block_cipher (aes_new key))"

lemma decrypt_single_pass_eq:
  "block_cipher c \<Longrightarrow> length block = 16 \<Longrightarrow>
     decrypt_single_pass (block @ rest) c = Some (decrypt_block c block @ rest)"
  by (simp add: decrypt_single_pass_def block_cipher_def)

lemma decrypt_four_pass_eq:
  assumes "block_cipher c" "length l \<le> 16" "length r \<le> 16" "fold (feistel c) [3, 2, 1, 0] (l, r) = (l', r')"
  shows "decrypt_four_pass (l @ r @ rest) (length l) (length r) c = Some (l' @ r' @ rest)"
    and "length l' = length l" and "length r' = length r"
  using fold_decrypt_pass [OF assms(1-3), of "[3, 2, 1, 0]"] assms(4)
  by (simp_all add: decrypt_four_pass_def del: fold.simps foldM.simps)

lemma decrypt_pass_long_nonce:
  assumes "block_cipher c" "length l \<le> 16" "16 < n"
  shows "decrypt_pass (length l) n c (l @ rest) 3 = None"
proof -
  have "length (encrypt_block c (pad 3 l)) = 16" using length_round_mask [of c l 3] assms by (simp add: round_mask_def)
  with assms show ?thesis
    by (simp add: decrypt_pass_def Let_def xor_into_out pad_def)
qed

lemma decrypt_four_pass_long_nonce:
  "block_cipher c \<Longrightarrow> length l \<le> 16 \<Longrightarrow> 16 < n \<Longrightarrow> decrypt_four_pass (l @ rest) (length l) n c = None"
  by (simp add: decrypt_four_pass_def decrypt_pass_long_nonce)

text \<open>The buffer a well-formed config decrypts, split into server id, nonce and unused tail.\<close>

lemma resolve_server_idx_split:
  assumes ok: "lengths_ok (unat (rc_server_id_length rc)) (unat (rc_nonce_length rc))"
    and len: "length l = unat (rc_server_id_length rc)" "length r = unat (rc_nonce_length rc)"
  shows "resolve_server_idx (o0 # l @ r @ extra) rc =
    do { buf \<leftarrow> (case rc_encryption rc of
             Plaintext \<Rightarrow> ret (l @ r @ replicate (19 - (length l + length r)) 0)
           | SinglePass _ cipher \<Rightarrow> decrypt_single_pass (l @ r @ replicate (19 - (length l + length r)) 0) cipher
           | FourPass _ cipher \<Rightarrow>
               decrypt_four_pass (l @ r @ replicate (19 - (length l + length r)) 0) (length l) (length r) cipher);
         sid \<leftarrow> slice buf 0 (length l);
         ret (find_server_idx rc sid) }"
  using assms unfolding resolve_server_idx_def Let_def cid_lengths [OF ok]
  by (cases "rc_encryption rc") (simp_all add: lengths_ok_def)


lemma resolve_plaintext:
  assumes ok: "lengths_ok (unat (rc_server_id_length rc)) (unat (rc_nonce_length rc))"
    and len: "length l = unat (rc_server_id_length rc)" "length r = unat (rc_nonce_length rc)"
    and enc: "rc_encryption rc = Plaintext"
  shows "resolve_server_idx (o0 # l @ r @ extra) rc = Some (find_server_idx rc l)"
  using resolve_server_idx_split [OF ok len] enc by simp

lemma resolve_single_pass:
  assumes ok: "lengths_ok (unat (rc_server_id_length rc)) (unat (rc_nonce_length rc))"
    and enc: "rc_encryption rc = SinglePass key c" and c: "block_cipher c"
    and sum: "unat (rc_server_id_length rc) + unat (rc_nonce_length rc) = 16" and b: "length b = 16"
  shows "resolve_server_idx (o0 # b @ extra) rc =
    Some (find_server_idx rc (take (unat (rc_server_id_length rc)) (decrypt_block c b)))"
proof -
  define l r where "l = take (unat (rc_server_id_length rc)) b" and "r = drop (unat (rc_server_id_length rc)) b"
  then have lr: "b = l @ r" and len: "length l = unat (rc_server_id_length rc)" "length r = unat (rc_nonce_length rc)"
    using sum b by simp_all
  have "length (decrypt_block c b) = 16" using c b by (simp add: block_cipher_def)
  with decrypt_single_pass_eq [OF c b] resolve_server_idx_split [OF ok len, of o0 extra] enc sum len
  show ?thesis by (simp add: lr)
qed

lemma resolve_four_pass:
  assumes ok: "lengths_ok (unat (rc_server_id_length rc)) (unat (rc_nonce_length rc))"
    and len: "length l = unat (rc_server_id_length rc)" "length r = unat (rc_nonce_length rc)"
    and enc: "rc_encryption rc = FourPass key c" and c: "block_cipher c" and r: "length r \<le> 16"
    and lr: "fold (feistel c) [3, 2, 1, 0] (l, r) = (l', r')"
  shows "resolve_server_idx (o0 # l @ r @ extra) rc = Some (find_server_idx rc l')"
proof -
  have "length l \<le> 16" using ok len by (simp add: lengths_ok_def)
  from decrypt_four_pass_eq [OF c this r lr] resolve_server_idx_split [OF ok len, of o0 extra] enc
  show ?thesis by simp
qed

lemma resolve_four_pass_long_nonce:
  assumes ok: "lengths_ok (unat (rc_server_id_length rc)) (unat (rc_nonce_length rc))"
    and len: "length l = unat (rc_server_id_length rc)" "length r = unat (rc_nonce_length rc)"
    and enc: "rc_encryption rc = FourPass key c" and c: "block_cipher c" and r: "16 < length r"
  shows "resolve_server_idx (o0 # l @ r @ extra) rc = None"
proof -
  have "length l \<le> 16" using ok len by (simp add: lengths_ok_def)
  from decrypt_four_pass_long_nonce [OF c this r] resolve_server_idx_split [OF ok len, of o0 extra] enc
  show ?thesis by simp
qed

lemma split_cid:
  assumes "1 + (m + n) \<le> length dcid"
  obtains o0 l r extra where "dcid = o0 # l @ r @ extra" "length l = m" "length r = n"
proof
  show "dcid = hd dcid # take m (tl dcid) @ take n (drop m (tl dcid)) @ drop (m + n) (tl dcid)"
    using assms by (cases dcid) (simp_all, metis append_take_drop_id drop_drop add.commute)
  show "length (take m (tl dcid)) = m" "length (take n (drop m (tl dcid))) = n"
    using assms by simp_all
qed

lemma resolve_server_idx_None_iff:
  assumes wf: "route_wf aes_new rc" and ciphers: "ciphers_ok aes_new"
  shows "resolve_server_idx dcid rc = None \<longleftrightarrow>
    is_four_pass (rc_encryption rc) \<and> 16 < unat (rc_nonce_length rc) \<and> unat (cid_length rc) \<le> length dcid"
proof -
  let ?m = "unat (rc_server_id_length rc)" and ?n = "unat (rc_nonce_length rc)"
  have ok: "lengths_ok ?m ?n" and enc: "encryption_wf aes_new (?m + ?n) (rc_encryption rc)"
    using wf by (simp_all add: route_wf_def)
  show ?thesis
  proof (cases "1 + (?m + ?n) \<le> length dcid")
    case False
    then show ?thesis by (simp add: resolve_server_idx_def Let_def cid_lengths [OF ok])
  next
    case True
    then obtain o0 l r extra where d: "dcid = o0 # l @ r @ extra" and len: "length l = ?m" "length r = ?n"
      by (rule split_cid)
    show ?thesis
    proof (cases "rc_encryption rc")
      case Plaintext
      then show ?thesis by (simp add: d resolve_plaintext [OF ok len])
    next
      case (SinglePass key c)
      with enc ciphers len have "block_cipher c" "length (l @ r) = 16" by (auto simp: ciphers_ok_def)
      with resolve_single_pass [OF ok SinglePass, of "l @ r" o0 extra] len SinglePass show ?thesis
        by (simp add: d)
    next
      case (FourPass key c)
      with enc ciphers have c: "block_cipher c" by (auto simp: ciphers_ok_def)
      obtain l' r' where lr: "fold (feistel c) [3, 2, 1, 0] (l, r) = (l', r')" by fastforce
      show ?thesis
        using FourPass resolve_four_pass [OF ok len FourPass c _ lr, of o0 extra]
          resolve_four_pass_long_nonce [OF ok len FourPass c, of o0 extra]
        by (cases "16 < length r") (simp_all add: d len cid_lengths [OF ok])
    qed
  qed
qed

text \<open>
  C38. Decrypting a connection id panics in exactly one case: the config is in four-pass mode with a
  nonce of 17 or 18 bytes, which \<open>validate\<close> accepts although the round block has 16 bytes, and the
  packet carries a connection id of the configured length. In every other case a well-formed config
  resolves to a server index or to none.
\<close>

theorem resolve_server_idx_panics_iff:
  assumes wf: "route_wf aes_new rc" and ciphers: "ciphers_ok aes_new"
  shows "resolve_server_idx dcid rc = None \<longleftrightarrow>
    is_four_pass (rc_encryption rc) \<and> 16 < unat (rc_nonce_length rc) \<and> unat (cid_length rc) \<le> length dcid"
  by (rule resolve_server_idx_None_iff [OF wf ciphers])

lemma resolve_server_idx_in_range:
  "resolve_server_idx dcid rc = Some (Some i) \<Longrightarrow> i < length (rc_servers rc)"
  by (auto simp: resolve_server_idx_def Let_def split: if_splits dest: find_server_idx_in_range)

lemma resolve_server_idx_long:
  "resolve_server_idx dcid rc = Some (Some i) \<Longrightarrow> unat (cid_payload_length rc) < length dcid"
  by (auto simp: resolve_server_idx_def Let_def split: if_splits)

definition long_nonce_raw :: raw_config where
  "long_nonce_raw = sample_raw\<lparr>raw_nonce_length := 17\<rparr>"

definition long_nonce_rc :: route_config where
  "long_nonce_rc = sample_rc\<lparr>rc_nonce_length := 17, rc_encryption := FourPass sample_key (xor_cipher sample_key)\<rparr>"

lemma validate_long_nonce: "validate xor_cipher long_nonce_raw = Some (Inr long_nonce_rc)"
  by (simp add: validate_def long_nonce_raw_def sample_raw_def long_nonce_rc_def sample_rc_def parse_hex_key_def
      hex.dec_enc parse_server_sample) (simp add: sample_key_def)

lemma ciphers_ok_xor: "ciphers_ok xor_cipher"
  by (simp add: ciphers_ok_def xor_cipher_block_cipher)

theorem resolve_server_idx_panics_iff_witness:
  "validate xor_cipher long_nonce_raw = Some (Inr long_nonce_rc) \<and>
   resolve_server_idx (replicate 20 0) long_nonce_rc = None \<and>
   resolve_server_idx (replicate 19 0) long_nonce_rc \<noteq> None"
proof -
  have "route_wf xor_cipher long_nonce_rc" by (rule validate_wf [OF validate_long_nonce])
  note panics = resolve_server_idx_panics_iff [OF this ciphers_ok_xor]
  show ?thesis
    by (simp add: validate_long_nonce panics)
      (simp add: long_nonce_rc_def sample_rc_def cid_length_def cid_payload_length_def)
qed

end
