(* ===== verification/Encoder.thy ===== *)
theory Encoder
  imports Cid
begin

text \<open>
  \<open>contrib/quic-lb-core/src/lib.rs\<close>: the server-side encoder that mints the connection ids the load
  balancer decodes. The bytes drawn from the random number generator are arguments: \<open>nonce\<close> is what
  \<open>fill_bytes\<close> wrote, \<open>low\<close> the random first-octet byte. The main result is that the decoder of the
  load balancer inverts this encoder in all three modes.
\<close>

section \<open>Operations\<close>

record quic_lb_encoder =
  enc_config_id :: u8
  enc_server_id :: bytes
  enc_nonce_length :: u8
  enc_encryption :: encryption
  enc_encode_cid_length :: bool

definition single_pass :: "(bytes \<Rightarrow> aes128) \<Rightarrow> bytes \<Rightarrow> encryption" where
  "single_pass aes_new key = SinglePass key (aes_new key)"

definition four_pass :: "(bytes \<Rightarrow> aes128) \<Rightarrow> bytes \<Rightarrow> encryption" where
  "four_pass aes_new key = FourPass key (aes_new key)"

definition encoder_new :: "u8 \<Rightarrow> bytes \<Rightarrow> u8 \<Rightarrow> encryption \<Rightarrow> bool \<Rightarrow> quic_lb_encoder run" where
  "encoder_new config_id server_id nonce_length encryption encode_cid_length =
     (if \<not> config_id \<le> 6 then panic
      else if \<not> (server_id \<noteq> [] \<and> length server_id \<le> 15) then panic
      else if \<not> (4 \<le> nonce_length \<and> nonce_length \<le> 18) then panic
      else if \<not> length server_id + unat nonce_length \<le> 19 then panic
      else ret \<lparr>enc_config_id = config_id, enc_server_id = server_id, enc_nonce_length = nonce_length,
                enc_encryption = encryption, enc_encode_cid_length = encode_cid_length\<rparr>)"

definition encoder_cid_length :: "quic_lb_encoder \<Rightarrow> nat" where
  "encoder_cid_length e = 1 + length (enc_server_id e) + unat (enc_nonce_length e)"

definition encrypt_single_pass :: "bytes \<Rightarrow> aes128 \<Rightarrow> bytes" where
  "encrypt_single_pass payload cipher = encrypt_block cipher payload"

definition encrypt_pass :: "nat \<Rightarrow> nat \<Rightarrow> aes128 \<Rightarrow> bytes \<Rightarrow> u8 \<Rightarrow> bytes run" where
  "encrypt_pass sid_len nonce_len cipher buf i =
     (let block = replicate 16 0 in
      if i mod 2 = 0 then do {
        right \<leftarrow> slice buf sid_len (sid_len + nonce_len);
        block \<leftarrow> copy_into block 0 nonce_len right;
        b0 \<leftarrow> idx block 0;
        block \<leftarrow> set_idx block 0 (b0 XOR i);
        let ga = encrypt_block cipher block;
        xor_into buf 0 ga sid_len
      } else do {
        left \<leftarrow> slice buf 0 sid_len;
        block \<leftarrow> copy_into block 0 sid_len left;
        b0 \<leftarrow> idx block 0;
        block \<leftarrow> set_idx block 0 (b0 XOR i);
        let ga = encrypt_block cipher block;
        xor_into buf sid_len ga nonce_len
      })"

definition encrypt_four_pass :: "bytes \<Rightarrow> nat \<Rightarrow> nat \<Rightarrow> aes128 \<Rightarrow> bytes run" where
  "encrypt_four_pass buf sid_len nonce_len cipher =
     foldM (encrypt_pass sid_len nonce_len cipher) buf [0, 1, 2, 3]"

definition encoder_first_octet :: "quic_lb_encoder \<Rightarrow> u8 \<Rightarrow> u8" where
  "encoder_first_octet e low =
     (let upper = push_bit 5 (enc_config_id e) in
      if enc_encode_cid_length e then
        (let len8 = of_nat (encoder_cid_length e) :: u8;
             len_bits = (if len8 = 0 then 0 else len8 - 1) AND 0x1f
         in upper OR len_bits)
      else upper OR (low AND 0x1f))"

definition encode_into :: "quic_lb_encoder \<Rightarrow> bytes \<Rightarrow> u8 \<Rightarrow> bytes \<Rightarrow> (nat \<times> bytes) run" where
  "encode_into e nonce low buf =
     (let cid_len = encoder_cid_length e in
      if length buf < cid_len then panic
      else do {
        let sid_len = length (enc_server_id e);
        let nonce_len = unat (enc_nonce_length e);
        let payload_len = sid_len + nonce_len;
        payload \<leftarrow> copy_into (replicate 19 0) 0 sid_len (enc_server_id e);
        payload \<leftarrow> copy_into payload sid_len payload_len nonce;
        payload \<leftarrow> (case enc_encryption e of
            Plaintext \<Rightarrow> ret payload
          | SinglePass _ cipher \<Rightarrow> do {
              p \<leftarrow> slice payload 0 payload_len;
              block \<leftarrow> copy_into (replicate 16 0) 0 payload_len p;
              copy_into payload 0 16 (encrypt_single_pass block cipher)
            }
          | FourPass _ cipher \<Rightarrow> do {
              p \<leftarrow> slice payload 0 payload_len;
              p' \<leftarrow> encrypt_four_pass p sid_len nonce_len cipher;
              copy_into payload 0 payload_len p'
            });
        buf \<leftarrow> set_idx buf 0 (encoder_first_octet e low);
        p \<leftarrow> slice payload 0 payload_len;
        buf \<leftarrow> copy_into buf 1 cid_len p;
        ret (cid_len, buf)
      })"

definition encode_to_vec :: "quic_lb_encoder \<Rightarrow> bytes \<Rightarrow> u8 \<Rightarrow> bytes run" where
  "encode_to_vec e nonce low = do {
     (n, buf) \<leftarrow> encode_into e nonce low (replicate (encoder_cid_length e) 0);
     ret buf
   }"

section \<open>The decoder inverts the encoder\<close>

lemma encrypt_pass_eq: "encrypt_pass s n c buf i = decrypt_pass s n c buf i"
  unfolding encrypt_pass_def decrypt_pass_def Let_def by (simp add: even_iff_mod_2_eq_zero [symmetric] odd_iff_mod_2_eq_one [symmetric])

lemma encrypt_four_pass_eq:
  assumes "block_cipher c" "length l \<le> 16" "length r \<le> 16" "fold (feistel c) [0, 1, 2, 3] (l, r) = (l', r')"
  shows "encrypt_four_pass (l @ r) (length l) (length r) c = Some (l' @ r')"
    and "length l' = length l" and "length r' = length r"
  using fold_decrypt_pass [OF assms(1-3), of "[0, 1, 2, 3]" l' r' "[]"] assms(4)
  by (simp_all add: encrypt_four_pass_def encrypt_pass_eq [abs_def] del: fold.simps foldM.simps)

lemma config_id_of_first_octet:
  assumes "enc_config_id e \<le> 6"
  shows "drop_bit 5 (encoder_first_octet e low) = enc_config_id e"
proof -
  have lt: "unat (enc_config_id e) < 2 ^ 3" using assms by (simp add: word_le_nat_alt)
  have hi: "\<not> bit (enc_config_id e) n" if "3 \<le> n" for n
    using lt that by (metis bit_take_bit_iff linorder_not_less take_bit_nat_eq_self_iff unsigned_take_bit_eq word_unat_eq_iff)
  have "drop_bit 5 (push_bit 5 (enc_config_id e) OR (y AND 0x1f)) = enc_config_id e" for y :: u8
  proof (rule bit_word_eqI)
    fix n assume "n < LENGTH(8)" 
    moreover have "(0x1f :: u8) = mask 5" by (simp add: mask_eq_exp_minus_1)
    ultimately show "bit (drop_bit 5 (push_bit 5 (enc_config_id e) OR (y AND 0x1f))) n = bit (enc_config_id e) n"
      using hi by (auto simp: bit_simps dest: not_le_imp_less)
  qed
  then show ?thesis by (simp add: encoder_first_octet_def Let_def)
qed


definition encoder_ok :: "quic_lb_encoder \<Rightarrow> bytes \<Rightarrow> bool" where
  "encoder_ok e nonce \<longleftrightarrow>
     lengths_ok (length (enc_server_id e)) (unat (enc_nonce_length e)) \<and> length nonce = unat (enc_nonce_length e)"

lemma take_1_update [simp]: "xs \<noteq> [] \<Longrightarrow> take (Suc 0) (xs[0 := v]) = [v]"
  by (cases xs) simp_all

lemma encode_plaintext:
  "encoder_ok e nonce \<Longrightarrow> enc_encryption e = Plaintext \<Longrightarrow>
     encode_to_vec e nonce low = Some (encoder_first_octet e low # enc_server_id e @ nonce)"
  by (simp add: encode_to_vec_def encode_into_def Let_def encoder_cid_length_def encoder_ok_def lengths_ok_def)

lemma encode_single_pass:
  assumes "encoder_ok e nonce" "enc_encryption e = SinglePass key c" "block_cipher c"
    "length (enc_server_id e) + length nonce = 16"
  shows "encode_to_vec e nonce low =
    Some (encoder_first_octet e low # encrypt_block c (enc_server_id e @ nonce))"
proof -
  have "length (encrypt_block c (enc_server_id e @ nonce)) = 16" using assms by (simp add: block_cipher_def)
  with assms show ?thesis
    by (simp add: encode_to_vec_def encode_into_def Let_def encoder_cid_length_def encoder_ok_def lengths_ok_def
        encrypt_single_pass_def)
qed

lemma encode_four_pass:
  assumes "encoder_ok e nonce" "enc_encryption e = FourPass key c" "block_cipher c" "length nonce \<le> 16"
    "fold (feistel c) [0, 1, 2, 3] (enc_server_id e, nonce) = (l', r')"
  shows "encode_to_vec e nonce low = Some (encoder_first_octet e low # l' @ r')"
    and "length l' = length (enc_server_id e)" and "length r' = length nonce"
proof -
  have le: "length (enc_server_id e) \<le> 16" using assms(1) by (simp add: encoder_ok_def lengths_ok_def)
  note four = encrypt_four_pass_eq [OF assms(3) le assms(4,5)]
  then show "encode_to_vec e nonce low = Some (encoder_first_octet e low # l' @ r')"
    using assms(1,2,4)
    by (simp add: encode_to_vec_def encode_into_def Let_def encoder_cid_length_def encoder_ok_def lengths_ok_def)
  show "length l' = length (enc_server_id e)" "length r' = length nonce" using four by simp_all
qed

definition encoder_matches :: "quic_lb_encoder \<Rightarrow> route_config \<Rightarrow> bool" where
  "encoder_matches e rc \<longleftrightarrow>
     enc_config_id e = rc_config_id rc \<and> length (enc_server_id e) = unat (rc_server_id_length rc) \<and>
     enc_nonce_length e = rc_nonce_length rc \<and> enc_encryption e = rc_encryption rc"

lemma resolve_encoded_cid:
  assumes wf: "route_wf aes_new rc" and ciphers: "ciphers_ok aes_new"
    and match: "encoder_matches e rc" and nonce: "length nonce = unat (rc_nonce_length rc)"
    and fits: "\<not> (is_four_pass (rc_encryption rc) \<and> 16 < unat (rc_nonce_length rc))"
  shows "\<exists>cid. encode_to_vec e nonce low = Some cid \<and> length cid = unat (cid_length rc) \<and>
    drop_bit 5 (hd cid) = rc_config_id rc \<and>
    resolve_server_idx (cid @ extra) rc = Some (find_server_idx rc (enc_server_id e))"
proof -
  let ?l = "enc_server_id e" and ?o = "encoder_first_octet e low"
  have ok: "lengths_ok (unat (rc_server_id_length rc)) (unat (rc_nonce_length rc))"
    and enc: "encryption_wf aes_new (length ?l + length nonce) (rc_encryption rc)"
    and id: "rc_config_id rc \<le> 6"
    using wf match nonce by (simp_all add: route_wf_def encoder_matches_def)
  have eok: "encoder_ok e nonce" using ok match nonce by (simp add: encoder_ok_def encoder_matches_def)
  have len: "length ?l = unat (rc_server_id_length rc)" using match by (simp add: encoder_matches_def)
  have first: "drop_bit 5 ?o = rc_config_id rc"
    using config_id_of_first_octet [of e] match id by (simp add: encoder_matches_def)
  have enc_eq: "enc_encryption e = rc_encryption rc" using match by (simp add: encoder_matches_def)
  have le: "length ?l \<le> 15" "length ?l + length nonce \<le> 19" using ok len nonce by (auto simp: lengths_ok_def)
  show ?thesis
  proof (cases "rc_encryption rc")
    case Plaintext
    with encode_plaintext [OF eok] enc_eq first show ?thesis
      by (simp add: resolve_plaintext [OF ok len nonce] cid_lengths [OF ok] len nonce)
  next
    case (SinglePass key c)
    with enc ciphers have c: "block_cipher c" and sum: "length ?l + length nonce = 16"
      by (auto simp: ciphers_ok_def)
    then have b: "length (encrypt_block c (?l @ nonce)) = 16"
        "decrypt_block c (encrypt_block c (?l @ nonce)) = ?l @ nonce"
      by (simp_all add: block_cipher_def)
    show ?thesis
      using encode_single_pass [OF eok _ c sum] resolve_single_pass [OF ok SinglePass c _ b(1)] SinglePass enc_eq
        first b sum len nonce
      by (simp add: cid_lengths [OF ok])
  next
    case (FourPass key c)
    with enc ciphers fits nonce le have c: "block_cipher c" and le16: "length ?l \<le> 16" "length nonce \<le> 16"
      by (auto simp: ciphers_ok_def)
    obtain l r where lr: "fold (feistel c) [0, 1, 2, 3] (?l, nonce) = (l, r)" by fastforce
    have inv: "fold (feistel c) [3, 2, 1, 0] (l, r) = (?l, nonce)"
      using four_pass_inverse [OF c le16] unfolding lr .
    note e = encode_four_pass [OF eok _ c le16(2) lr]
    show ?thesis
      using e resolve_four_pass [OF ok _ _ FourPass c _ inv, of ?o extra] FourPass enc_eq first le16 len nonce
      by (simp add: cid_lengths [OF ok])
  qed
qed

text \<open>
  C6. The load balancer decodes what the server-side encoder mints. For a well-formed route entry and
  an encoder configured like it, whatever nonce and filler bits are drawn, encoding succeeds, the id
  has the configured length, its top three bits are the config id, and decrypting it (also with
  further bytes behind it) looks up exactly the encoder's server id. Four-pass configs with a nonce
  longer than the cipher block are excluded.
\<close>

theorem resolve_encoded:
  assumes wf: "route_wf aes_new rc" and ciphers: "ciphers_ok aes_new"
    and match: "encoder_matches e rc" and nonce: "length nonce = unat (rc_nonce_length rc)"
    and fits: "\<not> (is_four_pass (rc_encryption rc) \<and> 16 < unat (rc_nonce_length rc))"
  shows "\<exists>cid. encode_to_vec e nonce low = Some cid \<and> length cid = unat (cid_length rc) \<and>
    drop_bit 5 (hd cid) = rc_config_id rc \<and>
    resolve_server_idx (cid @ extra) rc = Some (find_server_idx rc (enc_server_id e))"
  by (rule resolve_encoded_cid [OF assms])

definition sample_four_pass_rc :: route_config where
  "sample_four_pass_rc =
     sample_rc\<lparr>rc_nonce_length := 6, rc_encryption := FourPass sample_key (xor_cipher sample_key)\<rparr>"

definition sample_encoder :: quic_lb_encoder where
  "sample_encoder = \<lparr>enc_config_id = 2, enc_server_id = [10, 11], enc_nonce_length = 6,
     enc_encryption = FourPass sample_key (xor_cipher sample_key), enc_encode_cid_length = True\<rparr>"

lemma sample_four_pass_wf: "route_wf xor_cipher sample_four_pass_rc"
  by (simp add: route_wf_def sample_four_pass_rc_def sample_rc_def lengths_ok_def sample_key_def
      server_wf_def sample_server_def sample_mac_def mac_wf_def)

theorem resolve_encoded_witness:
  "encoder_new 2 [10, 11] 6 (four_pass xor_cipher sample_key) True = Some sample_encoder \<and>
   (\<exists>cid. encode_to_vec sample_encoder [1, 2, 3, 4, 5, 6] 0 = Some cid \<and> length cid = 9 \<and>
      drop_bit 5 (hd cid) = 2 \<and> resolve_server_idx (cid @ [7]) sample_four_pass_rc = Some (Some 0))"
proof -
  have "encoder_matches sample_encoder sample_four_pass_rc"
    by (simp add: encoder_matches_def sample_encoder_def sample_four_pass_rc_def sample_rc_def)
  note res = resolve_encoded [OF sample_four_pass_wf ciphers_ok_xor this, of "[1, 2, 3, 4, 5, 6]" 0 "[7]"]
  have "find_server_idx sample_four_pass_rc (enc_server_id sample_encoder) = Some 0"
    "unat (cid_length sample_four_pass_rc) = 9" "rc_config_id sample_four_pass_rc = 2"
    "unat (rc_nonce_length sample_four_pass_rc) = 6"
    by (simp_all add: find_server_idx_def sample_encoder_def sample_four_pass_rc_def sample_rc_def
        sample_server_def cid_length_def cid_payload_length_def)
  with res show ?thesis
    by (simp add: encoder_new_def four_pass_def sample_encoder_def)
qed

end
