(* ===== verification/Ring.thy ===== *)
theory Ring
  imports Prelude
begin

text \<open>
  The producer/consumer rings of \<open>pesigitg-daemon/src/xdp_adopt.rs\<close>. A ring is an array of a power-of-two
  size shared with the kernel, with free-running 32-bit indices that wrap; a pointer access outside the
  array is the failing value of \<open>run\<close>. The rings refine bounded FIFO queues.
\<close>

section \<open>Operations\<close>

record 'a ring =
  rg_producer :: u32
  rg_consumer :: u32
  rg_descs :: "'a list"
  rg_size :: u32
  rg_mask :: u32

definition ring_index :: "'a ring \<Rightarrow> u32 \<Rightarrow> nat \<Rightarrow> nat" where
  "ring_index r base i = unat ((base + of_nat i) AND rg_mask r)"

definition produce :: "'a ring \<Rightarrow> 'a list \<Rightarrow> (nat \<times> 'a ring) run" where
  "produce r entries =
     (if entries = [] then ret (0, r)
      else do {
        let prod = rg_producer r;
        let cons = rg_consumer r;
        let free = rg_size r - (prod - cons);
        let n = min (unat free) (length entries);
        descs \<leftarrow> foldM (\<lambda>descs (i, entry). set_idx descs (ring_index r prod i) entry)
                   (rg_descs r) (enumerate 0 (take n entries));
        ret (n, r\<lparr>rg_descs := descs, rg_producer := prod + of_nat n\<rparr>)
      })"

definition consume :: "'a ring \<Rightarrow> 'a list \<Rightarrow> (nat \<times> 'a ring \<times> 'a list) run" where
  "consume r out =
     (if out = [] then ret (0, r, out)
      else do {
        let cons = rg_consumer r;
        let prod = rg_producer r;
        let available = unat (prod - cons);
        let n = min available (length out);
        out \<leftarrow> foldM (\<lambda>out i. do { v \<leftarrow> idx (rg_descs r) (ring_index r cons i); set_idx out i v }) out [0..<n];
        ret (n, r\<lparr>rg_consumer := cons + of_nat n\<rparr>, out)
      })"

section \<open>The queue in a ring\<close>

definition ring_ok :: "'a ring \<Rightarrow> bool" where
  "ring_ok r \<longleftrightarrow>
     (\<exists>k < 32. rg_size r = 2 ^ k \<and> rg_mask r = mask k \<and> length (rg_descs r) = 2 ^ k) \<and>
     unat (rg_producer r - rg_consumer r) \<le> length (rg_descs r)"

definition queued :: "'a ring \<Rightarrow> 'a list" where
  "queued r = map (\<lambda>i. rg_descs r ! ring_index r (rg_consumer r) i) [0..<unat (rg_producer r - rg_consumer r)]"

definition room :: "'a ring \<Rightarrow> nat" where
  "room r = length (rg_descs r) - length (queued r)"

lemma unat_mask_index: "k < 32 \<Longrightarrow> unat (((w :: u32) + of_nat i) AND mask k) = (unat w + i) mod 2 ^ k"
proof -
  assume "k < 32"
  then have dvd: "(2 :: nat) ^ k dvd 2 ^ 32" by (intro le_imp_power_dvd) simp
  have "unat (w + of_nat i) = (unat w + i) mod 2 ^ 32"
    by (simp add: unat_word_ariths unsigned_of_nat take_bit_eq_mod mod_simps)
  moreover have "unat ((w + of_nat i) AND mask k) = unat (w + of_nat i) mod 2 ^ k"
    by (simp only: take_bit_eq_mask [symmetric] unsigned_take_bit_eq) (simp only: take_bit_eq_mod)
  ultimately show ?thesis using dvd by (simp add: mod_mod_cancel)
qed

lemma ring_index_eq: "ring_ok r \<Longrightarrow> ring_index r base i = (unat base + i) mod length (rg_descs r)"
  by (auto simp: ring_ok_def ring_index_def unat_mask_index)

lemma ring_index_less: "ring_ok r \<Longrightarrow> ring_index r base i < length (rg_descs r)"
  by (auto simp: ring_index_eq) (auto simp: ring_ok_def)

lemma mod_cancel_window:
  fixes a i j N :: nat
  assumes "(a + i) mod N = (a + j) mod N" "i < N" "j < N"
  shows "i = j"
proof -
  have "int N dvd int i - int j"
    using assms(1) by (metis add_diff_cancel_left mod_eq_dvd_iff of_nat_add of_nat_mod)
  then have "int N dvd \<bar>int i - int j\<bar>" by simp
  moreover have "\<bar>int i - int j\<bar> < int N" using assms(2,3) by linarith
  ultimately have "\<bar>int i - int j\<bar> = 0" using zdvd_not_zless [of "\<bar>int i - int j\<bar>" "int N"] by linarith
  then show ?thesis by simp
qed

lemma ring_index_inj:
  "ring_ok r \<Longrightarrow> ring_index r base i = ring_index r base j \<Longrightarrow> i < length (rg_descs r) \<Longrightarrow> j < length (rg_descs r) \<Longrightarrow> i = j"
  by (auto simp: ring_index_eq intro: mod_cancel_window)

lemma ring_index_shift: "ring_index r (base + of_nat m) i = ring_index r base (m + i)"
  by (simp add: ring_index_def add.assoc)

text \<open>A write loop through an injective index function.\<close>

lemma foldM_writes:
  assumes "\<forall>i < length es. f i < length d" "inj_on f {..<length es}"
  shows "\<exists>d'. foldM (\<lambda>d (i, e). set_idx d (f i) e) d (enumerate 0 es) = Some d' \<and> length d' = length d \<and>
    (\<forall>i < length es. d' ! f i = es ! i) \<and> (\<forall>j. j \<notin> f ` {..<length es} \<longrightarrow> d' ! j = d ! j)"
  using assms
proof (induction es rule: rev_induct)
  case (snoc e es)
  have inj: "inj_on f {..<length es}" "f (length es) \<notin> f ` {..<length es}"
    using snoc.prems(2) by (simp_all add: lessThan_Suc)
  from snoc inj obtain d' where d': "foldM (\<lambda>d (i, e). set_idx d (f i) e) d (enumerate 0 es) = Some d'"
      "length d' = length d" "\<forall>i < length es. d' ! f i = es ! i" "\<forall>j. j \<notin> f ` {..<length es} \<longrightarrow> d' ! j = d ! j"
    by auto
  have "foldM (\<lambda>d (i, e). set_idx d (f i) e) d (enumerate 0 (es @ [e])) = Some (d'[f (length es) := e])"
    using d'(1,2) snoc.prems by (simp add: enumerate_append_eq foldM_append)
  moreover have "d'[f (length es) := e] ! f i = (es @ [e]) ! i" if "i < length (es @ [e])" for i
    using that d' inj snoc.prems by (cases "i = length es") (auto simp: nth_append nth_list_update image_iff)
  moreover have "d'[f (length es) := e] ! j = d ! j" if "j \<notin> f ` {..<length (es @ [e])}" for j
  proof -
    have "j \<noteq> f (length es)" "j \<notin> f ` {..<length es}" using that by auto
    then show ?thesis using d'(4) by simp
  qed
  ultimately show ?case using d'(2) by auto
qed simp

text \<open>A read loop into the front of a buffer.\<close>

lemma foldM_reads:
  assumes "\<forall>i < n. f i < length d" "n \<le> length out"
  shows "foldM (\<lambda>out i. do { v \<leftarrow> idx d (f i); set_idx out i v }) out [0..<n] =
    Some (map (\<lambda>i. d ! f i) [0..<n] @ drop n out)"
  using assms
proof (induction n)
  case (Suc n)
  then have "foldM (\<lambda>out i. do { v \<leftarrow> idx d (f i); set_idx out i v }) out [0..<n] =
      Some (map (\<lambda>i. d ! f i) [0..<n] @ drop n out)" by simp
  with Suc.prems show ?case
    by (simp add: foldM_append list_update_append Cons_nth_drop_Suc [symmetric])
qed simp

lemma length_queued [simp]: "length (queued r) = unat (rg_producer r - rg_consumer r)"
  by (simp add: queued_def)

lemma free_slots:
  assumes "ring_ok r"
  shows "unat (rg_size r - (rg_producer r - rg_consumer r)) = room r"
proof -
  from assms obtain k where k: "k < 32" "rg_size r = 2 ^ k" "length (rg_descs r) = 2 ^ k"
      "unat (rg_producer r - rg_consumer r) \<le> 2 ^ k"
    by (auto simp: ring_ok_def)
  have size: "unat (2 ^ k :: u32) = 2 ^ k" using k(1) by (simp add: unsigned_of_nat [of "2 ^ k", simplified] take_bit_nat_eq_self_iff)
  have "rg_producer r - rg_consumer r \<le> rg_size r" using k size by (simp add: word_le_nat_alt)
  then have "unat (rg_size r - (rg_producer r - rg_consumer r)) = unat (rg_size r) - unat (rg_producer r - rg_consumer r)"
    by (rule unat_sub)
  with k size show ?thesis by (simp add: room_def)
qed

lemma unat_producer_advance:
  assumes "ring_ok r" "n \<le> room r"
  shows "unat (rg_producer r + of_nat n - rg_consumer r) = unat (rg_producer r - rg_consumer r) + n"
proof -
  from assms obtain k where k: "k < 32" "length (rg_descs r) = 2 ^ k" "unat (rg_producer r - rg_consumer r) + n \<le> 2 ^ k"
    by (auto simp: ring_ok_def room_def)
  have "(2 :: nat) ^ k \<le> 2 ^ 31" using k(1) by (intro power_increasing) simp_all
  with k(3) have "unat (rg_producer r - rg_consumer r) + n < 2 ^ 32" by simp
  then have "unat (of_nat (unat (rg_producer r - rg_consumer r) + n) :: u32) = unat (rg_producer r - rg_consumer r) + n"
    by (rule unat_of_nat_u32)
  moreover have "of_nat (unat (rg_producer r - rg_consumer r) + n) = rg_producer r + of_nat n - rg_consumer r" by simp
  ultimately show ?thesis by metis
qed

lemma produce_eq:
  assumes "ring_ok r"
  shows "\<exists>r'. produce r es = Some (min (room r) (length es), r') \<and> ring_ok r' \<and>
    queued r' = queued r @ take (min (room r) (length es)) es \<and> length (rg_descs r') = length (rg_descs r)"
proof (cases "es = []")
  case False
  let ?n = "min (room r) (length es)" and ?N = "length (rg_descs r)" and ?m = "unat (rg_producer r - rg_consumer r)"
  have bound: "?m + ?n \<le> ?N" using assms by (auto simp: room_def ring_ok_def)
  have prod: "rg_producer r = rg_consumer r + of_nat ?m" by simp
  have "\<forall>i < length (take ?n es). ring_index r (rg_producer r) i < ?N"
    by (simp add: ring_index_less [OF assms])
  moreover have "inj_on (ring_index r (rg_producer r)) {..<length (take ?n es)}"
    using ring_index_inj [OF assms] bound by (auto simp: inj_on_def)
  ultimately obtain d where d: "foldM (\<lambda>d (i, e). set_idx d (ring_index r (rg_producer r) i) e) (rg_descs r) (enumerate 0 (take ?n es)) = Some d"
      "length d = ?N" "\<forall>i < length (take ?n es). d ! ring_index r (rg_producer r) i = take ?n es ! i"
      "\<forall>j. j \<notin> ring_index r (rg_producer r) ` {..<length (take ?n es)} \<longrightarrow> d ! j = rg_descs r ! j"
    using foldM_writes [of "take ?n es" "ring_index r (rg_producer r)" "rg_descs r"] by auto
  let ?r = "r\<lparr>rg_descs := d, rg_producer := rg_producer r + of_nat ?n\<rparr>"
  have "produce r es = Some (?n, ?r)" using False d(1) by (simp add: produce_def Let_def free_slots [OF assms])
  moreover have len: "unat (rg_producer r + of_nat ?n - rg_consumer r) = ?m + ?n"
    using unat_producer_advance [OF assms] by simp
  moreover have "ring_ok ?r" using assms d(2) bound len by (auto simp: ring_ok_def)
  moreover have "queued ?r = queued r @ take ?n es"
  proof (rule nth_equalityI)
    show "length (queued ?r) = length (queued r @ take ?n es)" using len by simp
    fix i
    assume "i < length (queued ?r)"
    then have i: "i < ?m + ?n" using len by simp
    then have at: "queued ?r ! i = d ! ring_index r (rg_consumer r) i"
      using len by (simp add: queued_def ring_index_def)
    show "queued ?r ! i = (queued r @ take ?n es) ! i"
    proof (cases "i < ?m")
      case True
      have apart: "ring_index r (rg_consumer r) i \<noteq> ring_index r (rg_producer r) j" if "j < ?n" for j
      proof
        assume "ring_index r (rg_consumer r) i = ring_index r (rg_producer r) j"
        then have "ring_index r (rg_consumer r) i = ring_index r (rg_consumer r) (?m + j)"
          by (subst (asm) prod) (simp only: ring_index_shift)
        from ring_index_inj [OF assms this] True that bound show False by simp
      qed
      have "ring_index r (rg_consumer r) i \<notin> ring_index r (rg_producer r) ` {..<length (take ?n es)}"
      proof
        assume "ring_index r (rg_consumer r) i \<in> ring_index r (rg_producer r) ` {..<length (take ?n es)}"
        then obtain j where "ring_index r (rg_consumer r) i = ring_index r (rg_producer r) j" "j < ?n"
          by (elim imageE) simp
        with apart show False by blast
      qed
      then have "d ! ring_index r (rg_consumer r) i = rg_descs r ! ring_index r (rg_consumer r) i" using d(4) by blast
      with at True show ?thesis by (simp add: nth_append queued_def)
    next
      case False
      then have "ring_index r (rg_consumer r) i = ring_index r (rg_producer r) (i - ?m)"
        by (subst prod) (simp only: ring_index_shift, simp)
      moreover have "i - ?m < length (take ?n es)" using False i by simp linarith
      ultimately have "queued ?r ! i = take ?n es ! (i - ?m)" using at d(3) by simp
      then show ?thesis using False by (simp add: nth_append)
    qed
  qed
  ultimately show ?thesis using d(2) by auto
qed (use assms in \<open>simp add: produce_def\<close>)

lemma consume_eq:
  assumes "ring_ok r"
  shows "\<exists>r'. consume r out = Some (min (length (queued r)) (length out), r', take (length out) (queued r) @ drop (length (queued r)) out) \<and>
    ring_ok r' \<and> queued r' = drop (length out) (queued r) \<and> length (rg_descs r') = length (rg_descs r)"
proof (cases "out = []")
  case False
  let ?m = "unat (rg_producer r - rg_consumer r)"
  let ?n = "min ?m (length out)"
  let ?r = "r\<lparr>rg_consumer := rg_consumer r + of_nat ?n\<rparr>"
  have "foldM (\<lambda>out i. do { v \<leftarrow> idx (rg_descs r) (ring_index r (rg_consumer r) i); set_idx out i v }) out [0..<?n] =
      Some (map (\<lambda>i. rg_descs r ! ring_index r (rg_consumer r) i) [0..<?n] @ drop ?n out)"
    by (rule foldM_reads) (simp_all add: ring_index_less [OF assms])
  moreover have "map (\<lambda>i. rg_descs r ! ring_index r (rg_consumer r) i) [0..<?n] = take (length out) (queued r)"
    by (auto simp: queued_def intro: nth_equalityI)
  moreover have "drop ?n out = drop ?m out" by (simp add: min_def)
  ultimately have "consume r out = Some (?n, ?r, take (length out) (queued r) @ drop ?m out)"
    using False by (simp add: consume_def Let_def)
  moreover have len: "unat (rg_producer r - (rg_consumer r + of_nat ?n)) = ?m - ?n"
  proof -
    have "?m < 2 ^ LENGTH(32)" by (rule unsigned_less)
    then have u: "unat (of_nat ?n :: u32) = ?n" by (intro unat_of_nat_u32) simp
    then have "(of_nat ?n :: u32) \<le> rg_producer r - rg_consumer r" by (simp add: word_le_nat_alt)
    then have "unat (rg_producer r - rg_consumer r - of_nat ?n) = ?m - unat (of_nat ?n :: u32)" by (rule unat_sub)
    then show ?thesis unfolding u by (simp add: diff_diff_eq)
  qed
  moreover have "ring_ok ?r" using assms len by (auto simp: ring_ok_def)
  moreover have "queued ?r = drop (length out) (queued r)"
  proof (rule nth_equalityI)
    show "length (queued ?r) = length (drop (length out) (queued r))" using len by auto
    fix i
    assume i: "i < length (queued ?r)"
    then have "?n + i < ?m" using len by simp
    moreover from this have n: "?n = length out" by (simp add: min_def split: if_splits)
    ultimately have "drop (length out) (queued r) ! i = rg_descs r ! ring_index r (rg_consumer r) (?n + i)"
      by (simp add: queued_def)
    moreover have "queued ?r ! i = rg_descs r ! ring_index r (rg_consumer r + of_nat ?n) i"
      using i by (simp add: queued_def ring_index_def)
    ultimately show "queued ?r ! i = drop (length out) (queued r) ! i" by (simp only: ring_index_shift)
  qed
  ultimately show ?thesis by (auto simp: min.commute)
qed (use assms in \<open>simp add: consume_def\<close>)

section \<open>Bounded queues\<close>

text \<open>
  The contract of a bounded queue between one producer and one consumer: a push accepts a prefix, as
  long as there is room, and a pop takes from the front, as long as there is something. Every value
  accepted comes out once and in order.
\<close>

datatype 'a queue_op = Push "'a list" | Pop "'a list"

text \<open>A sequence of calls of the two sides; it returns the values accepted and the values taken.\<close>

fun run_ops ::
  "('r \<Rightarrow> 'a list \<Rightarrow> (nat \<times> 'r) run) \<Rightarrow> ('r \<Rightarrow> 'a list \<Rightarrow> (nat \<times> 'r \<times> 'a list) run) \<Rightarrow> 'r \<Rightarrow> 'a queue_op list \<Rightarrow>
     ('r \<times> 'a list \<times> 'a list) run" where
  "run_ops push pop r [] = ret (r, [], [])"
| "run_ops push pop r (Push xs # ops) = do {
     (n, r) \<leftarrow> push r xs;
     (r, accepted, taken) \<leftarrow> run_ops push pop r ops;
     ret (r, take n xs @ accepted, taken)
   }"
| "run_ops push pop r (Pop buf # ops) = do {
     (n, r, buf) \<leftarrow> pop r buf;
     (r, accepted, taken) \<leftarrow> run_ops push pop r ops;
     ret (r, accepted, take n buf @ taken)
   }"

locale bounded_queue =
  fixes ok :: "'r \<Rightarrow> bool" and content :: "'r \<Rightarrow> 'a list" and capacity :: "'r \<Rightarrow> nat"
    and push :: "'r \<Rightarrow> 'a list \<Rightarrow> (nat \<times> 'r) run" and pop :: "'r \<Rightarrow> 'a list \<Rightarrow> (nat \<times> 'r \<times> 'a list) run"
  assumes bound: "ok r \<Longrightarrow> length (content r) \<le> capacity r"
    and push_law: "ok r \<Longrightarrow> \<exists>r'. push r xs = Some (min (capacity r - length (content r)) (length xs), r') \<and> ok r' \<and>
      content r' = content r @ take (capacity r - length (content r)) xs \<and> capacity r' = capacity r"
    and pop_law: "ok r \<Longrightarrow> \<exists>r'. pop r buf = Some (min (length (content r)) (length buf), r',
        take (length buf) (content r) @ drop (length (content r)) buf) \<and> ok r' \<and>
      content r' = drop (length buf) (content r) \<and> capacity r' = capacity r"
begin

lemma run_ops_fifo:
  "ok r \<Longrightarrow> \<exists>r' accepted taken. run_ops push pop r ops = Some (r', accepted, taken) \<and> ok r' \<and>
     content r @ accepted = taken @ content r' \<and> capacity r' = capacity r"
proof (induction ops arbitrary: r)
  case (Cons op ops)
  show ?case
  proof (cases op)
    case (Push xs)
    from push_law [OF Cons.prems, of xs] obtain r1 where r1:
      "push r xs = Some (min (capacity r - length (content r)) (length xs), r1)" "ok r1"
      "content r1 = content r @ take (capacity r - length (content r)) xs" "capacity r1 = capacity r" by blast
    have "take (min (capacity r - length (content r)) (length xs)) xs = take (capacity r - length (content r)) xs"
      by (simp add: min_def)
    with r1 Cons.IH [OF r1(2)] Push show ?thesis by auto
  next
    case (Pop buf)
    from pop_law [OF Cons.prems, of buf] obtain r1 where r1:
      "pop r buf = Some (min (length (content r)) (length buf), r1, take (length buf) (content r) @ drop (length (content r)) buf)"
      "ok r1" "content r1 = drop (length buf) (content r)" "capacity r1 = capacity r" by blast
    have "take (min (length (content r)) (length buf)) (take (length buf) (content r) @ drop (length (content r)) buf) =
        take (length buf) (content r)" by (simp add: min_def)
    moreover from Cons.IH [OF r1(2)] obtain r' accepted taken where rest:
      "run_ops push pop r1 ops = Some (r', accepted, taken)" "ok r'"
      "drop (length buf) (content r) @ accepted = taken @ content r'" "capacity r' = capacity r"
      using r1(3,4) by auto
    moreover have "content r @ accepted = take (length buf) (content r) @ taken @ content r'"
      unfolding rest(3) [symmetric] by simp
    ultimately show ?thesis using r1(1) Pop by simp
  qed
qed simp

lemma push_prefix:
  assumes "ok r"
  obtains n r' where "push r xs = Some (n, r')" "ok r'" "n \<le> length xs" "content r' = content r @ take n xs"
    "capacity r' = capacity r" "n < length xs \<Longrightarrow> length (content r') = capacity r"
proof -
  from push_law [OF assms, of xs] obtain r' where r':
    "push r xs = Some (min (capacity r - length (content r)) (length xs), r')" "ok r'"
    "content r' = content r @ take (capacity r - length (content r)) xs" "capacity r' = capacity r" by blast
  show thesis by (rule that [OF r'(1,2)]) (use r'(3,4) bound [OF assms] in \<open>simp_all add: min_def split: if_splits\<close>)
qed

end

interpretation rings: bounded_queue ring_ok queued "\<lambda>r. length (rg_descs r)" produce consume
proof
  fix r :: "'a ring" and xs buf :: "'a list"
  assume ok: "ring_ok r"
  show "length (queued r) \<le> length (rg_descs r)" using ok by (simp add: ring_ok_def)
  show "\<exists>r'. produce r xs = Some (min (length (rg_descs r) - length (queued r)) (length xs), r') \<and> ring_ok r' \<and>
      queued r' = queued r @ take (length (rg_descs r) - length (queued r)) xs \<and> length (rg_descs r') = length (rg_descs r)"
    using produce_eq [OF ok, of xs] by (auto simp: room_def min_def)
  show "\<exists>r'. consume r buf = Some (min (length (queued r)) (length buf), r', take (length buf) (queued r) @ drop (length (queued r)) buf) \<and>
      ring_ok r' \<and> queued r' = drop (length buf) (queued r) \<and> length (rg_descs r') = length (rg_descs r)"
    by (rule consume_eq [OF ok])
qed

text \<open>
  C20. The shared rings are bounded FIFO queues. Starting from any well-formed ring, wherever its 32-bit
  indices stand, a sequence of calls of the producer and of the consumer never accesses memory outside
  the descriptor array; the values that were queued, followed by the values accepted, are exactly the
  values taken, in order, followed by the values still queued, which never exceed the size of the ring.
\<close>

theorem ring_fifo:
  assumes "ring_ok r"
  shows "\<exists>r' accepted taken. run_ops produce consume r ops = Some (r', accepted, taken) \<and> ring_ok r' \<and>
    queued r @ accepted = taken @ queued r' \<and> length (queued r') \<le> length (rg_descs r)"
  using rings.run_ops_fifo [OF assms, of ops] rings.bound by metis

text \<open>A ring of four slots whose indices are about to wrap.\<close>

definition wrapping_ring :: "nat ring" where
  "wrapping_ring = \<lparr>rg_producer = - 1, rg_consumer = - 2, rg_descs = [10, 11, 12, 13], rg_size = 4, rg_mask = 3\<rparr>"

theorem ring_fifo_witness:
  "\<exists>r' accepted taken. run_ops produce consume wrapping_ring [Push [1, 2, 3, 4], Pop [0, 0], Push [5]] = Some (r', accepted, taken) \<and>
     12 # accepted = taken @ queued r'"
proof -
  have "ring_ok wrapping_ring"
    unfolding ring_ok_def by (intro conjI exI [of _ 2]) (simp_all add: wrapping_ring_def mask_eq_exp_minus_1)
  moreover have "queued wrapping_ring = [12]"
    by (simp add: queued_def wrapping_ring_def ring_index_def)
  ultimately show ?thesis using ring_fifo [of wrapping_ring "[Push [1, 2, 3, 4], Pop [0, 0], Push [5]]"] by fastforce
qed

end
