(* ===== verification/Frame_View.thy ===== *)
theory Frame_View
  imports Prelude
begin

text \<open>
  \<open>pesigitg-daemon/src/frame.rs\<close> and the \<open>AdoptedFrame\<close> of \<open>xdp_adopt.rs\<close>: a frame is a chunk of packet
  memory with the live length of the packet in it. The trait is a locale; its laws are what the datapath
  uses of a frame, and the model of \<open>AdoptedFrame\<close> satisfies them.
\<close>

section \<open>Operations\<close>

record adopted_frame =
  fr_buf :: bytes
  fr_len :: u32

definition contents :: "adopted_frame \<Rightarrow> bytes run" where
  "contents f = slice (fr_buf f) 0 (unat (fr_len f))"

text \<open>Storing bytes through the slice that \<open>contents_mut\<close> and \<open>resize\<close> return.\<close>

definition store_contents :: "adopted_frame \<Rightarrow> bytes \<Rightarrow> adopted_frame run" where
  "store_contents f bytes = do {
     buf \<leftarrow> copy_into (fr_buf f) 0 (unat (fr_len f)) bytes;
     ret (f\<lparr>fr_buf := buf\<rparr>)
   }"

definition capacity :: "adopted_frame \<Rightarrow> nat" where
  "capacity f = length (fr_buf f)"

definition resize :: "adopted_frame \<Rightarrow> nat \<Rightarrow> adopted_frame option" where
  "resize f new_len = (if new_len > length (fr_buf f) then None else Some (f\<lparr>fr_len := of_nat new_len\<rparr>))"

text \<open>A live length within the chunk, and a chunk whose size fits the descriptor's length field.\<close>

definition frame_ok :: "adopted_frame \<Rightarrow> bool" where
  "frame_ok f \<longleftrightarrow> unat (fr_len f) \<le> length (fr_buf f) \<and> length (fr_buf f) < 2 ^ 32"

section \<open>The interface\<close>

locale frame_view =
  fixes contents :: "'v \<Rightarrow> bytes run"
    and store :: "'v \<Rightarrow> bytes \<Rightarrow> 'v run"
    and capacity :: "'v \<Rightarrow> nat"
    and resize :: "'v \<Rightarrow> nat \<Rightarrow> 'v option"
    and ok :: "'v \<Rightarrow> bool"
  assumes contents_fits: "ok v \<Longrightarrow> \<exists>bs. contents v = Some bs \<and> length bs \<le> capacity v"
    and resize_None: "ok v \<Longrightarrow> resize v n = None \<longleftrightarrow> capacity v < n"
    and resize_Some: "ok v \<Longrightarrow> resize v n = Some v' \<Longrightarrow>
      ok v' \<and> capacity v' = capacity v \<and> (\<exists>bs. contents v' = Some bs \<and> length bs = n)"
    and store_same_length: "ok v \<Longrightarrow> contents v = Some old \<Longrightarrow> length bs = length old \<Longrightarrow>
      \<exists>v'. store v bs = Some v' \<and> ok v' \<and> capacity v' = capacity v \<and> contents v' = Some bs"
begin

text \<open>Replacing the packet by another one succeeds exactly when the chunk has room for it.\<close>

lemma replace_packet:
  assumes "ok v" "length bs \<le> capacity v"
  obtains v1 v2 where "resize v (length bs) = Some v1" "store v1 bs = Some v2" "ok v2"
    "contents v2 = Some bs" "capacity v2 = capacity v"
proof -
  obtain v1 where v1: "resize v (length bs) = Some v1" using resize_None [OF assms(1)] assms(2) by (meson not_le option.exhaust)
  from resize_Some [OF assms(1) v1] obtain old
    where old: "contents v1 = Some old" "length old = length bs" "ok v1" "capacity v1 = capacity v" by blast
  from store_same_length [OF old(3,1) old(2) [symmetric]] obtain v2
    where "store v1 bs = Some v2" "ok v2" "contents v2 = Some bs" "capacity v2 = capacity v1" by blast
  with that v1 old(4) show thesis by metis
qed

end

interpretation fv: frame_view contents store_contents capacity resize frame_ok
proof unfold_locales
  fix v v' :: adopted_frame and n :: nat and bs old :: bytes
  show "frame_ok v \<Longrightarrow> \<exists>bs. contents v = Some bs \<and> length bs \<le> capacity v"
    by (simp add: frame_ok_def contents_def capacity_def)
  show "frame_ok v \<Longrightarrow> resize v n = None \<longleftrightarrow> capacity v < n"
    by (simp add: resize_def capacity_def)
  show "frame_ok v \<Longrightarrow> resize v n = Some v' \<Longrightarrow>
      frame_ok v' \<and> capacity v' = capacity v \<and> (\<exists>bs. contents v' = Some bs \<and> length bs = n)"
    by (auto simp: frame_ok_def resize_def capacity_def contents_def unat_of_nat_u32 split: if_splits)
  show "frame_ok v \<Longrightarrow> contents v = Some old \<Longrightarrow> length bs = length old \<Longrightarrow>
      \<exists>v'. store_contents v bs = Some v' \<and> frame_ok v' \<and> capacity v' = capacity v \<and> contents v' = Some bs"
    by (auto simp: frame_ok_def store_contents_def capacity_def contents_def)
qed

end
