(* ===== verification/Xdp_Socket.thy ===== *)
theory Xdp_Socket
  imports Ring Frame_View "HOL-Library.Multiset"
begin

text \<open>
  The AF_XDP socket of \<open>pesigitg-daemon/src/xdp_adopt.rs\<close> and the trait of \<open>worker_socket.rs\<close> that the worker
  loop uses it through. The trait is a dictionary of operations, and its contract is a locale; the model of
  \<open>AdoptedSocket\<close> satisfies it. The packet memory (UMEM) is one byte array, a descriptor is an address in it
  and a length; an access outside the mapping is the failing value of \<open>run\<close>. Wake-up system calls have no
  effect on the rings and are left out, as are the file descriptors; whether \<open>poll\<close> reports the socket
  readable is an argument.
\<close>

section \<open>The trait\<close>

record ('s, 'f) af_xdp =
  af_zero_frame :: 'f
  af_poll_recv :: "'s \<Rightarrow> bool \<Rightarrow> 'f list \<Rightarrow> (nat \<times> 's \<times> 'f list) run"
  af_frame_view :: "'s \<Rightarrow> 'f \<Rightarrow> adopted_frame run"
  af_frame_store :: "'s \<Rightarrow> 'f \<Rightarrow> adopted_frame \<Rightarrow> ('s \<times> 'f) run"
  af_transmit :: "'s \<Rightarrow> 'f list \<Rightarrow> (nat \<times> 's) run"
  af_refill :: "'s \<Rightarrow> 'f list \<Rightarrow> (nat \<times> 's) run"
  af_complete :: "'s \<Rightarrow> 'f list \<Rightarrow> (nat \<times> nat \<times> 's \<times> 'f list) run"

section \<open>The adopted socket\<close>

record xdp_desc =
  xd_addr :: u64
  xd_len :: u32
  xd_options :: u32

record adopted_socket =
  sk_umem :: bytes
  sk_chunk_size :: u32
  sk_rx :: "xdp_desc ring"
  sk_tx :: "xdp_desc ring"
  sk_fill :: "u64 ring"
  sk_comp :: "u64 ring"

definition zero_frame :: xdp_desc where
  "zero_frame = \<lparr>xd_addr = 0, xd_len = 0, xd_options = 0\<rparr>"

definition poll_recv :: "adopted_socket \<Rightarrow> bool \<Rightarrow> xdp_desc list \<Rightarrow> (nat \<times> adopted_socket \<times> xdp_desc list) run" where
  "poll_recv s readable descs =
     (if \<not> readable then ret (0, s, descs)
      else do {
        (n, rx, descs) \<leftarrow> consume (sk_rx s) descs;
        ret (n, s\<lparr>sk_rx := rx\<rparr>, descs)
      })"

definition transmit :: "adopted_socket \<Rightarrow> xdp_desc list \<Rightarrow> (nat \<times> adopted_socket) run" where
  "transmit s descs = do {
     (n, tx) \<leftarrow> produce (sk_tx s) descs;
     ret (n, s\<lparr>sk_tx := tx\<rparr>)
   }"

definition refill_descs :: "adopted_socket \<Rightarrow> xdp_desc list \<Rightarrow> (nat \<times> adopted_socket) run" where
  "refill_descs s descs = do {
     let scratch_addrs = map xd_addr descs;
     (n, fill) \<leftarrow> produce (sk_fill s) scratch_addrs;
     ret (n, s\<lparr>sk_fill := fill\<rparr>)
   }"

definition complete_descs :: "adopted_socket \<Rightarrow> xdp_desc list \<Rightarrow> (nat \<times> nat \<times> adopted_socket \<times> xdp_desc list) run" where
  "complete_descs s scratch_descs = do {
     let scratch_addrs = replicate (length scratch_descs) (0 :: u64);
     (consumed, comp, scratch_addrs) \<leftarrow> consume (sk_comp s) scratch_addrs;
     let s = s\<lparr>sk_comp := comp\<rparr>;
     let scratch_descs =
       map (\<lambda>addr. \<lparr>xd_addr = addr, xd_len = 0, xd_options = 0\<rparr>) (take consumed scratch_addrs) @ drop consumed scratch_descs;
     if consumed > 0 then do {
       addrs \<leftarrow> slice scratch_addrs 0 consumed;
       (n, fill) \<leftarrow> produce (sk_fill s) addrs;
       ret (consumed, n, s\<lparr>sk_fill := fill\<rparr>, scratch_descs)
     } else ret (consumed, 0, s, scratch_descs)
   }"

text \<open>The view of \<open>chunk_size\<close> bytes from the descriptor's address on, and what writing through it changes.\<close>

definition frame_mut :: "adopted_socket \<Rightarrow> xdp_desc \<Rightarrow> adopted_frame run" where
  "frame_mut s desc = do {
     let chunk_size = unat (sk_chunk_size s);
     let offset = unat (xd_addr desc);
     buf \<leftarrow> slice (sk_umem s) offset (offset + chunk_size);
     ret \<lparr>fr_buf = buf, fr_len = xd_len desc\<rparr>
   }"

definition frame_store :: "adopted_socket \<Rightarrow> xdp_desc \<Rightarrow> adopted_frame \<Rightarrow> (adopted_socket \<times> xdp_desc) run" where
  "frame_store s desc data = do {
     let offset = unat (xd_addr desc);
     umem \<leftarrow> copy_into (sk_umem s) offset (offset + unat (sk_chunk_size s)) (fr_buf data);
     ret (s\<lparr>sk_umem := umem\<rparr>, desc\<lparr>xd_len := fr_len data\<rparr>)
   }"

definition adopted_ops :: "(adopted_socket, xdp_desc) af_xdp" where
  "adopted_ops = \<lparr>af_zero_frame = zero_frame, af_poll_recv = poll_recv, af_frame_view = frame_mut,
     af_frame_store = frame_store, af_transmit = transmit, af_refill = refill_descs, af_complete = complete_descs\<rparr>"

section \<open>The contract\<close>

text \<open>
  A socket owns the frames in its rings. Receiving and completing hand frames to the caller, transmitting
  and refilling take them back, and nothing else moves a frame. \<open>chunk\<close> names the frame of a descriptor,
  \<open>fits\<close> says that its bytes lie in the packet memory.
\<close>

locale af_xdp_socket =
  fixes S :: "('s, 'f) af_xdp" and ok :: "'s \<Rightarrow> bool" and owned :: "'s \<Rightarrow> nat multiset"
    and chunk :: "'s \<Rightarrow> 'f \<Rightarrow> nat" and fits :: "'s \<Rightarrow> 'f \<Rightarrow> bool"
  assumes poll_law: "ok s \<Longrightarrow> \<exists>n s' ds'. af_poll_recv S s readable ds = Some (n, s', ds') \<and> ok s' \<and>
      chunk s' = chunk s \<and> fits s' = fits s \<and> n \<le> length ds \<and> length ds' = length ds \<and>
      owned s = owned s' + mset (map (chunk s) (take n ds'))"
    and transmit_law: "ok s \<Longrightarrow> \<exists>n s'. af_transmit S s ds = Some (n, s') \<and> ok s' \<and>
      chunk s' = chunk s \<and> fits s' = fits s \<and> n \<le> length ds \<and>
      owned s' = owned s + mset (map (chunk s) (take n ds))"
    and refill_law: "ok s \<Longrightarrow> \<exists>n s'. af_refill S s ds = Some (n, s') \<and> ok s' \<and>
      chunk s' = chunk s \<and> fits s' = fits s \<and> n \<le> length ds \<and>
      owned s' = owned s + mset (map (chunk s) (take n ds))"
    and complete_law: "ok s \<Longrightarrow> \<exists>c r s' ds'. af_complete S s ds = Some (c, r, s', ds') \<and> ok s' \<and>
      chunk s' = chunk s \<and> fits s' = fits s \<and> r \<le> c \<and> c \<le> length ds' \<and> length ds' = length ds \<and>
      owned s = owned s' + mset (map (chunk s) (drop r (take c ds')))"
    and view_law: "ok s \<Longrightarrow> fits s d \<Longrightarrow> \<exists>v. af_frame_view S s d = Some v \<and> frame_ok v"
    and store_law: "ok s \<Longrightarrow> af_frame_view S s d = Some v \<Longrightarrow> capacity v' = capacity v \<Longrightarrow>
      \<exists>s' d'. af_frame_store S s d v' = Some (s', d') \<and> ok s' \<and> chunk s' = chunk s \<and> fits s' = fits s \<and>
        owned s' = owned s \<and> chunk s d' = chunk s d"

section \<open>The adopted socket keeps the contract\<close>

definition socket_ok :: "adopted_socket \<Rightarrow> bool" where
  "socket_ok s \<longleftrightarrow> ring_ok (sk_rx s) \<and> ring_ok (sk_tx s) \<and> ring_ok (sk_fill s) \<and> ring_ok (sk_comp s)"

definition addr_chunk :: "adopted_socket \<Rightarrow> u64 \<Rightarrow> nat" where
  "addr_chunk s addr = unat addr div unat (sk_chunk_size s)"

definition desc_chunk :: "adopted_socket \<Rightarrow> xdp_desc \<Rightarrow> nat" where
  "desc_chunk s desc = addr_chunk s (xd_addr desc)"

definition desc_fits :: "adopted_socket \<Rightarrow> xdp_desc \<Rightarrow> bool" where
  "desc_fits s desc \<longleftrightarrow> unat (xd_addr desc) + unat (sk_chunk_size s) \<le> length (sk_umem s) \<and>
     unat (xd_len desc) \<le> unat (sk_chunk_size s)"

definition ring_frames :: "adopted_socket \<Rightarrow> nat multiset" where
  "ring_frames s =
     mset (map (desc_chunk s) (queued (sk_rx s))) + mset (map (desc_chunk s) (queued (sk_tx s))) +
     mset (map (addr_chunk s) (queued (sk_fill s))) + mset (map (addr_chunk s) (queued (sk_comp s)))"

lemma chunk_updates [simp]:
  "desc_chunk (s\<lparr>sk_rx := r1\<rparr>) = desc_chunk s" "desc_chunk (s\<lparr>sk_tx := r1\<rparr>) = desc_chunk s"
  "desc_chunk (s\<lparr>sk_fill := r2\<rparr>) = desc_chunk s" "desc_chunk (s\<lparr>sk_comp := r2\<rparr>) = desc_chunk s"
  "desc_chunk (s\<lparr>sk_umem := umem\<rparr>) = desc_chunk s"
  "addr_chunk (s\<lparr>sk_rx := r1\<rparr>) = addr_chunk s" "addr_chunk (s\<lparr>sk_tx := r1\<rparr>) = addr_chunk s"
  "addr_chunk (s\<lparr>sk_fill := r2\<rparr>) = addr_chunk s" "addr_chunk (s\<lparr>sk_comp := r2\<rparr>) = addr_chunk s"
  "addr_chunk (s\<lparr>sk_umem := umem\<rparr>) = addr_chunk s"
  "desc_fits (s\<lparr>sk_rx := r1\<rparr>) = desc_fits s" "desc_fits (s\<lparr>sk_tx := r1\<rparr>) = desc_fits s"
  "desc_fits (s\<lparr>sk_fill := r2\<rparr>) = desc_fits s" "desc_fits (s\<lparr>sk_comp := r2\<rparr>) = desc_fits s"
  "length umem = length (sk_umem s) \<Longrightarrow> desc_fits (s\<lparr>sk_umem := umem\<rparr>) = desc_fits s"
  by (auto simp: desc_chunk_def addr_chunk_def desc_fits_def)

lemma poll_recv_eq:
  assumes "socket_ok s"
  shows "\<exists>n s' ds'. poll_recv s readable ds = Some (n, s', ds') \<and> socket_ok s' \<and> desc_chunk s' = desc_chunk s \<and>
    desc_fits s' = desc_fits s \<and> n \<le> length ds \<and> length ds' = length ds \<and>
    ring_frames s = ring_frames s' + mset (map (desc_chunk s) (take n ds'))"
proof (cases readable)
  case True
  have ok: "ring_ok (sk_rx s)" using assms by (simp add: socket_ok_def)
  let ?q = "queued (sk_rx s)"
  from rings.pop_law [OF ok, of ds] obtain rx where rx:
    "consume (sk_rx s) ds = Some (min (length ?q) (length ds), rx, take (length ds) ?q @ drop (length ?q) ds)"
    "ring_ok rx" "queued rx = drop (length ds) ?q" by blast
  have "mset ?q = mset (drop (length ds) ?q) + mset (take (length ds) ?q)"
    by (metis append_take_drop_id mset_append union_commute)
  then have "image_mset f (mset ?q) = image_mset f (mset (drop (length ds) ?q)) + image_mset f (mset (take (length ds) ?q))"
    for f :: "xdp_desc \<Rightarrow> nat"
    by (metis image_mset_union)
  moreover have "take (min (length ?q) (length ds)) (take (length ds) ?q @ drop (length ?q) ds) = take (length ds) ?q"
    by (simp add: min_def)
  ultimately show ?thesis
    using True rx assms by (simp add: poll_recv_def socket_ok_def ring_frames_def del: length_queued)
qed (use assms in \<open>simp add: poll_recv_def\<close>)

lemma transmit_eq:
  assumes "socket_ok s"
  shows "\<exists>n s'. transmit s ds = Some (n, s') \<and> socket_ok s' \<and> desc_chunk s' = desc_chunk s \<and>
    desc_fits s' = desc_fits s \<and> n \<le> length ds \<and> ring_frames s' = ring_frames s + mset (map (desc_chunk s) (take n ds))"
proof -
  have ok: "ring_ok (sk_tx s)" using assms by (simp add: socket_ok_def)
  from rings.push_prefix [OF ok, of ds] obtain n tx where
    "produce (sk_tx s) ds = Some (n, tx)" "ring_ok tx" "n \<le> length ds" "queued tx = queued (sk_tx s) @ take n ds" by metis
  with assms show ?thesis by (simp add: transmit_def socket_ok_def ring_frames_def)
qed

lemma refill_descs_eq:
  assumes "socket_ok s"
  shows "\<exists>n s'. refill_descs s ds = Some (n, s') \<and> socket_ok s' \<and> desc_chunk s' = desc_chunk s \<and>
    desc_fits s' = desc_fits s \<and> n \<le> length ds \<and> ring_frames s' = ring_frames s + mset (map (desc_chunk s) (take n ds))"
proof -
  have ok: "ring_ok (sk_fill s)" using assms by (simp add: socket_ok_def)
  from rings.push_prefix [OF ok, of "map xd_addr ds"] obtain n fill where
    "produce (sk_fill s) (map xd_addr ds) = Some (n, fill)" "ring_ok fill" "n \<le> length (map xd_addr ds)"
    "queued fill = queued (sk_fill s) @ take n (map xd_addr ds)" by metis
  with assms show ?thesis
    by (simp add: refill_descs_def socket_ok_def ring_frames_def take_map desc_chunk_def [abs_def] image_mset.compositionality comp_def)
qed

lemma complete_descs_eq:
  assumes "socket_ok s"
  shows "\<exists>c r s' ds'. complete_descs s ds = Some (c, r, s', ds') \<and> socket_ok s' \<and> desc_chunk s' = desc_chunk s \<and>
    desc_fits s' = desc_fits s \<and> r \<le> c \<and> c \<le> length ds' \<and> length ds' = length ds \<and>
    ring_frames s = ring_frames s' + mset (map (desc_chunk s) (drop r (take c ds')))"
proof -
  have ok: "ring_ok (sk_comp s)" "ring_ok (sk_fill s)" using assms by (simp_all add: socket_ok_def)
  let ?q = "queued (sk_comp s)" and ?L = "length ds"
  let ?c = "min (length ?q) ?L" and ?t = "take ?L ?q"
  let ?ds = "map (\<lambda>addr. \<lparr>xd_addr = addr, xd_len = 0, xd_options = 0\<rparr>) ?t @ drop ?c ds"
  from rings.pop_law [OF ok(1), of "replicate ?L (0 :: u64)"] obtain comp where comp:
    "consume (sk_comp s) (replicate ?L 0) = Some (?c, comp, ?t @ drop (length ?q) (replicate ?L 0))"
    "ring_ok comp" "queued comp = drop ?L ?q" by auto
  have t: "take ?c (?t @ drop (length ?q) (replicate ?L 0)) = ?t" by (simp add: min_def)
  have frames: "mset (map (addr_chunk s) ?q) = mset (map (addr_chunk s) (queued comp)) + mset (map (addr_chunk s) ?t)"
    unfolding comp(3) by (metis append_take_drop_id map_append mset_append union_commute)
  from rings.push_prefix [OF ok(2), of ?t] obtain r fill where fill: "produce (sk_fill s) ?t = Some (r, fill)"
    "ring_ok fill" "r \<le> length ?t" "queued fill = queued (sk_fill s) @ take r ?t" by metis
  define s' where "s' = (if ?c > 0 then s\<lparr>sk_comp := comp, sk_fill := fill\<rparr> else s\<lparr>sk_comp := comp\<rparr>)"
  define r' where "r' = (if ?c > 0 then r else 0)"
  have run: "complete_descs s ds = Some (?c, r', s', ?ds)"
    using comp(1) fill(1) t by (auto simp: complete_descs_def s'_def r'_def Let_def)
  have ds: "map (desc_chunk s) (drop r' (take ?c ?ds)) = map (addr_chunk s) (drop r' ?t)"
    by (simp add: min_def drop_map desc_chunk_def comp_def)
  have "mset (map (addr_chunk s) ?t) = mset (map (addr_chunk s) (take r' ?t)) + mset (map (addr_chunk s) (drop r' ?t))"
    by (metis append_take_drop_id map_append mset_append)
  moreover have "take r' ?t = (if ?c > 0 then take r ?t else [])" by (simp add: r'_def)
  ultimately have "ring_frames s = ring_frames s' + mset (map (desc_chunk s) (drop r' (take ?c ?ds)))"
    unfolding ds using frames fill(4) by (simp add: ring_frames_def s'_def)
  moreover have "socket_ok s'" "desc_chunk s' = desc_chunk s" "desc_fits s' = desc_fits s"
    using assms comp(2) fill(2) by (simp_all add: s'_def socket_ok_def)
  moreover have "r' \<le> ?c" "?c \<le> length ?ds" "length ?ds = ?L" using fill(3) by (simp_all add: r'_def)
  ultimately show ?thesis using run by blast
qed

interpretation adopted: af_xdp_socket adopted_ops socket_ok ring_frames desc_chunk desc_fits
proof
  fix s :: adopted_socket and d :: xdp_desc and v v' :: adopted_frame
  show "socket_ok s \<Longrightarrow> desc_fits s d \<Longrightarrow> \<exists>v. af_frame_view adopted_ops s d = Some v \<and> frame_ok v"
    using unsigned_less [of "sk_chunk_size s", where 'a = nat]
    by (auto simp: adopted_ops_def frame_mut_def desc_fits_def frame_ok_def)
  show "socket_ok s \<Longrightarrow> af_frame_view adopted_ops s d = Some v \<Longrightarrow> capacity v' = capacity v \<Longrightarrow>
      \<exists>s' d'. af_frame_store adopted_ops s d v' = Some (s', d') \<and> socket_ok s' \<and> desc_chunk s' = desc_chunk s \<and>
        desc_fits s' = desc_fits s \<and> ring_frames s' = ring_frames s \<and> desc_chunk s d' = desc_chunk s d"
    by (auto simp: adopted_ops_def frame_mut_def frame_store_def capacity_def socket_ok_def ring_frames_def Let_def)
      (simp add: desc_chunk_def)
qed (unfold adopted_ops_def af_xdp.select_convs,
    (rule poll_recv_eq transmit_eq refill_descs_eq complete_descs_eq, assumption)+)

end
