(* ===== verification/Retry_Token.thy ===== *)
theory Retry_Token
  imports Ip_Addr
begin

text \<open>
  \<open>pesigitg-daemon/src/retry/token.rs\<close>: minting and verifying of address-validation tokens. The
  HMAC-SHA256 implementation is third-party: \<open>mac_tag key msg\<close> is the finalised 32-byte tag of the
  bytes fed so far, \<open>mac_verify_left key msg tag\<close> the crate's truncated comparison, and \<open>hmac_ok\<close>
  is their documented behaviour.
\<close>

record hmac =
  mac_tag :: "bytes \<Rightarrow> bytes \<Rightarrow> bytes"
  mac_verify_left :: "bytes \<Rightarrow> bytes \<Rightarrow> bytes \<Rightarrow> bool"

definition hmac_ok :: "hmac \<Rightarrow> bool" where
  "hmac_ok h \<longleftrightarrow>
     (\<forall>key msg. length (mac_tag h key msg) = 32) \<and>
     (\<forall>key msg t. mac_verify_left h key msg t \<longleftrightarrow>
        t \<noteq> [] \<and> length t \<le> 32 \<and> take (length t) (mac_tag h key msg) = t)"

section \<open>Operations\<close>

definition TS_LEN :: nat where [simp]: "TS_LEN = 8"
definition MAC_LEN :: nat where [simp]: "MAC_LEN = 16"
definition TOKEN_LEN :: nat where [simp]: "TOKEN_LEN = TS_LEN + MAC_LEN"
definition MAX_ODCID :: nat where [simp]: "MAX_ODCID = 20"

datatype mint_error = OdcidTooLong
datatype verify_error = Invalid | Expired

record token_key =
  tk_key :: bytes

definition token_key_from_bytes :: "bytes \<Rightarrow> token_key" where
  "token_key_from_bytes key = \<lparr>tk_key = key\<rparr>"

definition token_same_key :: "token_key \<Rightarrow> token_key \<Rightarrow> bool" where
  "token_same_key k k' \<longleftrightarrow> tk_key k = tk_key k'"

text \<open>The message fed to the MAC: family, address, timestamp, length-prefixed connection id.\<close>

definition feed :: "ip_addr \<Rightarrow> bytes \<Rightarrow> bytes \<Rightarrow> bytes" where
  "feed client ts odcid =
     (case client of V4 v4 \<Rightarrow> [4] @ v4 | V6 v6 \<Rightarrow> [6] @ v6) @ ts @ [of_nat (length odcid)] @ odcid"

definition mint :: "hmac \<Rightarrow> token_key \<Rightarrow> ip_addr \<Rightarrow> bytes \<Rightarrow> u64 \<Rightarrow> (mint_error + bytes) run" where
  "mint h k client odcid now_ms =
     (if length odcid > MAX_ODCID then ret (Inl OdcidTooLong)
      else do {
        let ts = to_be 8 now_ms;
        out \<leftarrow> copy_into (replicate TOKEN_LEN 0) 0 TS_LEN ts;
        let full = mac_tag h (tk_key k) (feed client ts odcid);
        tag \<leftarrow> slice full 0 MAC_LEN;
        out \<leftarrow> copy_into out TS_LEN TOKEN_LEN tag;
        ret (Inr out)
      })"

definition verify ::
  "hmac \<Rightarrow> token_key \<Rightarrow> bytes \<Rightarrow> ip_addr \<Rightarrow> bytes \<Rightarrow> u64 \<Rightarrow> u64 \<Rightarrow> (verify_error + unit) run" where
  "verify h k token client odcid now_ms lifetime_ms =
     (if length token \<noteq> TOKEN_LEN \<or> length odcid > MAX_ODCID then ret (Inl Invalid)
      else do {
        ts_bytes \<leftarrow> slice token 0 TS_LEN;
        let ts_ms = from_be ts_bytes;
        tag \<leftarrow> slice_from token TS_LEN;
        if \<not> mac_verify_left h (tk_key k) (feed client ts_bytes odcid) tag then ret (Inl Invalid)
        else if ts_ms > now_ms then ret (Inl Invalid)
        else if now_ms - ts_ms > lifetime_ms then ret (Inl Expired)
        else ret (Inr ())
      })"

section \<open>Verification accepts exactly the tokens minted within the lifetime\<close>

lemma mint_eq:
  assumes "hmac_ok h" "length odcid \<le> 20"
  shows "mint h k client odcid ts =
    Some (Inr (to_be 8 ts @ take 16 (mac_tag h (tk_key k) (feed client (to_be 8 ts) odcid))))"
  using assms by (simp add: mint_def Let_def hmac_ok_def)

lemma verify_eq:
  assumes "hmac_ok h" "length odcid \<le> 20" "length token = 24"
  shows "verify h k token client odcid now life =
    (let ts = from_be (take 8 token) in
     Some (if mint h k client odcid ts \<noteq> Some (Inr token) \<or> ts > now then Inl Invalid
           else if now - ts > life then Inl Expired else Inr ()))"
proof -
  let ?ts = "from_be (take 8 token) :: u64"
  have ts: "to_be 8 ?ts = take 8 token"
    using to_be_from_be [of "take 8 token", where 'a = 64] assms(3) by simp
  have "mint h k client odcid ?ts = Some (Inr token) \<longleftrightarrow>
      take 16 (mac_tag h (tk_key k) (feed client (take 8 token) odcid)) = drop 8 token"
    unfolding mint_eq [OF assms(1,2)] ts
    by (metis append_take_drop_id option.inject same_append_eq sum.inject(2))
  with assms show ?thesis
    by (auto simp: verify_def Let_def hmac_ok_def)
qed

lemma verify_accepts:
  assumes "hmac_ok h"
  shows "(verify h k token client odcid now life = Some (Inr ()) \<longleftrightarrow>
      (\<exists>ts. mint h k client odcid ts = Some (Inr token) \<and> ts \<le> now \<and> now - ts \<le> life)) \<and>
    (verify h k token client odcid now life = Some (Inl Expired) \<longleftrightarrow>
      (\<exists>ts. mint h k client odcid ts = Some (Inr token) \<and> ts \<le> now \<and> now - ts > life))"
proof (cases "length odcid \<le> 20 \<and> length token = 24")
  case True
  let ?ts = "from_be (take 8 token) :: u64"
  have "?ts = ts" if "mint h k client odcid ts = Some (Inr token)" for ts
  proof -
    from that True have "token = to_be 8 ts @ take 16 (mac_tag h (tk_key k) (feed client (to_be 8 ts) odcid))"
      by (simp add: mint_eq [OF assms])
    then have "take 8 token = to_be 8 ts" by simp
    then show ?thesis by simp
  qed
  then have ex: "(\<exists>ts. mint h k client odcid ts = Some (Inr token) \<and> P ts) \<longleftrightarrow>
      mint h k client odcid ?ts = Some (Inr token) \<and> P ?ts" for P
    by blast
  show ?thesis
    using True unfolding ex by (auto simp: verify_eq [OF assms] Let_def not_less)
next
  case False
  have "length token = 24" if "mint h k client odcid ts = Some (Inr token)" "length odcid \<le> 20" for ts
    using that assms by (auto simp: mint_eq hmac_ok_def)
  moreover have "length odcid \<le> 20" if "mint h k client odcid ts = Some (Inr token)" for ts
    using that by (auto simp: mint_def split: if_splits)
  ultimately show ?thesis
    using False by (auto simp: verify_def split: if_splits)
qed

text \<open>
  C18. A token is accepted for a client and an original connection id exactly when \<open>mint\<close> issues it for
  them at some time that is not in the future and at most the lifetime ago; it is reported expired
  exactly when \<open>mint\<close> issues it at an older time.
\<close>

theorem verify_iff_minted:
  assumes "hmac_ok h"
  shows "(verify h k token client odcid now life = Some (Inr ()) \<longleftrightarrow>
      (\<exists>ts. mint h k client odcid ts = Some (Inr token) \<and> ts \<le> now \<and> now - ts \<le> life)) \<and>
    (verify h k token client odcid now life = Some (Inl Expired) \<longleftrightarrow>
      (\<exists>ts. mint h k client odcid ts = Some (Inr token) \<and> ts \<le> now \<and> now - ts > life))"
  by (rule verify_accepts [OF assms])

section \<open>What a token is bound to\<close>

lemma append_inject_length: "length xs = length ys \<Longrightarrow> xs @ us = ys @ vs \<longleftrightarrow> xs = ys \<and> us = vs"
  by simp

text \<open>
  The signed message determines the client address, the timestamp and the connection id: two
  different bindings are never fed to the MAC as the same bytes, so a token that verifies for two
  bindings exhibits two different messages with the same truncated HMAC.
\<close>

lemma feed_inject:
  assumes "ip_wf client" "ip_wf client'" "length ts = 8" "length ts' = 8"
    and "length odcid \<le> 20" "length odcid' \<le> 20"
  shows "feed client ts odcid = feed client' ts' odcid' \<longleftrightarrow> client = client' \<and> ts = ts' \<and> odcid = odcid'"
  using assms by (cases client; cases client') (auto simp: feed_def append_inject_length)

definition sample_hmac :: hmac where
  "sample_hmac =
     (let tag = \<lambda>key msg. take 32 (rev (key @ msg) @ replicate 32 0) in
      \<lparr>mac_tag = tag,
       mac_verify_left = \<lambda>key msg t. t \<noteq> [] \<and> length t \<le> 32 \<and> take (length t) (tag key msg) = t\<rparr>)"

lemma sample_hmac_ok: "hmac_ok sample_hmac"
  by (auto simp: hmac_ok_def sample_hmac_def Let_def min_def)

theorem verify_iff_minted_witness:
  "hmac_ok sample_hmac \<and>
   (let k = token_key_from_bytes (replicate 32 1); client = V4 [192, 0, 2, 7]; token = to_be 8 (1000 :: u64) @
      take 16 (mac_tag sample_hmac (tk_key k) (feed client (to_be 8 (1000 :: u64)) [1, 2, 3])) in
    verify sample_hmac k token client [1, 2, 3] 1500 500 = Some (Inr ()) \<and>
    verify sample_hmac k token client [1, 2, 3] 1501 500 = Some (Inl Expired))"
proof -
  let ?k = "token_key_from_bytes (replicate 32 1)" and ?client = "V4 [192, 0, 2, 7]"
  have "mint sample_hmac ?k ?client [1, 2, 3] 1000 =
      Some (Inr (to_be 8 (1000 :: u64) @
        take 16 (mac_tag sample_hmac (tk_key ?k) (feed ?client (to_be 8 (1000 :: u64)) [1, 2, 3]))))"
    by (rule mint_eq [OF sample_hmac_ok]) simp
  moreover have "(1000 :: u64) \<le> 1500 \<and> (1500 :: u64) - 1000 \<le> 500"
      "(1000 :: u64) \<le> 1501 \<and> (1501 :: u64) - 1000 > 500"
    by simp_all
  ultimately show ?thesis
    using sample_hmac_ok verify_iff_minted [OF sample_hmac_ok] unfolding Let_def by blast
qed

end
