(* ===== verification/Retry_Load.thy ===== *)
theory Retry_Load
  imports Prelude
begin

text \<open>
  \<open>pesigitg-daemon/src/retry/load.rs\<close>: the Initial-rate window shared by the workers. The sequential
  reading of \<open>record_batch\<close> is a function on the three counters; the concurrent one is a step relation
  in which the atomic operations of any number of calls interleave. The relation is sequentially
  consistent; the conservation result only concerns the single location \<open>window_count\<close>, all of
  whose updates are atomic read-modify-writes.
\<close>

section \<open>Sequential operations\<close>

record load_tracker =
  window_sec :: u64
  window_count :: u64
  last_rate :: u64

definition tracker_new :: load_tracker where
  "tracker_new = \<lparr>window_sec = 0, window_count = 0, last_rate = 0\<rparr>"

definition rate :: "load_tracker \<Rightarrow> u64" where
  "rate t = last_rate t"

definition record_batch :: "load_tracker \<Rightarrow> u64 \<Rightarrow> u64 \<Rightarrow> load_tracker" where
  "record_batch t count now_ms =
     (let now_sec = now_ms div 1000;
          cur = window_sec t;
          t = (if now_sec \<noteq> cur
               then t\<lparr>window_sec := now_sec, window_count := 0, last_rate := window_count t\<rparr>
               else t)
      in if count > 0 then t\<lparr>window_count := window_count t + count\<rparr> else t)"

section \<open>Interleaved calls\<close>

text \<open>
  The program points of one call: before the load of \<open>window_sec\<close>; before the compare-exchange, with
  the value loaded; after winning it; between the swap and the store, with the value swapped out;
  before the addition; returned.
\<close>

datatype call =
    Begin u64 u64
  | Compare u64 u64 u64
  | Swap u64
  | Store u64 u64
  | Add u64
  | Finished

text \<open>The counters, the calls in flight, and the counts swapped out of completed windows so far.\<close>

record load_state =
  tracker :: load_tracker
  calls :: "call list"
  windows :: "u64 list"

fun exec :: "call \<Rightarrow> load_tracker \<Rightarrow> u64 list \<Rightarrow> call \<times> load_tracker \<times> u64 list" where
  "exec (Begin count now_sec) t ws =
     (if now_sec \<noteq> window_sec t then (Compare count now_sec (window_sec t), t, ws) else (Add count, t, ws))"
| "exec (Compare count now_sec cur) t ws =
     (if window_sec t = cur then (Swap count, t\<lparr>window_sec := now_sec\<rparr>, ws) else (Add count, t, ws))"
| "exec (Swap count) t ws = (Store count (window_count t), t\<lparr>window_count := 0\<rparr>, window_count t # ws)"
| "exec (Store count prev) t ws = (Add count, t\<lparr>last_rate := prev\<rparr>, ws)"
| "exec (Add count) t ws =
     (Finished, if count > 0 then t\<lparr>window_count := window_count t + count\<rparr> else t, ws)"
| "exec Finished t ws = (Finished, t, ws)"

inductive load_step :: "load_state \<Rightarrow> load_state \<Rightarrow> bool" where
  step: "i < length (calls s) \<Longrightarrow> calls s ! i \<noteq> Finished \<Longrightarrow>
     exec (calls s ! i) (tracker s) (windows s) = (c, t, ws) \<Longrightarrow>
     load_step s \<lparr>tracker = t, calls = (calls s)[i := c], windows = ws\<rparr>"

definition load_start :: "load_tracker \<Rightarrow> (u64 \<times> u64) list \<Rightarrow> load_state" where
  "load_start t batches =
     \<lparr>tracker = t, calls = map (\<lambda>(count, now_ms). Begin count (now_ms div 1000)) batches, windows = []\<rparr>"

section \<open>Every event is counted in exactly one window\<close>

text \<open>The events a call has yet to add.\<close>

fun pending :: "call \<Rightarrow> u64" where
  "pending (Begin count _) = count"
| "pending (Compare count _ _) = count"
| "pending (Swap count) = count"
| "pending (Store count _) = count"
| "pending (Add count) = count"
| "pending Finished = 0"

definition total :: "load_state \<Rightarrow> u64" where
  "total s = window_count (tracker s) + sum_list (windows s) + sum_list (map pending (calls s))"

fun steps_left :: "call \<Rightarrow> nat" where
  "steps_left (Begin _ _) = 5"
| "steps_left (Compare _ _ _) = 4"
| "steps_left (Swap _) = 3"
| "steps_left (Store _ _) = 2"
| "steps_left (Add _) = 1"
| "steps_left Finished = 0"

inductive_cases load_stepE: "load_step s s'"

lemma exec_conserves:
  "exec c t ws = (c', t', ws') \<Longrightarrow>
     window_count t' + sum_list ws' + pending c' = window_count t + sum_list ws + pending c"
  by (cases c) (auto simp: word_gt_0 split: if_splits)

lemma exec_progress: "exec c t ws = (c', t', ws') \<Longrightarrow> c \<noteq> Finished \<Longrightarrow> steps_left c' < steps_left c"
  by (cases c) (auto split: if_splits)

lemma sum_list_map_update_group:
  "i < length xs \<Longrightarrow> sum_list (map f (xs[i := x])) + f (xs ! i) = sum_list (map f xs) + (f x :: 'a::comm_monoid_add)"
proof (induction xs arbitrary: i)
  case (Cons y xs)
  then show ?case by (cases i) (auto simp: ac_simps)
qed simp

lemma exchange:
  fixes a a' b b' p p' :: "'a::cancel_comm_monoid_add"
  assumes "a' + p' = a + p" "b' + p = b + p'"
  shows "a' + b' = a + b"
proof -
  have "(a' + b') + (p + p') = (a' + p') + (b' + p)" by (simp only: ac_simps)
  also have "\<dots> = (a + b) + (p + p')" unfolding assms by (simp only: ac_simps)
  finally show ?thesis by (simp only: add_right_cancel)
qed

lemma load_step_total: "load_step s s' \<Longrightarrow> total s' = total s"
proof (erule load_stepE)
  fix i c t ws
  assume i: "i < length (calls s)" and e: "exec (calls s ! i) (tracker s) (windows s) = (c, t, ws)"
    and s': "s' = \<lparr>tracker = t, calls = (calls s)[i := c], windows = ws\<rparr>"
  show "total s' = total s"
    using exchange [OF exec_conserves [OF e] sum_list_map_update_group [OF i, of pending c]]
    by (simp add: total_def s')
qed

definition work :: "load_state \<Rightarrow> nat" where
  "work s = sum_list (map steps_left (calls s))"

lemma load_step_work: "load_step s s' \<Longrightarrow> work s' < work s"
proof (erule load_stepE)
  fix i c t ws
  assume i: "i < length (calls s)" and n: "calls s ! i \<noteq> Finished"
    and e: "exec (calls s ! i) (tracker s) (windows s) = (c, t, ws)"
    and s': "s' = \<lparr>tracker = t, calls = (calls s)[i := c], windows = ws\<rparr>"
  from exec_progress [OF e n] sum_list_map_update_group [OF i, of steps_left c]
  show "work s' < work s" by (simp add: work_def s')
qed

lemma load_steps_work: "(load_step ^^ n) s s' \<Longrightarrow> n + work s' \<le> work s"
  by (induction n arbitrary: s') (fastforce dest!: load_step_work)+

lemma load_steps_total: "(load_step ^^ n) s s' \<Longrightarrow> total s' = total s"
  by (induction n arbitrary: s') (auto dest: load_step_total)

lemma stuck_iff: "(\<nexists>s'. load_step s s') \<longleftrightarrow> (\<forall>c \<in> set (calls s). c = Finished)"
proof
  assume "\<nexists>s'. load_step s s'"
  then have "calls s ! i = Finished" if "i < length (calls s)" for i
    using that load_step.step [of i s] by (metis prod_cases3)
  then show "\<forall>c \<in> set (calls s). c = Finished" by (auto simp: in_set_conv_nth)
next
  assume "\<forall>c \<in> set (calls s). c = Finished"
  then show "\<nexists>s'. load_step s s'" by (auto elim!: load_stepE)
qed

text \<open>
  C29. However the atomic operations of concurrent \<open>record_batch\<close> calls interleave, no event is lost or
  counted twice: after any number of steps the open window, the completed windows and the counts not
  yet added sum to the initial window plus everything recorded (modulo \<open>2^64\<close>, as the counter wraps).
  The calls are wait-free: together they take at most five steps each, and a state in which none can
  move has every call returned.
\<close>

theorem record_batch_interleaved:
  assumes "(load_step ^^ n) (load_start t batches) s"
  shows "window_count (tracker s) + sum_list (windows s) + sum_list (map pending (calls s)) =
      window_count t + sum_list (map fst batches) \<and>
    n \<le> 5 * length batches \<and>
    ((\<nexists>s'. load_step s s') \<longleftrightarrow> (\<forall>c \<in> set (calls s). c = Finished))"
proof -
  have pending: "map (pending \<circ> (\<lambda>(count, now_ms). Begin count (now_ms div 1000))) batches = map fst batches"
    by (rule map_cong [OF refl]) (auto split: prod.splits)
  have steps: "sum_list (map (steps_left \<circ> (\<lambda>(count, now_ms). Begin count (now_ms div 1000))) batches) = 5 * length batches"
    by (induction batches) auto
  show ?thesis
    using load_steps_total [OF assms] load_steps_work [OF assms] stuck_iff [of s]
    by (simp add: total_def load_start_def work_def pending steps)
qed

text \<open>A call that runs alone has the effect of the sequential function.\<close>

lemma load_steps_single:
  assumes "exec c t ws = (c', t', ws')" "c \<noteq> Finished"
    and "load_step\<^sup>*\<^sup>* \<lparr>tracker = t', calls = [c'], windows = ws'\<rparr> s"
  shows "load_step\<^sup>*\<^sup>* \<lparr>tracker = t, calls = [c], windows = ws\<rparr> s"
proof -
  have "load_step \<lparr>tracker = t, calls = [c], windows = ws\<rparr> \<lparr>tracker = t', calls = [c'], windows = ws'\<rparr>"
    using load_step.step [of 0 "\<lparr>tracker = t, calls = [c], windows = ws\<rparr>" c' t' ws'] assms(1,2) by simp
  then show ?thesis using assms(3) by (rule converse_rtranclp_into_rtranclp)
qed

text \<open>
  The step relation refines the sequential reading: a call that is not interleaved with another
  reaches the state \<open>record_batch\<close> computes.
\<close>

lemma record_batch_alone:
  "\<exists>ws. load_step\<^sup>*\<^sup>* (load_start t [(count, now_ms)])
     \<lparr>tracker = record_batch t count now_ms, calls = [Finished], windows = ws\<rparr>"
proof (cases "now_ms div 1000 = window_sec t")
  case True
  have "load_step\<^sup>*\<^sup>* (load_start t [(count, now_ms)])
      \<lparr>tracker = record_batch t count now_ms, calls = [Finished], windows = []\<rparr>"
    unfolding load_start_def
    by (simp add: True, (rule load_steps_single, simp, (simp; fail))+) (simp add: True record_batch_def)
  then show ?thesis ..
next
  case False
  have "load_step\<^sup>*\<^sup>* (load_start t [(count, now_ms)])
      \<lparr>tracker = record_batch t count now_ms, calls = [Finished], windows = [window_count t]\<rparr>"
    unfolding load_start_def
    by (simp, (rule load_steps_single, simp add: False, (simp; fail))+) (simp add: False record_batch_def Let_def)
  then show ?thesis ..
qed

section \<open>The reported rate\<close>

definition record_batches :: "load_tracker \<Rightarrow> (u64 \<times> u64) list \<Rightarrow> load_tracker" where
  "record_batches = foldl (\<lambda>t (count, now_ms). record_batch t count now_ms)"

lemma record_batches_in_window:
  "(\<forall>(count, ms) \<in> set batches. ms div 1000 = window_sec t) \<Longrightarrow>
     record_batches t batches = t\<lparr>window_count := window_count t + sum_list (map fst batches)\<rparr>"
proof (induction batches arbitrary: t)
  case (Cons b batches)
  obtain count ms where b: "b = (count, ms)" by fastforce
  have "record_batch t count ms = t\<lparr>window_count := window_count t + count\<rparr>"
    using Cons.prems by (simp add: b record_batch_def Let_def word_gt_0)
  then show ?case
    using Cons.IH [of "t\<lparr>window_count := window_count t + count\<rparr>"] Cons.prems
    by (auto simp: record_batches_def b ac_simps)
qed (simp add: record_batches_def)

lemma rate_record_batch: "ms div 1000 \<noteq> window_sec t \<Longrightarrow> rate (record_batch t c ms) = window_count t"
  by (simp add: record_batch_def rate_def Let_def)

text \<open>
  The rate the classifier reads is the number of Initials recorded in the most recently completed
  window: once a first batch with a new second has closed the window of \<open>t\<close>, and more batches of that
  second arrive, the next batch of a different second publishes their sum as the rate.
\<close>

lemma rate_is_last_window:
  assumes "sec \<noteq> window_sec t" "sec' \<noteq> sec" "ms' div 1000 = sec'"
    and "\<forall>(count, ms) \<in> set ((c0, ms0) # batches). ms div 1000 = sec"
  shows "rate (record_batch (record_batches t ((c0, ms0) # batches)) c' ms') =
    sum_list (map fst ((c0, ms0) # batches))"
proof -
  let ?t = "record_batch t c0 ms0"
  have "ms0 div 1000 = sec" using assms(4) by simp
  with assms(1) have t: "window_sec ?t = sec" "window_count ?t = c0"
    by (simp_all add: record_batch_def Let_def word_gt_0)
  have "record_batches t ((c0, ms0) # batches) = record_batches ?t batches"
    by (simp add: record_batches_def)
  also have "\<dots> = ?t\<lparr>window_count := window_count ?t + sum_list (map fst batches)\<rparr>"
    by (rule record_batches_in_window) (use assms(4) in \<open>simp add: t\<close>)
  finally have "window_sec (record_batches t ((c0, ms0) # batches)) = sec"
      "window_count (record_batches t ((c0, ms0) # batches)) = c0 + sum_list (map fst batches)"
    by (simp_all add: t)
  then show ?thesis using assms(2,3) by (simp add: rate_record_batch)
qed

section \<open>Evaluated schedules\<close>

definition run_call :: "load_state \<Rightarrow> nat \<Rightarrow> load_state" where
  "run_call s i =
     (case exec (calls s ! i) (tracker s) (windows s) of
        (c, t, ws) \<Rightarrow> \<lparr>tracker = t, calls = (calls s)[i := c], windows = ws\<rparr>)"

fun runnable :: "load_state \<Rightarrow> nat list \<Rightarrow> bool" where
  "runnable s [] = True"
| "runnable s (i # is) \<longleftrightarrow> i < length (calls s) \<and> calls s ! i \<noteq> Finished \<and> runnable (run_call s i) is"

lemma run_call_step: "i < length (calls s) \<Longrightarrow> calls s ! i \<noteq> Finished \<Longrightarrow> load_step s (run_call s i)"
  by (cases "exec (calls s ! i) (tracker s) (windows s)") (simp add: run_call_def load_step.step)

lemma runnable_steps: "runnable s is \<Longrightarrow> (load_step ^^ length is) s (foldl run_call s is)"
  by (induction s "is" rule: runnable.induct) (auto simp del: relpowp.simps(2) intro: relpowp_Suc_I2 run_call_step)

text \<open>Two calls cross a second boundary together; the second loses the compare-exchange.\<close>

definition sample_schedule :: "nat list" where
  "sample_schedule = [0, 1, 0, 1, 0, 1, 0, 0]"

definition sample_start :: load_state where
  "sample_start = load_start (tracker_new\<lparr>window_count := 7\<rparr>) [(3, 1000), (4, 1200)]"

theorem record_batch_interleaved_witness:
  "(load_step ^^ 8) sample_start (foldl run_call sample_start sample_schedule) \<and>
   (let s = foldl run_call sample_start sample_schedule in
    window_count (tracker s) + sum_list (windows s) + sum_list (map pending (calls s)) = 14 \<and> \<not> (\<exists>s'. load_step s s'))"
proof -
  define s where "s = foldl run_call sample_start sample_schedule"
  have "runnable sample_start sample_schedule" and len: "length sample_schedule = 8"
    by (simp_all add: sample_start_def sample_schedule_def load_start_def tracker_new_def run_call_def)
  then have run: "(load_step ^^ 8) sample_start s"
    using runnable_steps [of sample_start sample_schedule] by (simp only: s_def len)
  have fin: "\<forall>c \<in> set (calls s). c = Finished"
    by (simp add: s_def sample_start_def sample_schedule_def load_start_def tracker_new_def run_call_def)
  note res = record_batch_interleaved [OF run [unfolded sample_start_def]]
  have sum: "window_count (tracker s) + sum_list (windows s) + sum_list (map pending (calls s)) = 14"
    using conjunct1 [OF res] by (simp add: tracker_new_def)
  have stuck: "\<not> (\<exists>s'. load_step s s')"
    using conjunct2 [OF conjunct2 [OF res]] fin by (rule iffD2)
  show ?thesis
    unfolding Let_def s_def [symmetric] by (intro conjI run sum stuck)
qed

end
