(* ===== verification/Retry_Config.thy ===== *)
theory Retry_Config
  imports Route Retry_Token Retry_Load
begin

text \<open>
  \<open>pesigitg-daemon/src/config/retry.rs\<close>: the validated \<open>[retry]\<close> settings. The rate tracker is
  held behind an \<open>Arc\<close> and shared by every worker, so a config stores its address; the validation
  takes the address of the freshly allocated tracker and the clock reading as arguments.
\<close>

section \<open>Data\<close>

datatype retry_mode = Observe | Always | Load

type_synonym tracker_ref = nat

record retry_config =
  rt_enabled :: bool
  rt_token_key :: token_key
  rt_token_lifetime_ms :: u64
  rt_mode :: retry_mode
  rt_ports :: "u16 list"
  rt_load_trigger_rate :: "u64 option"
  rt_load_tracker :: "tracker_ref option"
  rt_loaded_at :: instant
  rt_max_key_age_secs :: "u64 option"

record raw_retry =
  rawr_enabled :: bool
  rawr_token_key :: "string option"
  rawr_token_lifetime_secs :: u64
  rawr_mode :: string
  rawr_ports :: "u16 list"
  rawr_load :: "u64 option"
  rawr_max_key_age_secs :: "u64 option"

section \<open>Operations\<close>

definition inherit_age_from :: "retry_config \<Rightarrow> retry_config \<Rightarrow> retry_config" where
  "inherit_age_from self prev =
     (if token_same_key (rt_token_key self) (rt_token_key prev)
      then self\<lparr>rt_loaded_at := rt_loaded_at prev\<rparr> else self)"

definition parse_hex_retry_key :: "string \<Rightarrow> (route_config_error + bytes) run" where
  "parse_hex_retry_key s =
     try_bind (map_err (\<lambda>e. Validation (InvalidHexRetryKey e)) (hex_decode s)) (\<lambda>bs.
       if length bs \<noteq> 32 then ret (Inl (Validation (RetryKeyLength (length bs))))
       else ret (Inr bs))"

fun parse_retry_mode :: "string \<Rightarrow> route_config_error + retry_mode" where
  "parse_retry_mode s =
     (if s = ''observe'' then Inr Observe
      else if s = ''always'' then Inr Always
      else if s = ''load'' then Inr Load
      else Inl (Validation (RetryMode s)))"

definition retry_validate :: "raw_retry \<Rightarrow> instant \<Rightarrow> tracker_ref \<Rightarrow> (route_config_error + retry_config) run" where
  "retry_validate raw now fresh =
     try_bind (ret (parse_retry_mode (rawr_mode raw))) (\<lambda>mode.
     if rawr_token_lifetime_secs raw = 0 \<or> rawr_token_lifetime_secs raw > 86400 then
       ret (Inl (Validation (RetryLifetime (rawr_token_lifetime_secs raw))))
     else
       (let token_lifetime_ms = rawr_token_lifetime_secs raw * 1000 in
        try_bind
          (case rawr_token_key raw of
             Some hex \<Rightarrow> try_bind (parse_hex_retry_key hex) (\<lambda>k. ret (Inr (token_key_from_bytes k)))
           | None \<Rightarrow>
               if rawr_enabled raw then ret (Inl (Validation RetryKeyRequired))
               else ret (Inr (token_key_from_bytes (replicate 32 0)))) (\<lambda>token_key.
        try_bind
          (case mode of
             Load \<Rightarrow>
               try_bind (ok_or (Validation RetryLoadSectionMissing) (rawr_load raw)) (\<lambda>trigger_rate.
                 if trigger_rate = 0 then ret (Inl (Validation RetryTriggerZero))
                 else ret (Inr (Some trigger_rate)))
           | _ \<Rightarrow>
               if rawr_load raw \<noteq> None then ret (Inl (Validation RetryLoadSectionUnexpected))
               else ret (Inr None)) (\<lambda>load_trigger_rate.
        (let ports = remdups_adj (sort (rawr_ports raw));
             load_tracker = (case mode of Load \<Rightarrow> Some fresh | _ \<Rightarrow> None) in
         if rawr_max_key_age_secs raw = Some 0 then ret (Inl (Validation RetryMaxKeyAgeZero))
         else ret (Inr \<lparr>rt_enabled = rawr_enabled raw, rt_token_key = token_key,
                 rt_token_lifetime_ms = token_lifetime_ms, rt_mode = mode, rt_ports = ports,
                 rt_load_trigger_rate = load_trigger_rate, rt_load_tracker = load_tracker,
                 rt_loaded_at = now, rt_max_key_age_secs = rawr_max_key_age_secs raw\<rparr>))))))"

section \<open>Lemmas\<close>

definition retry_wf :: "retry_config \<Rightarrow> bool" where
  "retry_wf rt \<longleftrightarrow>
     length (tk_key (rt_token_key rt)) = 32 \<and>
     1000 \<le> rt_token_lifetime_ms rt \<and> rt_token_lifetime_ms rt \<le> 86400000 \<and>
     sorted_wrt (<) (rt_ports rt) \<and>
     (rt_load_trigger_rate rt \<noteq> None \<longleftrightarrow> rt_mode rt = Load) \<and>
     rt_load_trigger_rate rt \<noteq> Some 0 \<and>
     (rt_load_tracker rt \<noteq> None \<longleftrightarrow> rt_mode rt = Load) \<and>
     rt_max_key_age_secs rt \<noteq> Some 0"

lemma lifetime_ms:
  assumes "(x :: u64) \<noteq> 0" "x \<le> 86400"
  shows "1000 \<le> x * 1000 \<and> x * 1000 \<le> 86400000"
proof -
  have "unat x \<le> 86400" "0 < unat x" using assms by (simp_all add: word_le_nat_alt unat_gt_0)
  moreover from this have "unat (x * 1000) = unat x * 1000" by (simp add: unat_word_ariths)
  ultimately show ?thesis by (simp add: word_le_nat_alt)
qed

lemma strictly_sorted_remdups_adj: "sorted xs \<Longrightarrow> sorted_wrt (<) (remdups_adj xs :: 'a::linorder list)"
  by (induction xs rule: remdups_adj.induct) (auto simp: order_le_less)

lemma parse_hex_retry_key_length: "parse_hex_retry_key s = Some (Inr k) \<Longrightarrow> length k = 32"
  by (auto simp: parse_hex_retry_key_def split: if_splits)

lemma retry_validate_result:
  assumes "retry_validate raw now fresh = Some (Inr rt)"
  shows "retry_wf rt \<and> rt_loaded_at rt = now \<and> rt_enabled rt = rawr_enabled raw \<and>
    set (rt_ports rt) = set (rawr_ports raw) \<and>
    (rawr_enabled raw \<longrightarrow> rawr_token_key raw \<noteq> None)"
proof -
  let ?ports = "remdups_adj (sort (rawr_ports raw))"
  have ports: "sorted_wrt (<) ?ports" "set ?ports = set (rawr_ports raw)"
    by (simp_all add: strictly_sorted_remdups_adj)
  note * = assms [unfolded retry_validate_def Let_def]
  have key: "length (tk_key (rt_token_key rt)) = 32"
    using * by (auto simp: token_key_from_bytes_def split: if_splits option.splits dest: parse_hex_retry_key_length)
  have load: "(rt_load_trigger_rate rt \<noteq> None \<longleftrightarrow> rt_mode rt = Load) \<and> rt_load_trigger_rate rt \<noteq> Some 0 \<and>
      (rt_load_tracker rt \<noteq> None \<longleftrightarrow> rt_mode rt = Load)"
    using * by (auto split: if_splits retry_mode.splits)
  have life: "1000 \<le> rt_token_lifetime_ms rt \<and> rt_token_lifetime_ms rt \<le> 86400000"
    using * lifetime_ms [of "rawr_token_lifetime_secs raw"] by (auto simp: not_less split: if_splits)
  have rest: "rt_ports rt = ?ports \<and> rt_max_key_age_secs rt \<noteq> Some 0 \<and> rt_loaded_at rt = now \<and>
      rt_enabled rt = rawr_enabled raw \<and> (rawr_enabled raw \<longrightarrow> rawr_token_key raw \<noteq> None)"
    using * by (auto split: if_splits option.splits)
  from key load life rest ports show ?thesis by (simp add: retry_wf_def)
qed

text \<open>
  An accepted \<open>[retry]\<close> section is well formed: the key has 32 bytes, the lifetime is between one
  second and a day in milliseconds without overflow, the port list is strictly sorted and lists exactly
  the configured ports; a trigger rate and a tracker are present exactly in load mode, and the rate is positive; an enabled service has a key of
  its own.
\<close>

lemma retry_validate_wf:
  assumes "retry_validate raw now fresh = Some (Inr rt)"
  shows "retry_wf rt \<and> rt_loaded_at rt = now \<and> rt_enabled rt = rawr_enabled raw \<and>
    set (rt_ports rt) = set (rawr_ports raw) \<and>
    (rawr_enabled raw \<longrightarrow> rawr_token_key raw \<noteq> None)"
  using retry_validate_result [OF assms] .

definition sample_raw_retry :: raw_retry where
  "sample_raw_retry = \<lparr>rawr_enabled = True, rawr_token_key = Some (hex_encode (replicate 32 7)),
     rawr_token_lifetime_secs = 10, rawr_mode = ''load'', rawr_ports = [8443, 443, 443], rawr_load = Some 500,
     rawr_max_key_age_secs = None\<rparr>"

definition sample_retry :: retry_config where
  "sample_retry = \<lparr>rt_enabled = True, rt_token_key = token_key_from_bytes (replicate 32 7),
     rt_token_lifetime_ms = 10000, rt_mode = Load, rt_ports = [443, 8443], rt_load_trigger_rate = Some 500,
     rt_load_tracker = Some 0, rt_loaded_at = 5, rt_max_key_age_secs = None\<rparr>"

lemma sample_retry_validates: "retry_validate sample_raw_retry 5 0 = Some (Inr sample_retry)"
  by (simp add: retry_validate_def sample_raw_retry_def sample_retry_def parse_hex_retry_key_def hex.dec_enc)

end
