(* ===== verification/Config_Table.thy ===== *)
theory Config_Table
  imports Retry_Config Cid
begin

text \<open>
  \<open>pesigitg-daemon/src/config/route.rs\<close>, the slot table indexed by config id with its fallback pool,
  and \<open>pesigitg-daemon/src/cid.rs\<close>, the lookup of a packet's config. The TOML deserialiser appears
  twice, as in the code: \<open>toml\<close> reads the route entries and \<open>toml_retry\<close> the optional retry section.
\<close>

section \<open>Operations\<close>

record config_table =
  ct_path :: string
  ct_slots :: "route_config option list"
  ct_loaded_at :: "instant option list"
  ct_fallback_servers :: "server list"
  ct_retry :: "retry_config option"

definition fill_slots ::
  "instant \<Rightarrow> route_config list \<Rightarrow> (route_config option list \<times> instant option list) run" where
  "fill_slots now configs =
     foldM (\<lambda>(slots, loaded_at) config. do {
         slots \<leftarrow> set_idx slots (unat (rc_config_id config)) (Some config);
         loaded_at \<leftarrow> set_idx loaded_at (unat (rc_config_id config)) (Some now);
         ret (slots, loaded_at)
       }) (replicate 7 None, replicate 7 None) configs"

definition from_str ::
  "(bytes \<Rightarrow> aes128) \<Rightarrow> (string \<Rightarrow> string + raw_config list) \<Rightarrow> (string \<Rightarrow> string + raw_retry option)
     \<Rightarrow> string \<Rightarrow> instant \<Rightarrow> tracker_ref \<Rightarrow> (route_config_error + config_table) run" where
  "from_str aes_new toml toml_retry text now fresh =
     try_bind (parse_routes aes_new toml text) (\<lambda>configs. do {
       (slots, loaded_at) \<leftarrow> fill_slots now configs;
       try_bind (ret (map_sum Parse id (toml_retry text))) (\<lambda>wrapper.
       try_bind (case wrapper of
           None \<Rightarrow> ret (Inr None)
         | Some raw \<Rightarrow> try_bind (retry_validate raw now fresh) (\<lambda>rt. ret (Inr (Some rt)))) (\<lambda>retry.
       ret (Inr \<lparr>ct_path = [], ct_slots = slots, ct_loaded_at = loaded_at,
                 ct_fallback_servers = [], ct_retry = retry\<rparr>)))
     })"

definition from_file ::
  "(bytes \<Rightarrow> aes128) \<Rightarrow> (string \<Rightarrow> string + raw_config list) \<Rightarrow> (string \<Rightarrow> string + raw_retry option)
     \<Rightarrow> (string \<Rightarrow> string + string) \<Rightarrow> string \<Rightarrow> instant \<Rightarrow> tracker_ref
     \<Rightarrow> (route_config_error + config_table) run" where
  "from_file aes_new toml toml_retry read_to_string path now fresh =
     try_bind (ret (map_sum Io id (read_to_string path))) (\<lambda>text.
     try_bind (from_str aes_new toml toml_retry text now fresh) (\<lambda>table.
     ret (Inr (table\<lparr>ct_path := path\<rparr>))))"

text \<open>The body of the loop of \<open>inherit_ages_from\<close>, for slot \<open>i\<close>.\<close>

definition inherit_slot :: "config_table \<Rightarrow> config_table \<Rightarrow> nat \<Rightarrow> config_table run" where
  "inherit_slot prev self i = do {
     new_slot \<leftarrow> idx (ct_slots self) i;
     old_slot \<leftarrow> idx (ct_slots prev) i;
     case (new_slot, old_slot) of
       (Some new_cfg, Some old_cfg) \<Rightarrow>
         if same_key (rc_encryption new_cfg) (rc_encryption old_cfg) then do {
           age \<leftarrow> idx (ct_loaded_at prev) i;
           loaded_at \<leftarrow> set_idx (ct_loaded_at self) i age;
           ret (self\<lparr>ct_loaded_at := loaded_at\<rparr>)
         } else ret self
     | _ \<Rightarrow> ret self
   }"

definition inherit_ages_from :: "config_table \<Rightarrow> config_table \<Rightarrow> config_table run" where
  "inherit_ages_from self prev = do {
     self \<leftarrow> foldM (inherit_slot prev) self [0..<7];
     case (ct_retry self, ct_retry prev) of
       (Some new_retry, Some old_retry) \<Rightarrow>
         ret (self\<lparr>ct_retry := Some (inherit_age_from new_retry old_retry)\<rparr>)
     | _ \<Rightarrow> ret self
   }"

definition nth_opt :: "'a list \<Rightarrow> nat \<Rightarrow> 'a option" where
  "nth_opt xs i = (if i < length xs then Some (xs ! i) else None)"

definition loaded_at :: "config_table \<Rightarrow> u8 \<Rightarrow> instant option" where
  "loaded_at t config_id = (case nth_opt (ct_loaded_at t) (unat config_id) of Some x \<Rightarrow> x | None \<Rightarrow> None)"

definition get :: "config_table \<Rightarrow> u8 \<Rightarrow> route_config option" where
  "get t config_id = (case nth_opt (ct_slots t) (unat config_id) of Some x \<Rightarrow> x | None \<Rightarrow> None)"

definition configs :: "config_table \<Rightarrow> route_config list" where
  "configs t = List.map_filter id (ct_slots t)"

definition fallback_cid_length :: "config_table \<Rightarrow> u8 option" where
  "fallback_cid_length t = (case configs t of [] \<Rightarrow> None | c # _ \<Rightarrow> Some (cid_length c))"

definition has_draining_servers :: "config_table \<Rightarrow> bool" where
  "has_draining_servers t = list_ex (\<lambda>c. list_ex srv_draining (rc_servers c)) (configs t)"

definition has_unresolved_macs :: "config_table \<Rightarrow> bool" where
  "has_unresolved_macs t = list_ex (\<lambda>c. list_ex (\<lambda>s. srv_mac s = None) (rc_servers c)) (configs t)"

definition unresolved_macs_count :: "config_table \<Rightarrow> nat" where
  "unresolved_macs_count t = length (filter (\<lambda>s. srv_mac s = None) (concat (map rc_servers (configs t))))"

definition eligible :: "server \<Rightarrow> bool" where
  "eligible s \<longleftrightarrow> srv_healthy s \<and> srv_mac s \<noteq> None \<and> \<not> srv_draining s"

definition push_fallback :: "server list \<Rightarrow> server \<Rightarrow> server list" where
  "push_fallback pool server =
     (if eligible server \<and> \<not> list_ex (\<lambda>s. srv_address s = srv_address server) pool
      then pool @ [server] else pool)"

definition rebuild_fallback_servers :: "config_table \<Rightarrow> config_table" where
  "rebuild_fallback_servers t =
     t\<lparr>ct_fallback_servers := foldl (\<lambda>pool c. foldl push_fallback pool (rc_servers c)) [] (configs t)\<rparr>"

text \<open>\<open>lookup_config\<close> of the daemon's \<open>cid.rs\<close>.\<close>

definition lookup_config :: "bytes \<Rightarrow> config_table \<Rightarrow> (bytes \<times> route_config) option run" where
  "lookup_config quic table =
     opt_bind (first_cid_octet quic) (\<lambda>first_octet.
       let config_id = drop_bit 5 first_octet in
       if config_id = 7 then ret None
       else opt_bind (ret (get table config_id)) (\<lambda>config.
              opt_bind (extract_raw_dcid quic (cid_length config)) (\<lambda>dcid.
                ret (Some (dcid, config)))))"

section \<open>Well-formed tables\<close>

definition slot_wf :: "(bytes \<Rightarrow> aes128) \<Rightarrow> nat \<Rightarrow> route_config option \<Rightarrow> bool" where
  "slot_wf aes_new i slot \<longleftrightarrow> (\<forall>rc. slot = Some rc \<longrightarrow> route_wf aes_new rc \<and> unat (rc_config_id rc) = i)"

definition table_wf :: "(bytes \<Rightarrow> aes128) \<Rightarrow> config_table \<Rightarrow> bool" where
  "table_wf aes_new t \<longleftrightarrow>
     length (ct_slots t) = 7 \<and> length (ct_loaded_at t) = 7 \<and>
     (\<forall>i < 7. slot_wf aes_new i (ct_slots t ! i) \<and>
        (ct_slots t ! i = None \<longleftrightarrow> ct_loaded_at t ! i = None)) \<and>
     (\<forall>s \<in> set (ct_fallback_servers t). \<exists>m. srv_mac s = Some m \<and> mac_wf m) \<and>
     (\<forall>rt. ct_retry t = Some rt \<longrightarrow> retry_wf rt)"

definition slots_of :: "route_config list \<Rightarrow> route_config option list" where
  "slots_of rcs = map (\<lambda>i. find (\<lambda>rc. unat (rc_config_id rc) = i) rcs) [0..<7]"

lemma find_append: "find P (xs @ ys) = (case find P xs of Some x \<Rightarrow> Some x | None \<Rightarrow> find P ys)"
  by (induction xs) auto

lemma find_unique_id:
  "distinct (map rc_config_id rcs) \<Longrightarrow>
     find (\<lambda>rc. unat (rc_config_id rc) = i) rcs = Some rc \<longleftrightarrow> rc \<in> set rcs \<and> unat (rc_config_id rc) = i"
  by (induction rcs) (auto simp: word_unat_eq_iff)

lemma fill_slots_eq:
  "distinct (map rc_config_id rcs) \<Longrightarrow> \<forall>rc \<in> set rcs. unat (rc_config_id rc) < 7 \<Longrightarrow>
     fill_slots now rcs = Some (slots_of rcs, map (map_option (\<lambda>_. now)) (slots_of rcs))"
proof (induction rcs rule: rev_induct)
  case Nil
  then show ?case by (simp add: fill_slots_def slots_of_def map_replicate_const)
next
  case (snoc rc rcs)
  let ?k = "unat (rc_config_id rc)"
  have none: "find (\<lambda>rc. unat (rc_config_id rc) = ?k) rcs = None"
    using snoc.prems by (auto simp: find_None_iff word_unat_eq_iff [symmetric] image_iff)
  have upd: "(slots_of rcs)[?k := Some rc] = slots_of (rcs @ [rc])"
    using snoc.prems none
    by (intro nth_equalityI) (auto simp: slots_of_def find_append nth_list_update split: option.splits)
  have "(map (map_option (\<lambda>_. now)) (slots_of rcs))[?k := Some now] =
      map (map_option (\<lambda>_. now)) (slots_of (rcs @ [rc]))"
    unfolding upd [symmetric] by (simp add: map_update)
  with snoc upd show ?case
    by (simp add: fill_slots_def foldM_append slots_of_def)
qed

lemma from_str_Inr:
  assumes "from_str aes_new toml toml_retry text now fresh = Some (Inr t)"
  shows "\<exists>rcs. parse_routes aes_new toml text = Some (Inr rcs) \<and>
      fill_slots now rcs = Some (ct_slots t, ct_loaded_at t)"
    and "ct_fallback_servers t = []" and "ct_path t = []"
    and "ct_retry t = Some rt \<Longrightarrow> \<exists>raw. retry_validate raw now fresh = Some (Inr rt)"
  using assms
  by (auto simp: from_str_def split: prod.splits option.splits) blast

lemma length_slots_of [simp]: "length (slots_of rcs) = 7"
  by (simp add: slots_of_def)

lemma from_str_slots:
  assumes "from_str aes_new toml toml_retry text now fresh = Some (Inr t)"
  obtains rcs where "parse_routes aes_new toml text = Some (Inr rcs)" "ct_slots t = slots_of rcs"
    "ct_loaded_at t = map (map_option (\<lambda>_. now)) (slots_of rcs)"
    "distinct (map rc_config_id rcs)" "\<forall>rc \<in> set rcs. route_wf aes_new rc \<and> unat (rc_config_id rc) < 7"
proof -
  obtain rcs where rcs: "parse_routes aes_new toml text = Some (Inr rcs)"
      "fill_slots now rcs = Some (ct_slots t, ct_loaded_at t)"
    using from_str_Inr(1) [OF assms] by blast
  note res = parse_routes_result [OF rcs(1)]
  then have "\<forall>rc \<in> set rcs. route_wf aes_new rc \<and> unat (rc_config_id rc) < 7"
    by (auto simp: list_all_iff route_wf_def word_le_nat_alt)
  with res rcs fill_slots_eq [of rcs now] that show ?thesis by auto
qed

lemma slots_of_Some:
  "distinct (map rc_config_id rcs) \<Longrightarrow> i < 7 \<Longrightarrow>
     slots_of rcs ! i = Some rc \<longleftrightarrow> rc \<in> set rcs \<and> unat (rc_config_id rc) = i"
  by (simp add: slots_of_def find_unique_id)

lemma from_str_result:
  assumes "from_str aes_new toml toml_retry text now fresh = Some (Inr t)"
  shows "table_wf aes_new t \<and> ct_fallback_servers t = [] \<and> configs t \<noteq> [] \<and>
    (\<exists>rcs. parse_routes aes_new toml text = Some (Inr rcs) \<and>
       (\<forall>k rc. get t k = Some rc \<longleftrightarrow> rc \<in> set rcs \<and> rc_config_id rc = k))"
proof -
  obtain rcs where rcs: "parse_routes aes_new toml text = Some (Inr rcs)"
      and t: "ct_slots t = slots_of rcs" "ct_loaded_at t = map (map_option (\<lambda>_. now)) (slots_of rcs)"
      and dist: "distinct (map rc_config_id rcs)"
      and wf: "\<forall>rc \<in> set rcs. route_wf aes_new rc \<and> unat (rc_config_id rc) < 7"
    by (rule from_str_slots [OF assms])
  have empty: "ct_fallback_servers t = []" by (rule from_str_Inr(2) [OF assms])
  have retry: "retry_wf rt" if "ct_retry t = Some rt" for rt
    using from_str_Inr(4) [OF assms that] retry_validate_result by blast
  have get: "get t k = Some rc \<longleftrightarrow> rc \<in> set rcs \<and> rc_config_id rc = k" for k rc
    using wf by (auto simp: get_def nth_opt_def t slots_of_Some [OF dist] word_unat_eq_iff)
  obtain rc where rc: "rc \<in> set rcs" using parse_routes_result [OF rcs] by (cases rcs) auto
  then have "Some rc \<in> set (ct_slots t)"
    using slots_of_Some [OF dist] wf t by (metis length_slots_of nth_mem)
  then have "configs t \<noteq> []" by (force simp: configs_def List.map_filter_def filter_empty_conv)
  moreover have "table_wf aes_new t"
    using wf retry by (auto simp: table_wf_def t slot_wf_def slots_of_Some [OF dist] empty)
  ultimately show ?thesis using rcs get empty by blast
qed

text \<open>
  A table parsed from text is well formed: it has seven slots, slot \<open>i\<close> holds only a validated entry
  with config id \<open>i\<close>, a key timestamp is present exactly for the populated slots, the retry section is
  well formed, and the fallback pool is still empty. Looking up a config id returns exactly the entry
  of the file with that id, and at least one slot is populated.
\<close>

lemma from_str_wf:
  assumes "from_str aes_new toml toml_retry text now fresh = Some (Inr t)"
  shows "table_wf aes_new t \<and> ct_fallback_servers t = [] \<and> configs t \<noteq> [] \<and>
    (\<exists>rcs. parse_routes aes_new toml text = Some (Inr rcs) \<and>
       (\<forall>k rc. get t k = Some rc \<longleftrightarrow> rc \<in> set rcs \<and> rc_config_id rc = k))"
  using from_str_result [OF assms] .

section \<open>The fallback pool\<close>

definition all_servers :: "config_table \<Rightarrow> server list" where
  "all_servers t = concat (map rc_servers (configs t))"

lemma rebuild_flat: "rebuild_fallback_servers t = t\<lparr>ct_fallback_servers := foldl push_fallback [] (all_servers t)\<rparr>"
proof -
  have "foldl (\<lambda>pool c. foldl push_fallback pool (rc_servers c)) pool cs =
      foldl push_fallback pool (concat (map rc_servers cs))" for pool and cs :: "route_config list"
    by (induction cs arbitrary: pool) auto
  then show ?thesis by (simp add: rebuild_fallback_servers_def all_servers_def)
qed

text \<open>
  What the pool is of a list of servers: eligible members of it with pairwise different addresses, and
  an address of every eligible one.
\<close>

definition pool_of :: "server list \<Rightarrow> server list \<Rightarrow> bool" where
  "pool_of ss pool \<longleftrightarrow>
     set pool \<subseteq> {s \<in> set ss. eligible s} \<and> distinct (map srv_address pool) \<and>
     srv_address ` set pool = srv_address ` {s \<in> set ss. eligible s}"

lemma pool_of_push:
  assumes "pool_of ss pool"
  shows "pool_of (ss @ [s]) (push_fallback pool s)"
proof -
  have split: "{x \<in> set (ss @ [s]). eligible x} = {x \<in> set ss. eligible x} \<union> (if eligible s then {s} else {})"
    by auto
  have "list_ex (\<lambda>x. srv_address x = srv_address s) pool \<longleftrightarrow> srv_address s \<in> srv_address ` set pool"
    by (simp add: list_ex_iff image_iff) metis
  with assms show ?thesis
    unfolding pool_of_def split push_fallback_def by (auto simp: insert_absorb)
qed

lemma pool_of_foldl: "pool_of ss (foldl push_fallback [] ss)"
  by (induction ss rule: rev_induct) (simp_all add: pool_of_push, simp add: pool_of_def)

text \<open>
  Rebuilding the fallback pool yields exactly the healthy, non-draining servers with a resolved MAC,
  once per address: every pool member is such a server of an active config, no two members share an
  address, every such server's address is represented, and nothing else of the table changes.
\<close>

lemma rebuild_fallback_servers_pool:
  "pool_of (all_servers t) (ct_fallback_servers (rebuild_fallback_servers t)) \<and>
   rebuild_fallback_servers t = t\<lparr>ct_fallback_servers := ct_fallback_servers (rebuild_fallback_servers t)\<rparr> \<and>
   rebuild_fallback_servers (rebuild_fallback_servers t) = rebuild_fallback_servers t"
proof -
  have "all_servers (t\<lparr>ct_fallback_servers := x\<rparr>) = all_servers t" for x
    by (simp add: all_servers_def configs_def)
  then show ?thesis by (simp add: rebuild_flat pool_of_foldl)
qed

lemma configs_mem: "rc \<in> set (configs t) \<longleftrightarrow> Some rc \<in> set (ct_slots t)"
  by (force simp: configs_def List.map_filter_def image_iff)

lemma table_wf_configs:
  assumes "table_wf aes_new t" "rc \<in> set (configs t)"
  shows "route_wf aes_new rc"
proof -
  have "Some rc \<in> set (ct_slots t)" using assms(2) by (simp add: configs_mem)
  moreover have "length (ct_slots t) = 7" using assms(1) by (simp add: table_wf_def)
  ultimately obtain i where "i < 7" "ct_slots t ! i = Some rc" by (auto simp: in_set_conv_nth)
  with assms(1) show ?thesis by (auto simp: table_wf_def slot_wf_def)
qed

lemma rebuild_table_wf:
  assumes "table_wf aes_new t"
  shows "table_wf aes_new (rebuild_fallback_servers t)"
proof -
  have "\<exists>m. srv_mac s = Some m \<and> mac_wf m" if "s \<in> set (foldl push_fallback [] (all_servers t))" for s
  proof -
    from that pool_of_foldl [of "all_servers t"] have "s \<in> set (all_servers t)" "eligible s"
      by (auto simp: pool_of_def)
    moreover from this obtain rc where "rc \<in> set (configs t)" "s \<in> set (rc_servers rc)"
      by (auto simp: all_servers_def)
    ultimately show ?thesis
      using table_wf_configs [OF assms] by (auto simp: route_wf_def list_all_iff server_wf_def eligible_def)
  qed
  with assms show ?thesis by (simp add: rebuild_flat table_wf_def)
qed

section \<open>Key ages across a reload\<close>

definition age_of :: "config_table \<Rightarrow> config_table \<Rightarrow> nat \<Rightarrow> instant option" where
  "age_of self prev i =
     (case (ct_slots self ! i, ct_slots prev ! i) of
        (Some new, Some old) \<Rightarrow>
          if same_key (rc_encryption new) (rc_encryption old) then ct_loaded_at prev ! i else ct_loaded_at self ! i
      | _ \<Rightarrow> ct_loaded_at self ! i)"

lemma inherit_ages_step:
  assumes "length (ct_slots self) = 7" "length (ct_loaded_at self) = 7"
    "length (ct_slots prev) = 7" "length (ct_loaded_at prev) = 7" "n \<le> 7"
  shows "foldM (inherit_slot prev) self [0..<n] =
    Some (self\<lparr>ct_loaded_at := map (age_of self prev) [0..<n] @ drop n (ct_loaded_at self)\<rparr>)"
  using assms(5)
proof (induction n)
  case (Suc n)
  let ?pre = "map (age_of self prev) [0..<n]"
  have rest: "drop n (ct_loaded_at self) = ct_loaded_at self ! n # drop (Suc n) (ct_loaded_at self)"
    using Suc.prems assms(2) by (simp add: Cons_nth_drop_Suc)
  have upd: "(?pre @ ct_loaded_at self ! n # drop (Suc n) (ct_loaded_at self))[n := x] =
      ?pre @ x # drop (Suc n) (ct_loaded_at self)" for x
    using list_update_length [of ?pre] by simp
  show ?case
    using Suc assms(1-4)
    by (auto simp: foldM_append inherit_slot_def rest upd age_of_def [of self prev n] split: option.splits)
qed (use assms in simp)

lemma inherit_ages_result:
  assumes "table_wf aes_new self" "table_wf aes_new prev"
  shows "\<exists>t. inherit_ages_from self prev = Some t \<and> table_wf aes_new t \<and>
    t = self\<lparr>ct_loaded_at := ct_loaded_at t, ct_retry := ct_retry t\<rparr> \<and>
    (\<forall>i < 7. ct_loaded_at t ! i = age_of self prev i) \<and>
    (case (ct_retry self, ct_retry prev) of
       (Some new, Some old) \<Rightarrow>
         ct_retry t = Some (new\<lparr>rt_loaded_at := if token_same_key (rt_token_key new) (rt_token_key old)
                                               then rt_loaded_at old else rt_loaded_at new\<rparr>)
     | _ \<Rightarrow> ct_retry t = ct_retry self)"
proof -
  have lens: "length (ct_slots self) = 7" "length (ct_loaded_at self) = 7"
      "length (ct_slots prev) = 7" "length (ct_loaded_at prev) = 7"
    using assms by (simp_all add: table_wf_def)
  define ages where "ages = map (age_of self prev) [0..<7]"
  have nth: "ages ! i = age_of self prev i" if "i < 7" for i using that by (simp add: ages_def)
  have "ct_slots self ! i = None \<longleftrightarrow> age_of self prev i = None" if "i < 7" for i
    using assms that by (auto simp: table_wf_def age_of_def split: option.splits)
  then have wf: "table_wf aes_new (self\<lparr>ct_loaded_at := ages, ct_retry := rt\<rparr>)"
    if "\<forall>r. rt = Some r \<longrightarrow> retry_wf r" for rt
    using assms(1) that nth by (auto simp: table_wf_def ages_def)
  have retry: "\<forall>r. ct_retry self = Some r \<longrightarrow> retry_wf r" using assms(1) by (simp add: table_wf_def)
  show ?thesis
    using inherit_ages_step [OF lens, of 7] lens wf [of "ct_retry self"] retry nth
      wf [of "Some (inherit_age_from (the (ct_retry self)) (the (ct_retry prev)))"]
    by (auto simp: inherit_ages_from_def inherit_age_from_def retry_wf_def ages_def split: option.splits)
qed

text \<open>
  Carrying key ages over a reload never panics on well-formed tables, changes nothing but the
  timestamps, and moves a slot's timestamp back to the previous table's exactly when both tables have an
  entry there with the same key in the same mode; otherwise the fresh timestamp stands. The retry key's
  age follows the same rule.
\<close>

lemma inherit_ages_from_ages:
  assumes "table_wf aes_new self" "table_wf aes_new prev"
  shows "\<exists>t. inherit_ages_from self prev = Some t \<and> table_wf aes_new t \<and>
    t = self\<lparr>ct_loaded_at := ct_loaded_at t, ct_retry := ct_retry t\<rparr> \<and>
    (\<forall>i < 7. ct_loaded_at t ! i = age_of self prev i) \<and>
    (case (ct_retry self, ct_retry prev) of
       (Some new, Some old) \<Rightarrow>
         ct_retry t = Some (new\<lparr>rt_loaded_at := if token_same_key (rt_token_key new) (rt_token_key old)
                                               then rt_loaded_at old else rt_loaded_at new\<rparr>)
     | _ \<Rightarrow> ct_retry t = ct_retry self)"
  using inherit_ages_result [OF assms] .

section \<open>Config lookup\<close>

lemma table_wf_get:
  "table_wf aes_new t \<Longrightarrow> get t k = Some rc \<Longrightarrow> rc \<in> set (configs t) \<and> route_wf aes_new rc \<and> rc_config_id rc = k"
  by (auto simp: get_def nth_opt_def configs_mem table_wf_def slot_wf_def word_unat_eq_iff
      split: if_splits option.splits) (metis nth_mem)

lemma lookup_config_total: "\<exists>r. lookup_config quic t = Some r"
  unfolding lookup_config_def Let_def
  by (auto intro!: opt_bind_no_panic first_cid_octet_total extract_raw_dcid_total)

lemma lookup_config_Some:
  assumes "table_wf aes_new t" "lookup_config quic t = Some (Some (dcid, rc))"
  shows "rc \<in> set (configs t)" "route_wf aes_new rc" "dcid \<noteq> []" "drop_bit 5 (hd dcid) = rc_config_id rc"
proof -
  from assms(2) obtain b where b: "first_cid_octet quic = Some (Some b)" "get t (drop_bit 5 b) = Some rc"
      and d: "extract_raw_dcid quic (cid_length rc) = Some (Some dcid)"
    by (auto simp: lookup_config_def Let_def split: if_splits)
  from table_wf_get [OF assms(1) b(2)]
  have rc: "rc \<in> set (configs t)" "route_wf aes_new rc" "rc_config_id rc = drop_bit 5 b" by simp_all
  from d have ne: "dcid \<noteq> []"
    by (auto simp: extract_raw_dcid_def Let_def split: if_splits option.splits)
  have "hd dcid = b"
    using b(1) d ne
    by (auto simp: first_cid_octet_def extract_raw_dcid_def Let_def hd_drop_conv_nth hd_take
        split: if_splits option.splits)
  with rc ne show "rc \<in> set (configs t)" "route_wf aes_new rc" "dcid \<noteq> []"
      "drop_bit 5 (hd dcid) = rc_config_id rc"
    by simp_all
qed

section \<open>A concrete table\<close>

definition sample_table :: "instant \<Rightarrow> config_table" where
  "sample_table now = \<lparr>ct_path = [],
     ct_slots = [None, None, Some sample_rc, None, None, None, None],
     ct_loaded_at = [None, None, Some now, None, None, None, None],
     ct_fallback_servers = [], ct_retry = Some (sample_retry\<lparr>rt_loaded_at := now\<rparr>)\<rparr>"

definition sample_toml_retry :: "string \<Rightarrow> string + raw_retry option" where
  "sample_toml_retry text = Inr (Some sample_raw_retry)"

lemma sample_rc_id: "rc_config_id sample_rc = 2"
  by (simp add: sample_rc_def)

lemma replicate_7: "replicate 7 x = [x, x, x, x, x, x, x]"
  by (simp add: eval_nat_numeral)

lemma sample_table_parses:
  "from_str xor_cipher sample_toml sample_toml_retry [] now 0 = Some (Inr (sample_table now))"
proof -
  have "retry_validate sample_raw_retry now 0 = Some (Inr (sample_retry\<lparr>rt_loaded_at := now\<rparr>))"
    by (simp add: retry_validate_def sample_raw_retry_def sample_retry_def parse_hex_retry_key_def hex.dec_enc)
  moreover have "fill_slots now [sample_rc] = Some (ct_slots (sample_table now), ct_loaded_at (sample_table now))"
    using sample_rc_id by (simp add: fill_slots_def sample_table_def replicate_7)
  ultimately show ?thesis
    by (simp add: from_str_def sample_parses sample_toml_retry_def) (simp add: sample_table_def)
qed

lemma sample_table_wf: "table_wf xor_cipher (sample_table now)"
  using from_str_result [OF sample_table_parses] by simp

end
