(* ===== verification/Conn_Table.thy ===== *)
theory Conn_Table
  imports Ip_Addr
begin

text \<open>
  \<open>pesigitg-daemon/src/conntable.rs\<close>: the per-worker table that keeps flows with undecodable connection
  ids on one backend. Hash maps are partial functions. The contract its client relies on is the locale
  \<open>sticky_table\<close>, in which stickiness over arbitrary sequences of operations is proved once; the table
  is its interpretation.
\<close>

section \<open>Data and operations\<close>

definition ENTRY_TTL :: nat where "ENTRY_TTL = secs 5"
definition SWEEP_INTERVAL :: nat where "SWEEP_INTERVAL = secs 5"

record flow_key =
  fk_src_addr :: ip_addr
  fk_dst_addr :: ip_addr
  fk_src_port :: u16
  fk_dst_port :: u16

record dcid_key =
  dk_len :: u8
  dk_bytes :: bytes

definition dcid_from_slice :: "bytes \<Rightarrow> dcid_key run" where
  "dcid_from_slice dcid = do {
     let len = min (length dcid) 20;
     src \<leftarrow> slice dcid 0 len;
     bytes \<leftarrow> copy_into (replicate 20 0) 0 len src;
     ret \<lparr>dk_len = of_nat len, dk_bytes = bytes\<rparr>
   }"

record entry =
  e_mac :: bytes
  e_expires :: instant

definition entry_new :: "bytes \<Rightarrow> instant \<Rightarrow> entry" where
  "entry_new mac now = \<lparr>e_mac = mac, e_expires = now + ENTRY_TTL\<rparr>"

definition is_expired :: "entry \<Rightarrow> instant \<Rightarrow> bool" where
  "is_expired e now \<longleftrightarrow> now \<ge> e_expires e"

record connection_table =
  by_flow :: "flow_key \<rightharpoonup> entry"
  by_dcid :: "dcid_key \<rightharpoonup> entry"
  last_sweep :: instant

definition conn_new :: "instant \<Rightarrow> connection_table" where
  "conn_new now = \<lparr>by_flow = Map.empty, by_dcid = Map.empty, last_sweep = now\<rparr>"

definition conn_lookup :: "connection_table \<Rightarrow> flow_key \<Rightarrow> dcid_key option \<Rightarrow> instant \<Rightarrow> bytes option" where
  "conn_lookup t flow dcid now =
     (case (case by_flow t flow of
              Some entry \<Rightarrow> if \<not> is_expired entry now then Some (e_mac entry) else None
            | None \<Rightarrow> None) of
        Some mac \<Rightarrow> Some mac
      | None \<Rightarrow>
          (case dcid of
             None \<Rightarrow> None
           | Some key \<Rightarrow>
               (case by_dcid t key of
                  Some entry \<Rightarrow> if \<not> is_expired entry now then Some (e_mac entry) else None
                | None \<Rightarrow> None)))"

definition conn_insert ::
  "connection_table \<Rightarrow> flow_key \<Rightarrow> dcid_key option \<Rightarrow> bytes \<Rightarrow> instant \<Rightarrow> connection_table" where
  "conn_insert t flow dcid mac now =
     (let t = t\<lparr>by_flow := (by_flow t)(flow \<mapsto> entry_new mac now)\<rparr> in
      case dcid of
        Some key \<Rightarrow> t\<lparr>by_dcid := (by_dcid t)(key \<mapsto> entry_new mac now)\<rparr>
      | None \<Rightarrow> t)"

definition record_dcid :: "connection_table \<Rightarrow> dcid_key \<Rightarrow> bytes \<Rightarrow> instant \<Rightarrow> connection_table" where
  "record_dcid t dcid mac now = t\<lparr>by_dcid := (by_dcid t)(dcid \<mapsto> entry_new mac now)\<rparr>"

definition retain :: "instant \<Rightarrow> ('k \<rightharpoonup> entry) \<Rightarrow> ('k \<rightharpoonup> entry)" where
  "retain now m = (\<lambda>k. case m k of Some e \<Rightarrow> if is_expired e now then None else Some e | None \<Rightarrow> None)"

definition maybe_sweep :: "connection_table \<Rightarrow> instant \<Rightarrow> connection_table" where
  "maybe_sweep t now =
     (if duration_since now (last_sweep t) < SWEEP_INTERVAL then t
      else \<lparr>by_flow = retain now (by_flow t), by_dcid = retain now (by_dcid t), last_sweep = now\<rparr>)"

text \<open>The operations a worker performs, as a sequence.\<close>

datatype ('f, 'd) conn_op =
    Insert 'f "'d option" bytes instant
  | RecordDcid 'd bytes instant
  | Sweep instant

fun op_time :: "('f, 'd) conn_op \<Rightarrow> instant" where
  "op_time (Insert _ _ _ now) = now"
| "op_time (RecordDcid _ _ now) = now"
| "op_time (Sweep now) = now"

fun writes_flow :: "'f \<Rightarrow> ('f, 'd) conn_op \<Rightarrow> bool" where
  "writes_flow f (Insert f' _ _ _) \<longleftrightarrow> f = f'"
| "writes_flow f _ \<longleftrightarrow> False"

fun writes_dcid :: "'d \<Rightarrow> ('f, 'd) conn_op \<Rightarrow> bool" where
  "writes_dcid d (Insert _ d' _ _) \<longleftrightarrow> d' = Some d"
| "writes_dcid d (RecordDcid d' _ _) \<longleftrightarrow> d = d'"
| "writes_dcid d (Sweep _) \<longleftrightarrow> False"

fun op_mac :: "('f, 'd) conn_op \<Rightarrow> bytes option" where
  "op_mac (Insert _ _ m _) = Some m"
| "op_mac (RecordDcid _ m _) = Some m"
| "op_mac (Sweep _) = None"

fun conn_step :: "connection_table \<Rightarrow> (flow_key, dcid_key) conn_op \<Rightarrow> connection_table" where
  "conn_step t (Insert f d m now) = conn_insert t f d m now"
| "conn_step t (RecordDcid d m now) = record_dcid t d m now"
| "conn_step t (Sweep now) = maybe_sweep t now"

section \<open>The contract of a sticky table\<close>

text \<open>
  \<open>lookup t f d now\<close> prefers a live flow entry and falls back to the connection id; an insertion is
  visible for \<open>ttl\<close>, does not disturb other keys, and sweeping at a time is invisible from then on.
\<close>

locale sticky_table =
  fixes lookup :: "'t \<Rightarrow> 'f \<Rightarrow> 'd option \<Rightarrow> instant \<Rightarrow> bytes option"
    and step :: "'t \<Rightarrow> ('f, 'd) conn_op \<Rightarrow> 't"
    and ttl :: nat
  assumes lookup_inserted: "now' < now + ttl \<Longrightarrow> lookup (step t (Insert f e m now)) f e' now' = Some m"
    and lookup_other: "\<not> writes_flow f x \<Longrightarrow> op_time x \<le> now \<Longrightarrow> lookup (step t x) f None now = lookup t f None now"
    and lookup_flow_first: "lookup t f None now = Some m \<Longrightarrow> lookup t f e now = Some m"
    and lookup_recorded: "lookup t f None now' = None \<Longrightarrow> writes_dcid d x \<Longrightarrow> \<not> writes_flow f x \<Longrightarrow>
      op_mac x = Some m \<Longrightarrow> op_time x \<le> now' \<Longrightarrow> now' < op_time x + ttl \<Longrightarrow> lookup (step t x) f (Some d) now' = Some m"
    and lookup_other_dcid: "lookup t f None now = None \<Longrightarrow> \<not> writes_flow f x \<Longrightarrow> \<not> writes_dcid d x \<Longrightarrow>
      op_time x \<le> now \<Longrightarrow> lookup (step t x) f (Some d) now = lookup t f (Some d) now"
begin

lemma flow_unchanged:
  "(\<forall>x \<in> set ops. \<not> writes_flow f x \<and> op_time x \<le> now) \<Longrightarrow>
     lookup (foldl step t ops) f None now = lookup t f None now"
  by (induction ops rule: rev_induct) (auto simp: lookup_other)

lemma flow_sticky:
  assumes "\<forall>x \<in> set ops. \<not> writes_flow f x \<and> op_time x \<le> now'" "now' < now + ttl"
  shows "lookup (foldl step (step t (Insert f d m now)) ops) f d' now' = Some m"
  by (rule lookup_flow_first) (simp add: flow_unchanged [OF assms(1)] lookup_inserted [OF assms(2)])

lemma dcid_unchanged:
  "(\<forall>x \<in> set ops. \<not> writes_flow f x \<and> \<not> writes_dcid d x \<and> op_time x \<le> now) \<Longrightarrow> lookup t f None now = None \<Longrightarrow>
     lookup (foldl step t ops) f (Some d) now = lookup t f (Some d) now"
proof (induction ops rule: rev_induct)
  case (snoc x ops)
  then have "lookup (foldl step t ops) f None now = None" by (subst flow_unchanged) auto
  with snoc show ?case by (simp add: lookup_other_dcid)
qed simp

lemma dcid_sticky:
  assumes "writes_dcid d x" "op_mac x = Some m" "\<not> writes_flow f x"
    and "\<forall>y \<in> set ops. \<not> writes_flow f y \<and> \<not> writes_dcid d y \<and> op_time y \<le> now"
    and "lookup t f None now = None" "op_time x \<le> now" "now < op_time x + ttl"
  shows "lookup (foldl step (step t x) ops) f (Some d) now = Some m"
proof -
  have "lookup (step t x) f None now = None" using assms by (simp add: lookup_other)
  with assms show ?thesis by (simp add: dcid_unchanged lookup_recorded)
qed

end

section \<open>The connection table meets it\<close>

text \<open>The live view of an index: the MAC a key resolves to at a time.\<close>

definition live :: "('k \<rightharpoonup> entry) \<Rightarrow> 'k \<Rightarrow> instant \<Rightarrow> bytes option" where
  "live m k now = (case m k of Some e \<Rightarrow> if \<not> is_expired e now then Some (e_mac e) else None | None \<Rightarrow> None)"

lemma conn_lookup_live:
  "conn_lookup t f d now =
     (case live (by_flow t) f now of
        Some mac \<Rightarrow> Some mac
      | None \<Rightarrow> (case d of None \<Rightarrow> None | Some key \<Rightarrow> live (by_dcid t) key now))"
  by (simp add: conn_lookup_def live_def split: option.splits)

lemma live_update [simp]:
  "live (m(k \<mapsto> entry_new mac t0)) k' now =
     (if k = k' then if now < t0 + ENTRY_TTL then Some mac else None else live m k' now)"
  by (auto simp: live_def is_expired_def entry_new_def)

lemma live_retain: "now \<le> now' \<Longrightarrow> live (retain now m) k now' = live m k now'"
  by (auto simp: live_def retain_def is_expired_def split: option.splits)

lemma conn_insert_indexes [simp]:
  "by_flow (conn_insert t f d m now) = (by_flow t)(f \<mapsto> entry_new m now)"
  "by_dcid (conn_insert t f d m now) =
     (case d of None \<Rightarrow> by_dcid t | Some key \<Rightarrow> (by_dcid t)(key \<mapsto> entry_new m now))"
  by (simp_all add: conn_insert_def Let_def split: option.splits)

lemma record_dcid_indexes [simp]:
  "by_flow (record_dcid t d m now) = by_flow t"
  "by_dcid (record_dcid t d m now) = (by_dcid t)(d \<mapsto> entry_new m now)"
  by (simp_all add: record_dcid_def)

lemma live_sweep [simp]:
  "now \<le> now' \<Longrightarrow> live (by_flow (maybe_sweep t now)) f now' = live (by_flow t) f now'"
  "now \<le> now' \<Longrightarrow> live (by_dcid (maybe_sweep t now)) d now' = live (by_dcid t) d now'"
  by (simp_all add: maybe_sweep_def live_retain)

interpretation ct: sticky_table conn_lookup conn_step ENTRY_TTL
proof
  fix t :: connection_table and f e m now e' now'
  show "now' < now + ENTRY_TTL \<Longrightarrow> conn_lookup (conn_step t (Insert f e m now)) f e' now' = Some m"
    by (simp add: conn_lookup_live)
next
  fix t f x now
  show "\<not> writes_flow f x \<Longrightarrow> op_time x \<le> now \<Longrightarrow> conn_lookup (conn_step t x) f None now = conn_lookup t f None now"
    by (cases x) (auto simp: conn_lookup_live split: option.splits)
next
  fix t f now m e
  show "conn_lookup t f None now = Some m \<Longrightarrow> conn_lookup t f e now = Some m"
    by (simp add: conn_lookup_live split: option.splits)
next
  fix t f now' d x m
  show "conn_lookup t f None now' = None \<Longrightarrow> writes_dcid d x \<Longrightarrow> \<not> writes_flow f x \<Longrightarrow> op_mac x = Some m \<Longrightarrow>
      op_time x \<le> now' \<Longrightarrow> now' < op_time x + ENTRY_TTL \<Longrightarrow> conn_lookup (conn_step t x) f (Some d) now' = Some m"
    by (cases x) (auto simp: conn_lookup_live split: option.splits)
next
  fix t f now x d
  show "conn_lookup t f None now = None \<Longrightarrow> \<not> writes_flow f x \<Longrightarrow> \<not> writes_dcid d x \<Longrightarrow> op_time x \<le> now \<Longrightarrow>
      conn_lookup (conn_step t x) f (Some d) now = conn_lookup t f (Some d) now"
    by (cases x) (auto simp: conn_lookup_live split: option.splits)
qed

section \<open>Stickiness of the table\<close>

text \<open>
  A flow stays on its backend: once a fallback decision has been inserted for a flow, every lookup of
  that flow within the entry lifetime returns the same MAC, whatever connection id the packet carries and
  whatever other flows are inserted, connection ids recorded and sweeps run in between.
\<close>

lemma flow_stays:
  assumes "\<forall>x \<in> set ops. \<not> writes_flow f x \<and> op_time x \<le> now'" "now' < now + ENTRY_TTL"
  shows "conn_lookup (foldl conn_step (conn_insert t f d m now) ops) f d' now' = Some m"
  using ct.flow_sticky [OF assms] by simp

text \<open>
  A connection id survives NAT rebinding: after a decision or a CID-routed packet has tied a
  connection id to a backend, a packet from a flow without a live entry that carries this connection id
  within the entry lifetime is sent to the same backend, unless the id is tied anew in between.
\<close>

lemma dcid_survives_rebinding:
  assumes "writes_dcid d x" "op_mac x = Some m" "\<not> writes_flow f x"
    and "\<forall>y \<in> set ops. \<not> writes_flow f y \<and> \<not> writes_dcid d y \<and> op_time y \<le> now"
    and "conn_lookup t f None now = None" "op_time x \<le> now" "now < op_time x + ENTRY_TTL"
  shows "conn_lookup (foldl conn_step (conn_step t x) ops) f (Some d) now = Some m"
  by (rule ct.dcid_sticky [OF assms])

text \<open>Every live entry of a table stems from a recorded operation.\<close>

lemma live_retain_Some: "live (retain now m) k now' = Some mac \<Longrightarrow> live m k now' = Some mac"
  by (auto simp: live_def retain_def split: option.splits if_splits)

lemma live_step:
  "live (by_flow (conn_step t x)) f now = Some m \<Longrightarrow>
     writes_flow f x \<and> op_mac x = Some m \<and> now < op_time x + ENTRY_TTL \<or> live (by_flow t) f now = Some m"
  "live (by_dcid (conn_step t x)) d now = Some m \<Longrightarrow>
     writes_dcid d x \<and> op_mac x = Some m \<and> now < op_time x + ENTRY_TTL \<or> live (by_dcid t) d now = Some m"
  by (cases x; auto simp: maybe_sweep_def dest: live_retain_Some split: if_splits option.splits)+

lemma live_from_ops:
  "live (by_flow (foldl conn_step (conn_new t0) ops)) f now = Some m \<Longrightarrow>
     \<exists>x \<in> set ops. writes_flow f x \<and> op_mac x = Some m \<and> now < op_time x + ENTRY_TTL"
  "live (by_dcid (foldl conn_step (conn_new t0) ops)) d now = Some m \<Longrightarrow>
     \<exists>x \<in> set ops. writes_dcid d x \<and> op_mac x = Some m \<and> now < op_time x + ENTRY_TTL"
  by (induction ops rule: rev_induct) (auto simp: conn_new_def live_def [of Map.empty] dest!: live_step)

text \<open>
  The table never invents or outlives a binding: a lookup that returns a MAC is justified by an
  operation that wrote this MAC for the packet's flow or connection id less than the entry lifetime ago.
\<close>

lemma lookup_justified:
  assumes "conn_lookup (foldl conn_step (conn_new t0) ops) f d now = Some m"
  shows "\<exists>x \<in> set ops. op_mac x = Some m \<and> now < op_time x + ENTRY_TTL \<and>
    (writes_flow f x \<or> (\<exists>k. d = Some k \<and> writes_dcid k x))"
  using assms live_from_ops [of t0 ops]
  by (fastforce simp: conn_lookup_live split: option.splits)

section \<open>Connection id keys\<close>

lemma dcid_from_slice_eq:
  "dcid_from_slice dcid =
     Some \<lparr>dk_len = of_nat (min (length dcid) 20), dk_bytes = take 20 dcid @ replicate (20 - length dcid) 0\<rparr>"
proof (cases "length dcid \<le> 20")
  case True
  then show ?thesis by (simp add: dcid_from_slice_def min_absorb1 Let_def)
next
  case False
  then show ?thesis by (simp add: dcid_from_slice_def min_absorb2 Let_def)
qed

lemma dcid_from_slice_inject: "dcid_from_slice a = dcid_from_slice b \<longleftrightarrow> take 20 a = take 20 b"
proof
  assume eq: "dcid_from_slice a = dcid_from_slice b"
  have "unat (of_nat (min (length xs) 20) :: u8) = min (length xs) 20" for xs :: bytes
    by (rule unat_of_nat_byte) simp
  with eq have len: "length (take 20 a) = length (take 20 b)" by (simp add: dcid_from_slice_eq) metis
  with eq show "take 20 a = take 20 b" by (simp add: dcid_from_slice_eq)
next
  assume eq: "take 20 a = take 20 b"
  then have "min (length a) 20 = min (length b) 20" by (metis length_take)
  moreover from this have "20 - length a = 20 - length b" by linarith
  ultimately show "dcid_from_slice a = dcid_from_slice b" using eq by (simp add: dcid_from_slice_eq)
qed

section \<open>Evaluated instances\<close>

definition sample_flow :: "byte \<Rightarrow> u16 \<Rightarrow> flow_key" where
  "sample_flow host port = \<lparr>fk_src_addr = V4 [10, 0, 0, host], fk_dst_addr = V4 [10, 0, 1, 10], fk_src_port = port, fk_dst_port = 443\<rparr>"

definition sample_dcid :: dcid_key where
  "sample_dcid = the (dcid_from_slice [1, 2, 3])"

end
