(* ===== verification/Packet.thy ===== *)
theory Packet
  imports Config_Table Conn_Table
begin

text \<open>
  \<open>pesigitg-daemon/src/packet.rs\<close>: parsing of Ethernet frames down to the QUIC payload, and the routing
  decision. A frame is the list of its bytes; routing returns the verdict with the rewritten frame and
  the updated connection table. The hash of the third-party hasher over a flow is the parameter
  \<open>fx_hash\<close>.
\<close>

section \<open>Data\<close>

datatype verdict =
    CidForward u8
  | CidForwardDraining u8
  | FallbackForward
  | IcmpForward
  | CidUnroutableNoServer
  | CidUnroutableBadServerId
  | Pass

datatype ip_family = Ipv4 | Ipv6

datatype l4 =
    Udp nat nat u16 u16
  | Icmp nat flow_key

record parsed_frame =
  pf_family :: ip_family
  pf_ip_hdr_len :: nat
  pf_src_mac :: bytes
  pf_src_addr :: ip_addr
  pf_dst_addr :: ip_addr
  pf_l4 :: l4

section \<open>Frame parsing\<close>

definition be16_at :: "bytes \<Rightarrow> nat \<Rightarrow> u16 run" where
  "be16_at frame i = do { a \<leftarrow> idx frame i; b \<leftarrow> idx frame (i + 1); ret (be16 a b) }"

text \<open>\<open>Ipv4Addr::new(frame[i], frame[i + 1], frame[i + 2], frame[i + 3])\<close>.\<close>

definition ipv4_at :: "bytes \<Rightarrow> nat \<Rightarrow> ip_addr run" where
  "ipv4_at frame i = do {
     a \<leftarrow> idx frame i; b \<leftarrow> idx frame (i + 1); c \<leftarrow> idx frame (i + 2); d \<leftarrow> idx frame (i + 3);
     ret (V4 [a, b, c, d])
   }"

definition ipv6_at :: "bytes \<Rightarrow> nat \<Rightarrow> ip_addr run" where
  "ipv6_at frame i = do { os \<leftarrow> slice frame i (i + 16); ret (V6 os) }"

definition parse_frame_icmp_ipv4 ::
  "bytes \<Rightarrow> bytes \<Rightarrow> nat \<Rightarrow> ip_addr \<Rightarrow> ip_addr \<Rightarrow> parsed_frame option run" where
  "parse_frame_icmp_ipv4 frame src_mac outer_ihl src_addr dst_addr =
     (let icmp_offset = ETH_HDR_LEN + outer_ihl in
      if length frame < icmp_offset + ICMP_HDR_LEN then ret None
      else do {
        icmp_type \<leftarrow> idx frame icmp_offset;
        if icmp_type \<noteq> ICMP_DEST_UNREACH \<and> icmp_type \<noteq> ICMP_TIME_EXCEEDED then ret None
        else do {
          let inner_ip_offset = icmp_offset + ICMP_HDR_LEN;
          if length frame < inner_ip_offset + IPV4_MIN_HDR_LEN then ret None
          else do {
            vihl \<leftarrow> idx frame inner_ip_offset;
            let inner_ihl = unat (vihl AND 0x0F) * 4;
            if inner_ihl < IPV4_MIN_HDR_LEN then ret None
            else do {
              proto \<leftarrow> idx frame (inner_ip_offset + 9);
              if proto \<noteq> IPPROTO_UDP then ret None
              else do {
                let inner_udp_offset = inner_ip_offset + inner_ihl;
                let inner_quic_offset = inner_udp_offset + UDP_HDR_LEN;
                if inner_udp_offset + 4 > length frame then ret None
                else do {
                  inner_src \<leftarrow> ipv4_at frame (inner_ip_offset + 12);
                  inner_dst \<leftarrow> ipv4_at frame (inner_ip_offset + 16);
                  inner_src_port \<leftarrow> be16_at frame inner_udp_offset;
                  inner_dst_port \<leftarrow> be16_at frame (inner_udp_offset + 2);
                  ret (Some \<lparr>pf_family = Ipv4, pf_ip_hdr_len = outer_ihl, pf_src_mac = src_mac,
                    pf_src_addr = src_addr, pf_dst_addr = dst_addr,
                    pf_l4 = Icmp inner_quic_offset
                      \<lparr>fk_src_addr = inner_dst, fk_dst_addr = inner_src,
                       fk_src_port = inner_dst_port, fk_dst_port = inner_src_port\<rparr>\<rparr>)
                }
              }
            }
          }
        }
      })"

definition parse_frame_ipv4 :: "bytes \<Rightarrow> bytes \<Rightarrow> parsed_frame option run" where
  "parse_frame_ipv4 frame src_mac =
     (if length frame < ETH_HDR_LEN + IPV4_MIN_HDR_LEN then ret None
      else do {
        vihl \<leftarrow> idx frame ETH_HDR_LEN;
        let ihl = unat (vihl AND 0x0F) * 4;
        if ihl < IPV4_MIN_HDR_LEN then ret None
        else do {
          protocol \<leftarrow> idx frame (ETH_HDR_LEN + 9);
          src_addr \<leftarrow> ipv4_at frame (ETH_HDR_LEN + 12);
          dst_addr \<leftarrow> ipv4_at frame (ETH_HDR_LEN + 16);
          if protocol = IPPROTO_UDP then do {
            let udp_offset = ETH_HDR_LEN + ihl;
            let quic_offset = udp_offset + UDP_HDR_LEN;
            if quic_offset > length frame then ret None
            else do {
              src_port \<leftarrow> be16_at frame udp_offset;
              dst_port \<leftarrow> be16_at frame (udp_offset + 2);
              ret (Some \<lparr>pf_family = Ipv4, pf_ip_hdr_len = ihl, pf_src_mac = src_mac,
                pf_src_addr = src_addr, pf_dst_addr = dst_addr,
                pf_l4 = Udp udp_offset quic_offset src_port dst_port\<rparr>)
            }
          }
          else if protocol = IPPROTO_ICMP then parse_frame_icmp_ipv4 frame src_mac ihl src_addr dst_addr
          else ret None
        }
      })"

text \<open>
  The extension header walk, with at most \<open>n\<close> more iterations; \<open>stop\<close> is the set of protocols at
  which the loop breaks. The outer walk stops at UDP and ICMPv6, the inner one at UDP.
\<close>

fun walk_ext_hdrs :: "(u8 \<Rightarrow> bool) \<Rightarrow> bytes \<Rightarrow> nat \<Rightarrow> u8 \<Rightarrow> nat \<Rightarrow> (u8 \<times> nat) option run" where
  "walk_ext_hdrs stop frame 0 next_hdr offset = ret (Some (next_hdr, offset))"
| "walk_ext_hdrs stop frame (Suc n) next_hdr offset =
     (if stop next_hdr then ret (Some (next_hdr, offset))
      else if next_hdr = IPPROTO_FRAGMENT then
        if offset \<ge> length frame then ret None
        else do {
          nh \<leftarrow> idx frame offset;
          walk_ext_hdrs stop frame n nh (offset + 8)
        }
      else if next_hdr = IPPROTO_HOPOPTS \<or> next_hdr = IPPROTO_ROUTING \<or> next_hdr = IPPROTO_DSTOPTS then
        if offset + 1 \<ge> length frame then ret None
        else do {
          nh \<leftarrow> idx frame offset;
          ext_len \<leftarrow> idx frame (offset + 1);
          walk_ext_hdrs stop frame n nh (offset + (unat ext_len + 1) * 8)
        }
      else ret None)"

definition parse_frame_icmpv6 ::
  "bytes \<Rightarrow> bytes \<Rightarrow> nat \<Rightarrow> ip_addr \<Rightarrow> ip_addr \<Rightarrow> nat \<Rightarrow> parsed_frame option run" where
  "parse_frame_icmpv6 frame src_mac ip_hdr_len src_addr dst_addr icmp_offset =
     (if length frame < icmp_offset + ICMP_HDR_LEN then ret None
      else do {
        icmp_type \<leftarrow> idx frame icmp_offset;
        if icmp_type \<noteq> ICMPV6_DEST_UNREACH \<and> icmp_type \<noteq> ICMPV6_PACKET_TOO_BIG \<and>
           icmp_type \<noteq> ICMPV6_TIME_EXCEEDED then ret None
        else do {
          let inner_ip_offset = icmp_offset + ICMP_HDR_LEN;
          if length frame < inner_ip_offset + IPV6_HDR_LEN then ret None
          else do {
            inner_src_addr \<leftarrow> ipv6_at frame (inner_ip_offset + 8);
            inner_dst_addr \<leftarrow> ipv6_at frame (inner_ip_offset + 24);
            inner_next_hdr \<leftarrow> idx frame (inner_ip_offset + 6);
            opt_bind
              (walk_ext_hdrs (\<lambda>p. p = IPPROTO_UDP) frame MAX_IPV6_EXT_HDRS inner_next_hdr (inner_ip_offset + IPV6_HDR_LEN))
              (\<lambda>(inner_next_hdr, inner_offset).
                 if inner_next_hdr \<noteq> IPPROTO_UDP then ret None
                 else if inner_offset + 4 > length frame then ret None
                 else do {
                   inner_src_port \<leftarrow> be16_at frame inner_offset;
                   inner_dst_port \<leftarrow> be16_at frame (inner_offset + 2);
                   let inner_quic_offset = inner_offset + UDP_HDR_LEN;
                   ret (Some \<lparr>pf_family = Ipv6, pf_ip_hdr_len = ip_hdr_len, pf_src_mac = src_mac,
                     pf_src_addr = src_addr, pf_dst_addr = dst_addr,
                     pf_l4 = Icmp inner_quic_offset
                       \<lparr>fk_src_addr = inner_dst_addr, fk_dst_addr = inner_src_addr,
                        fk_src_port = inner_dst_port, fk_dst_port = inner_src_port\<rparr>\<rparr>)
                 })
          }
        }
      })"

definition parse_frame_ipv6 :: "bytes \<Rightarrow> bytes \<Rightarrow> parsed_frame option run" where
  "parse_frame_ipv6 frame src_mac =
     (if length frame < ETH_HDR_LEN + IPV6_HDR_LEN then ret None
      else do {
        src_addr \<leftarrow> ipv6_at frame (ETH_HDR_LEN + 8);
        dst_addr \<leftarrow> ipv6_at frame (ETH_HDR_LEN + 24);
        next_hdr \<leftarrow> idx frame (ETH_HDR_LEN + 6);
        opt_bind
          (walk_ext_hdrs (\<lambda>p. p = IPPROTO_UDP \<or> p = IPPROTO_ICMPV6) frame MAX_IPV6_EXT_HDRS next_hdr
             (ETH_HDR_LEN + IPV6_HDR_LEN))
          (\<lambda>(next_hdr, offset).
             let ip_hdr_len = offset - ETH_HDR_LEN in
             if next_hdr = IPPROTO_UDP then do {
               let udp_offset = offset;
               let quic_offset = udp_offset + UDP_HDR_LEN;
               if quic_offset > length frame then ret None
               else do {
                 src_port \<leftarrow> be16_at frame udp_offset;
                 dst_port \<leftarrow> be16_at frame (udp_offset + 2);
                 ret (Some \<lparr>pf_family = Ipv6, pf_ip_hdr_len = ip_hdr_len, pf_src_mac = src_mac,
                   pf_src_addr = src_addr, pf_dst_addr = dst_addr,
                   pf_l4 = Udp udp_offset quic_offset src_port dst_port\<rparr>)
               }
             }
             else if next_hdr = IPPROTO_ICMPV6 then
               parse_frame_icmpv6 frame src_mac ip_hdr_len src_addr dst_addr offset
             else ret None)
      })"

definition parse_frame :: "bytes \<Rightarrow> parsed_frame option run" where
  "parse_frame frame =
     (if length frame < ETH_HDR_LEN then ret None
      else do {
        src_mac \<leftarrow> slice frame 6 12;
        ethertype \<leftarrow> be16_at frame 12;
        if ethertype = ETH_P_IP then parse_frame_ipv4 frame src_mac
        else if ethertype = ETH_P_IPV6 then parse_frame_ipv6 frame src_mac
        else ret None
      })"

section \<open>Routing\<close>

type_synonym routed = "verdict \<times> bytes \<times> connection_table"

text \<open>\<open>frame[..6].copy_from_slice(&mac); frame[6..12].copy_from_slice(local_mac)\<close>.\<close>

definition rewrite_macs :: "bytes \<Rightarrow> bytes \<Rightarrow> bytes \<Rightarrow> bytes run" where
  "rewrite_macs frame mac local_mac = do {
     frame \<leftarrow> copy_into frame 0 6 mac;
     copy_into frame 6 12 local_mac
   }"

definition fallback_mac :: "(flow_key \<Rightarrow> u64) \<Rightarrow> flow_key \<Rightarrow> server list \<Rightarrow> bytes option run" where
  "fallback_mac fx_hash flow servers =
     (if servers = [] then ret None
      else do {
        let target = unat (fx_hash flow) mod length servers;
        server \<leftarrow> idx servers target;
        ret (srv_mac server)
      })"

text \<open>The fallback path of \<open>process_udp\<close>.\<close>

definition fallback_route ::
  "(flow_key \<Rightarrow> u64) \<Rightarrow> bytes \<Rightarrow> bytes \<Rightarrow> config_table \<Rightarrow> connection_table \<Rightarrow> flow_key \<Rightarrow> bytes \<Rightarrow> instant
     \<Rightarrow> routed run" where
  "fallback_route fx_hash frame quic table conn flow local_mac now = do {
     raw_dcid \<leftarrow> opt_bind (ret (fallback_cid_length table)) (\<lambda>len. extract_raw_dcid quic len);
     dcid_key \<leftarrow> opt_bind (ret raw_dcid) (\<lambda>d. do { k \<leftarrow> dcid_from_slice d; ret (Some k) });
     case conn_lookup conn flow dcid_key now of
       Some mac \<Rightarrow> do {
         frame \<leftarrow> rewrite_macs frame mac local_mac;
         ret (FallbackForward, frame, conn)
       }
     | None \<Rightarrow> do {
         chosen \<leftarrow> fallback_mac fx_hash flow (ct_fallback_servers table);
         case chosen of
           Some mac \<Rightarrow> do {
             let conn = conn_insert conn flow dcid_key mac now;
             frame \<leftarrow> rewrite_macs frame mac local_mac;
             ret (FallbackForward, frame, conn)
           }
         | None \<Rightarrow> ret (Pass, frame, conn)
       }
   }"

definition process_udp ::
  "(flow_key \<Rightarrow> u64) \<Rightarrow> bytes \<Rightarrow> config_table \<Rightarrow> connection_table \<Rightarrow> nat \<Rightarrow> flow_key \<Rightarrow> bytes \<Rightarrow> instant
     \<Rightarrow> routed run" where
  "process_udp fx_hash frame table conn quic_offset flow local_mac now = do {
     quic \<leftarrow> slice_from frame quic_offset;
     r \<leftarrow> lookup_config quic table;
     case r of
       None \<Rightarrow> fallback_route fx_hash frame quic table conn flow local_mac now
     | Some (dcid, config) \<Rightarrow> do {
         server_idx \<leftarrow> resolve_server_idx dcid config;
         target \<leftarrow> opt_bind (ret server_idx) (\<lambda>i. do {
             server \<leftarrow> idx (rc_servers config) i;
             ret (if srv_healthy server then map_option (\<lambda>mac. (server, mac)) (srv_mac server) else None)
           });
         case target of
           Some (server, mac) \<Rightarrow> do {
             key \<leftarrow> dcid_from_slice dcid;
             let conn = record_dcid conn key mac now;
             frame \<leftarrow> rewrite_macs frame mac local_mac;
             ret (if srv_draining server then CidForwardDraining (rc_config_id config)
                  else CidForward (rc_config_id config), frame, conn)
           }
         | None \<Rightarrow>
             if length dcid > unat (cid_payload_length config) then
               ret (if server_idx \<noteq> None then CidUnroutableNoServer else CidUnroutableBadServerId, frame, conn)
             else fallback_route fx_hash frame quic table conn flow local_mac now
       }
   }"

text \<open>The first strategy of \<open>process_icmp\<close>: the MAC the echoed source connection id resolves to.\<close>

definition icmp_scid_mac :: "bytes \<Rightarrow> config_table \<Rightarrow> bytes option run" where
  "icmp_scid_mac inner_quic table =
     opt_bind (extract_scid inner_quic) (\<lambda>scid.
       if scid = [] then ret None
       else do {
         b \<leftarrow> idx scid 0;
         let config_id = drop_bit 5 b;
         if config_id = 7 then ret None
         else
           opt_bind (ret (get table config_id)) (\<lambda>config.
             opt_bind (resolve_server_idx scid config) (\<lambda>server_idx. do {
               server \<leftarrow> idx (rc_servers config) server_idx;
               ret (srv_mac server)
             }))
       })"

definition process_icmp ::
  "bytes \<Rightarrow> config_table \<Rightarrow> connection_table \<Rightarrow> nat \<Rightarrow> flow_key \<Rightarrow> bytes \<Rightarrow> instant \<Rightarrow> routed run" where
  "process_icmp frame table conn inner_quic_offset reversed_flow local_mac now = do {
     inner_quic \<leftarrow> slice_from frame inner_quic_offset;
     by_scid \<leftarrow> icmp_scid_mac inner_quic table;
     case by_scid of
       Some mac \<Rightarrow> do {
         frame \<leftarrow> rewrite_macs frame mac local_mac;
         ret (IcmpForward, frame, conn)
       }
     | None \<Rightarrow>
         (case conn_lookup conn reversed_flow None now of
            Some mac \<Rightarrow> do {
              frame \<leftarrow> rewrite_macs frame mac local_mac;
              ret (IcmpForward, frame, conn)
            }
          | None \<Rightarrow> ret (Pass, frame, conn))
   }"

definition process_packet_parsed ::
  "(flow_key \<Rightarrow> u64) \<Rightarrow> bytes \<Rightarrow> parsed_frame \<Rightarrow> config_table \<Rightarrow> connection_table \<Rightarrow> bytes \<Rightarrow> instant
     \<Rightarrow> routed run" where
  "process_packet_parsed fx_hash frame parsed table conn local_mac now =
     (case pf_l4 parsed of
        Udp udp_offset quic_offset src_port dst_port \<Rightarrow>
          process_udp fx_hash frame table conn quic_offset
            \<lparr>fk_src_addr = pf_src_addr parsed, fk_dst_addr = pf_dst_addr parsed,
             fk_src_port = src_port, fk_dst_port = dst_port\<rparr> local_mac now
      | Icmp inner_quic_offset reversed_flow \<Rightarrow>
          process_icmp frame table conn inner_quic_offset reversed_flow local_mac now)"

definition process_packet ::
  "(flow_key \<Rightarrow> u64) \<Rightarrow> bytes \<Rightarrow> config_table \<Rightarrow> connection_table \<Rightarrow> bytes \<Rightarrow> instant \<Rightarrow> routed run" where
  "process_packet fx_hash frame table conn local_mac now = do {
     r \<leftarrow> parse_frame frame;
     case r of
       Some parsed \<Rightarrow> process_packet_parsed fx_hash frame parsed table conn local_mac now
     | None \<Rightarrow> ret (Pass, frame, conn)
   }"

section \<open>Parsing never panics and its offsets are in range\<close>

lemma be16_at_in [simp]: "Suc i < length frame \<Longrightarrow> be16_at frame i = Some (be16 (frame ! i) (frame ! Suc i))"
  by (simp add: be16_at_def)

lemma ipv4_at_in [simp]:
  "i + 3 < length frame \<Longrightarrow> ipv4_at frame i = Some (V4 [frame ! i, frame ! (i + 1), frame ! (i + 2), frame ! (i + 3)])"
  by (simp add: ipv4_at_def)

lemma ipv6_at_in [simp]: "i + 16 \<le> length frame \<Longrightarrow> ipv6_at frame i = Some (V6 (take 16 (drop i frame)))"
  by (simp add: ipv6_at_def)

lemma walk_ext_hdrs_total: "\<exists>r. walk_ext_hdrs stop frame n nh offset = Some r"
  by (induction n arbitrary: nh offset) (auto simp del: idx_eq_Some)

lemma walk_ext_hdrs_offset: "walk_ext_hdrs stop frame n nh offset = Some (Some (nh', offset')) \<Longrightarrow> offset \<le> offset'"
  by (induction n arbitrary: nh offset) (force split: if_splits)+

definition layout_ok :: "bytes \<Rightarrow> parsed_frame \<Rightarrow> bool" where
  "layout_ok frame p \<longleftrightarrow>
     14 \<le> length frame \<and> pf_src_mac p = take 6 (drop 6 frame) \<and> ip_wf (pf_src_addr p) \<and> ip_wf (pf_dst_addr p) \<and>
     (case pf_family p of
        Ipv4 \<Rightarrow> 20 \<le> pf_ip_hdr_len p \<and> pf_ip_hdr_len p \<le> 60 \<and> even (pf_ip_hdr_len p) \<and>
          is_V4 (pf_src_addr p) \<and> is_V4 (pf_dst_addr p)
      | Ipv6 \<Rightarrow> 40 \<le> pf_ip_hdr_len p \<and> \<not> is_V4 (pf_src_addr p) \<and> \<not> is_V4 (pf_dst_addr p)) \<and>
     (pf_family p = Ipv4 \<longleftrightarrow> be16 (frame ! 12) (frame ! 13) = ETH_P_IP) \<and>
     (pf_family p = Ipv6 \<longleftrightarrow> be16 (frame ! 12) (frame ! 13) = ETH_P_IPV6) \<and>
     (case pf_l4 p of
        Udp u q sp dp \<Rightarrow>
          u = 14 + pf_ip_hdr_len p \<and> q = u + 8 \<and> q \<le> length frame \<and>
          sp = be16 (frame ! u) (frame ! (u + 1)) \<and> dp = be16 (frame ! (u + 2)) (frame ! (u + 3))
      | Icmp q flow \<Rightarrow>
          14 + pf_ip_hdr_len p + 8 < q \<and> q \<le> length frame + 4 \<and>
          ip_wf (fk_src_addr flow) \<and> ip_wf (fk_dst_addr flow) \<and>
          fk_dst_port flow = be16 (frame ! (q - 8)) (frame ! (q - 7)) \<and>
          fk_src_port flow = be16 (frame ! (q - 6)) (frame ! (q - 5)))"

lemma unat_nibble_le: "unat (b AND 0xf :: byte) \<le> 15"
proof -
  have "b AND 0xf \<le> 0xf" by (rule word_and_le1)
  then show ?thesis by (simp add: word_le_nat_alt)
qed

lemma icmp_ipv4_total: "\<exists>r. parse_frame_icmp_ipv4 frame m n s d = Some r"
  by (auto simp: parse_frame_icmp_ipv4_def Let_def)

lemma icmpv6_total: "\<exists>r. parse_frame_icmpv6 frame m n s d off = Some r"
  by (auto simp: parse_frame_icmpv6_def Let_def intro!: opt_bind_no_panic walk_ext_hdrs_total)

lemma ipv4_total: "\<exists>r. parse_frame_ipv4 frame m = Some r"
  using icmp_ipv4_total by (auto simp: parse_frame_ipv4_def Let_def)

lemma ipv6_total: "\<exists>r. parse_frame_ipv6 frame m = Some r"
  by (auto simp: parse_frame_ipv6_def Let_def icmpv6_total intro!: opt_bind_no_panic walk_ext_hdrs_total)

lemma parse_frame_total: "\<exists>r. parse_frame frame = Some r"
  using ipv4_total ipv6_total by (auto simp: parse_frame_def)

lemma icmp_ipv4_layout:
  assumes "parse_frame_icmp_ipv4 frame m n s d = Some (Some p)" 
  shows "\<exists>q flow. p = \<lparr>pf_family = Ipv4, pf_ip_hdr_len = n, pf_src_mac = m, pf_src_addr = s, pf_dst_addr = d,
      pf_l4 = Icmp q flow\<rparr> \<and> 14 + n + 8 < q \<and> q \<le> length frame + 4 \<and>
          ip_wf (fk_src_addr flow) \<and> ip_wf (fk_dst_addr flow) \<and>
          fk_dst_port flow = be16 (frame ! (q - 8)) (frame ! (q - 7)) \<and>
          fk_src_port flow = be16 (frame ! (q - 6)) (frame ! (q - 5))"
  using assms by (auto simp: parse_frame_icmp_ipv4_def Let_def ipv4_at_def be16_at_def add.assoc split: if_splits)

lemma icmpv6_layout:
  assumes "parse_frame_icmpv6 frame m n s d off = Some (Some p)" "off = 14 + n"
  shows "\<exists>q flow. p = \<lparr>pf_family = Ipv6, pf_ip_hdr_len = n, pf_src_mac = m, pf_src_addr = s, pf_dst_addr = d,
      pf_l4 = Icmp q flow\<rparr> \<and> 14 + n + 8 < q \<and> q \<le> length frame + 4 \<and>
          ip_wf (fk_src_addr flow) \<and> ip_wf (fk_dst_addr flow) \<and>
          fk_dst_port flow = be16 (frame ! (q - 8)) (frame ! (q - 7)) \<and>
          fk_src_port flow = be16 (frame ! (q - 6)) (frame ! (q - 5))"
  using assms
  by (auto simp: parse_frame_icmpv6_def Let_def ipv6_at_def be16_at_def numeral_3_eq_3 split: if_splits dest!: walk_ext_hdrs_offset)

lemma ipv4_layout:
  assumes "parse_frame_ipv4 frame (take 6 (drop 6 frame)) = Some (Some p)" "be16 (frame ! 12) (frame ! 13) = ETH_P_IP"
  shows "layout_ok frame p"
  using assms
  using unat_nibble_le [of "frame ! 14"]
  by (auto simp: parse_frame_ipv4_def Let_def ipv4_at_def be16_at_def layout_ok_def split: if_splits dest!: icmp_ipv4_layout)

lemma ipv6_layout:
  assumes "parse_frame_ipv6 frame (take 6 (drop 6 frame)) = Some (Some p)" "be16 (frame ! 12) (frame ! 13) = ETH_P_IPV6"
  shows "layout_ok frame p"
proof -
  from assms(1) obtain nh off where len: "54 \<le> length frame" and
      w: "walk_ext_hdrs (\<lambda>p. p = IPPROTO_UDP \<or> p = IPPROTO_ICMPV6) frame 6 (frame ! 20) 54 = Some (Some (nh, off))" and
      rest: "if nh = IPPROTO_UDP then off + 8 \<le> length frame \<and>
          p = \<lparr>pf_family = Ipv6, pf_ip_hdr_len = off - 14, pf_src_mac = take 6 (drop 6 frame),
            pf_src_addr = V6 (take 16 (drop 22 frame)), pf_dst_addr = V6 (take 16 (drop 38 frame)),
            pf_l4 = Udp off (off + 8) (be16 (frame ! off) (frame ! (off + 1))) (be16 (frame ! (off + 2)) (frame ! (off + 3)))\<rparr>
        else parse_frame_icmpv6 frame (take 6 (drop 6 frame)) (off - 14)
            (V6 (take 16 (drop 22 frame))) (V6 (take 16 (drop 38 frame))) off = Some (Some p)"
    by (auto simp: parse_frame_ipv6_def Let_def ipv6_at_def be16_at_def numeral_3_eq_3 split: if_splits)
  from walk_ext_hdrs_offset [OF w] have off: "54 \<le> off" "off = 14 + (off - 14)" by simp_all
  show ?thesis
  proof (cases "nh = IPPROTO_UDP")
    case True
    with rest off len assms(2) show ?thesis by (auto simp: layout_ok_def)
  next
    case False
    with rest icmpv6_layout [OF _ off(2)] off(1) len assms(2) show ?thesis
      by (fastforce simp: layout_ok_def)
  qed
qed

lemma parse_frame_layout: "parse_frame frame = Some (Some p) \<Longrightarrow> layout_ok frame p"
  by (auto simp: parse_frame_def be16_at_def split: if_splits intro: ipv4_layout ipv6_layout)

text \<open>
  Parsing is total: for every byte string the frame parser returns without a panic, and a layout it
  returns is in range. The source MAC and addresses are the bytes of the frame, the IP header length
  covers the fixed header (and is at most 60 bytes for IPv4), the addresses are of the family
  of the frame, and for UDP the QUIC payload starts inside the frame right behind the UDP
  header whose ports were read. For ICMP errors only the echoed ports are known to be inside the frame:
  the payload offset may exceed its end by up to four bytes.
\<close>

lemma parse_frame_safe:
  "\<exists>r. parse_frame frame = Some r \<and> (\<forall>p. r = Some p \<longrightarrow> layout_ok frame p)"
  using parse_frame_total [of frame] parse_frame_layout [of frame] by auto

section \<open>Evaluated instances\<close>

definition sample_local_mac :: bytes where
  "sample_local_mac = [2, 0, 0, 0, 0, 1]"

definition sample_eth :: bytes where
  "sample_eth = [2, 0, 0, 0, 0, 1, 2, 0, 0, 0, 0, 2, 8, 0]"

definition sample_ipv4 :: "byte \<Rightarrow> bytes" where
  "sample_ipv4 protocol = [0x45, 0, 0, 0, 0, 0, 0, 0, 64, protocol, 0, 0, 192, 0, 2, 7, 10, 0, 1, 10]"

definition sample_udp_frame :: "bytes \<Rightarrow> bytes" where
  "sample_udp_frame quic = sample_eth @ sample_ipv4 17 @ [0x30, 0x39, 1, 0xbb, 0, 0, 0, 0] @ quic"

lemma parse_frame_sample_udp:
  "parse_frame (sample_udp_frame quic) =
     Some (Some \<lparr>pf_family = Ipv4, pf_ip_hdr_len = 20, pf_src_mac = [2, 0, 0, 0, 0, 2],
       pf_src_addr = V4 [192, 0, 2, 7], pf_dst_addr = V4 [10, 0, 1, 10], pf_l4 = Udp 34 42 12345 443\<rparr>)"
  by (simp add: parse_frame_def parse_frame_ipv4_def sample_udp_frame_def sample_eth_def sample_ipv4_def be16_def from_be_def Let_def)

end
