(* ===== verification/Quic_Initial.thy ===== *)
theory Quic_Initial
  imports Prelude
begin

text \<open>
  \<open>pesigitg-daemon/src/quic/initial.rs\<close>: the strict parser of QUIC v1 and v2 Initial headers. The parser
  is compared with the wire grammar of such a header: it accepts exactly the packets the grammar derives.
\<close>

section \<open>Operations\<close>

definition QUIC_V1 :: u32 where "QUIC_V1 = 0x00000001"
definition QUIC_V2 :: u32 where "QUIC_V2 = 0x6b3343cf"
definition MAX_CID_LEN :: nat where [simp]: "MAX_CID_LEN = 20"

record initial =
  in_first_byte :: u8
  in_version :: u32
  in_dcid :: bytes
  in_scid :: bytes
  in_token :: bytes
  in_length :: u64
  in_pn_offset :: nat

datatype parse_error =
    Truncated
  | NotLongHeader
  | FixedBitUnset
  | NotInitial
  | UnsupportedVersion u32
  | DcidLengthInvalid
  | ScidLengthInvalid
  | TokenLengthInvalid
  | LengthInvalid
  | LengthOverrun

definition read_varint :: "bytes \<Rightarrow> (u64 \<times> nat) option run" where
  "read_varint buf =
     (case buf of
        [] \<Rightarrow> ret None
      | first # _ \<Rightarrow>
          let size = 2 ^ unat (drop_bit 6 first) in
          if length buf < size then ret None
          else do {
            tail \<leftarrow> slice buf 1 size;
            ret (Some (foldl (\<lambda>value byte. push_bit 8 value OR ucast byte) (ucast (first AND 0x3f)) tail, size))
          })"

text \<open>\<open>usize::checked_add\<close> on a 64-bit target.\<close>

definition checked_add :: "nat \<Rightarrow> nat \<Rightarrow> nat option" where
  "checked_add a b = (if a + b < 2 ^ 64 then Some (a + b) else None)"

text \<open>\<open>Option::ok_or\<close> on a value that a computation returns.\<close>

definition ok_or_run :: "'e \<Rightarrow> 'a option run \<Rightarrow> ('e + 'a) run" where
  "ok_or_run e m = do { r \<leftarrow> m; ok_or e r }"

text \<open>The part of \<open>parse_strict\<close> behind the connection ids: token and length.\<close>

definition parse_token_length :: "bytes \<Rightarrow> u8 \<Rightarrow> u32 \<Rightarrow> bytes \<Rightarrow> bytes \<Rightarrow> nat \<Rightarrow> (parse_error + initial) run" where
  "parse_token_length packet first_byte version dcid scid scid_end = do {
     after_scid \<leftarrow> slice_from packet scid_end;
     try_bind (ok_or_run TokenLengthInvalid (read_varint after_scid)) (\<lambda>(token_len, tl_size).
     let token_start = scid_end + tl_size in
     try_bind (ok_or TokenLengthInvalid (checked_add token_start (unat token_len))) (\<lambda>token_end.
     if length packet < token_end then ret (Inl TokenLengthInvalid)
     else do {
       token \<leftarrow> slice packet token_start token_end;
       after_token \<leftarrow> slice_from packet token_end;
       try_bind (ok_or_run LengthInvalid (read_varint after_token)) (\<lambda>(len, len_size).
       let pn_offset = token_end + len_size in
       try_bind (ok_or LengthOverrun (checked_add pn_offset (unat len))) (\<lambda>declared_end.
       if length packet < declared_end then ret (Inl LengthOverrun)
       else ret (Inr \<lparr>in_first_byte = first_byte, in_version = version, in_dcid = dcid,
              in_scid = scid, in_token = token, in_length = len, in_pn_offset = pn_offset\<rparr>)))
     }))
   }"

definition parse_strict :: "bytes \<Rightarrow> (parse_error + initial) run" where
  "parse_strict packet =
     (if length packet < 9 then ret (Inl Truncated)
      else do {
        first_byte \<leftarrow> idx packet 0;
        if first_byte AND 0x80 = 0 then ret (Inl NotLongHeader)
        else if first_byte AND 0x40 = 0 then ret (Inl FixedBitUnset)
        else do {
          v \<leftarrow> slice packet 1 5;
          let version = from_be v;
          let ptype = drop_bit 4 first_byte AND 3;
          if version = QUIC_V1 \<and> ptype \<noteq> 0 then ret (Inl NotInitial)
          else if version = QUIC_V2 \<and> ptype \<noteq> 1 then ret (Inl NotInitial)
          else if \<not> (version = QUIC_V1 \<or> version = QUIC_V2) then ret (Inl (UnsupportedVersion version))
          else do {
            dl \<leftarrow> idx packet 5;
            let dcid_len = unat dl;
            if dcid_len > MAX_CID_LEN then ret (Inl DcidLengthInvalid)
            else do {
              let dcid_end = 6 + dcid_len;
              if length packet < dcid_end + 1 then ret (Inl DcidLengthInvalid)
              else do {
                dcid \<leftarrow> slice packet 6 dcid_end;
                sl \<leftarrow> idx packet dcid_end;
                let scid_len = unat sl;
                if scid_len > MAX_CID_LEN then ret (Inl ScidLengthInvalid)
                else do {
                  let scid_start = dcid_end + 1;
                  let scid_end = scid_start + scid_len;
                  if length packet < scid_end then ret (Inl ScidLengthInvalid)
                  else do {
                    scid \<leftarrow> slice packet scid_start scid_end;
                    parse_token_length packet first_byte version dcid scid scid_end
                  }
                }
              }
            }
          }
        }
      })"

section \<open>Variable-length integers\<close>

text \<open>The encoding of a value in \<open>2 ^ k\<close> bytes, with the length code in the two top bits.\<close>

definition put_varint :: "nat \<Rightarrow> u64 \<Rightarrow> bytes" where
  "put_varint k w = (case to_be (2 ^ k) w of b # bs \<Rightarrow> (push_bit 6 (of_nat k) OR b) # bs | [] \<Rightarrow> [])"

lemma read_varint_from_be:
  "read_varint buf =
     (case buf of
        [] \<Rightarrow> Some None
      | first # rest \<Rightarrow>
          let size = 2 ^ unat (drop_bit 6 first) in
          if length buf < size then Some None
          else Some (Some (from_be ((first AND 0x3f) # take (size - 1) rest), size)))"
  by (cases buf) (auto simp: read_varint_def Let_def from_be_def)

lemma read_varint_total: "\<exists>r. read_varint buf = Some r"
  by (simp add: read_varint_from_be Let_def split: list.splits)

lemma read_varint_size:
  assumes "read_varint buf = Some (Some (v, n))"
  shows "1 \<le> n" and "n \<le> length buf"
  using assms by (auto simp: read_varint_from_be Let_def split: list.splits if_splits)

text \<open>The result depends on the consumed bytes only.\<close>

lemma read_varint_prefix:
  "read_varint (xs @ ys) = Some (Some (v, length xs)) \<longleftrightarrow> read_varint xs = Some (Some (v, length xs))"
  if "xs \<noteq> []"
  using that by (cases xs) (auto simp: read_varint_from_be Let_def)

lemma varint_first_byte:
  assumes "k \<le> 3" "drop_bit 6 b = (0 :: u8)"
  shows "unat (drop_bit 6 (push_bit 6 (of_nat k) OR b)) = k" "(push_bit 6 (of_nat k) OR b) AND 0x3f = b"
proof -
  have "b = take_bit 6 b" using assms(2) by (metis bits_ident add_0 push_bit_of_0)
  then have b: "b AND 0x3f = b" by (simp add: take_bit_eq_mask mask_eq_exp_minus_1)
  consider "k = 0" | "k = 1" | "k = 2" | "k = 3" using assms(1) by linarith
  then show "unat (drop_bit 6 (push_bit 6 (of_nat k) OR b)) = k" "(push_bit 6 (of_nat k) OR b) AND 0x3f = b"
    by (cases; simp add: drop_bit_or assms(2) bit.conj_disj_distrib2 b)+
qed

text \<open>
  Decoding a QUIC variable-length integer inverts its encoding in each of the four sizes, for every
  value that fits, and consumes exactly the encoded bytes whatever follows them.
\<close>

lemma read_varint_put:
  assumes "k \<le> 3" "unat w < 2 ^ (8 * 2 ^ k - 2)"
  shows "read_varint (put_varint k w @ rest) = Some (Some (w, 2 ^ k))"
proof -
  obtain n where n: "(2 :: nat) ^ k = Suc n" by (metis not0_implies_Suc power_not_zero zero_neq_numeral)
  define b :: byte where "b = ucast (drop_bit (8 * n) w)"
  define f :: byte where "f = push_bit 6 (of_nat k) OR b"
  have put: "put_varint k w = f # to_be n w"
    by (simp add: put_varint_def n to_be_Suc b_def f_def)
  have hi: "\<not> bit w i" if "8 * 2 ^ k - 2 \<le> i" for i
    using assms(2) that
    by (metis bit_take_bit_iff linorder_not_less take_bit_nat_eq_self_iff unsigned_take_bit_eq word_unat_eq_iff)
  have "drop_bit 6 b = 0"
    by (rule bit_word_eqI) (auto simp: b_def bit_simps n intro!: hi)
  note first = varint_first_byte [OF assms(1) this, folded f_def]
  have "from_be (b # to_be n w) = w"
  proof (rule bit_word_eqI)
    fix i
    have "bit (from_be (b # to_be n w) :: u64) i \<longleftrightarrow> i < 8 * Suc n \<and> bit w i"
      using bit_from_be_to_be [of "Suc n" w i] by (simp add: to_be_Suc b_def)
    moreover have "i < 8 * Suc n" if "bit w i" using hi [of i] that n by fastforce
    ultimately show "bit (from_be (b # to_be n w) :: u64) i \<longleftrightarrow> bit w i" by blast
  qed
  then show ?thesis
    by (simp add: read_varint_from_be put first n Let_def)
qed

section \<open>The grammar of an Initial header\<close>

definition initial_first_byte :: "u8 \<Rightarrow> u32 \<Rightarrow> bool" where
  "initial_first_byte b version \<longleftrightarrow>
     b AND 0x80 \<noteq> 0 \<and> b AND 0x40 \<noteq> 0 \<and>
     (version = QUIC_V1 \<and> drop_bit 4 b AND 3 = 0 \<or> version = QUIC_V2 \<and> drop_bit 4 b AND 3 = 1)"

text \<open>
  \<open>packet\<close> is the header \<open>i\<close> with the token and payload lengths encoded as \<open>vtok\<close> and \<open>vlen\<close>, followed
  by \<open>rest\<close>, which holds at least the declared number of bytes.
\<close>

definition initial_wire :: "initial \<Rightarrow> bytes \<Rightarrow> bytes \<Rightarrow> bytes \<Rightarrow> bytes \<Rightarrow> bool" where
  "initial_wire i vtok vlen rest packet \<longleftrightarrow>
     packet = in_first_byte i # to_be 4 (in_version i) @ of_nat (length (in_dcid i)) # in_dcid i @
       of_nat (length (in_scid i)) # in_scid i @ vtok @ in_token i @ vlen @ rest \<and>
     initial_first_byte (in_first_byte i) (in_version i) \<and>
     length (in_dcid i) \<le> 20 \<and> length (in_scid i) \<le> 20 \<and>
     (\<exists>n. unat n = length (in_token i) \<and> read_varint vtok = Some (Some (n, length vtok))) \<and>
     read_varint vlen = Some (Some (in_length i, length vlen)) \<and>
     unat (in_length i) \<le> length rest \<and>
     in_pn_offset i = length packet - length rest"

lemma ok_or_run_eq_Inr [simp]: "ok_or_run e m = Some (Inr x) \<longleftrightarrow> m = Some (Some x)"
  by (cases m) (auto simp: ok_or_run_def)

lemma ok_or_run_total: "(\<exists>r. m = Some r) \<Longrightarrow> \<exists>r. ok_or_run e m = Some r"
  by (auto simp: ok_or_run_def ok_or_def)

lemma checked_add_small [simp]: "a + b < 2 ^ 64 \<Longrightarrow> checked_add a b = Some (a + b)"
  by (simp add: checked_add_def)

lemma checked_add_Some: "checked_add a b = Some c \<longleftrightarrow> c = a + b \<and> a + b < 2 ^ 64"
  by (auto simp: checked_add_def)

lemma ok_or_total: "\<exists>r. ok_or e x = Some r"
  by (simp add: ok_or_def)

lemma varint_split:
  assumes "read_varint xs = Some (Some (n, k))"
  obtains v ys where "xs = v @ ys" "read_varint v = Some (Some (n, length v))" "k = length v"
proof -
  note size = read_varint_size [OF assms]
  have "read_varint (take k xs) = Some (Some (n, length (take k xs)))"
    using read_varint_prefix [of "take k xs" "drop k xs" n] assms size by (cases xs) auto
  with size that [of "take k xs" "drop k xs"] show thesis by simp
qed

lemma varint_append:
  assumes "read_varint v = Some (Some (n, length v))"
  shows "read_varint (v @ ys) = Some (Some (n, length v))"
proof -
  have "v \<noteq> []" using read_varint_size(1) [OF assms] by auto
  with assms show ?thesis by (simp add: read_varint_prefix)
qed

lemma parse_token_length_iff:
  assumes "length (hdr @ tail) < 2 ^ 64"
  shows "parse_token_length (hdr @ tail) f v d s (length hdr) = Some (Inr i) \<longleftrightarrow>
    (\<exists>vtok token vlen rest n len. tail = vtok @ token @ vlen @ rest \<and>
       read_varint vtok = Some (Some (n, length vtok)) \<and> unat n = length token \<and>
       read_varint vlen = Some (Some (len, length vlen)) \<and> unat len \<le> length rest \<and>
       i = \<lparr>in_first_byte = f, in_version = v, in_dcid = d, in_scid = s, in_token = token, in_length = len,
            in_pn_offset = length hdr + length vtok + length token + length vlen\<rparr>)" (is "?l \<longleftrightarrow> ?r")
proof
  assume ?l
  then obtain n k len j where r1: "read_varint tail = Some (Some (n, k))"
      and r2: "length hdr + k + unat n \<le> length (hdr @ tail)"
      and r3: "read_varint (drop (length hdr + k + unat n) (hdr @ tail)) = Some (Some (len, j))"
      and r4: "length hdr + k + unat n + j + unat len \<le> length (hdr @ tail)"
        "i = \<lparr>in_first_byte = f, in_version = v, in_dcid = d, in_scid = s,
             in_token = take (unat n) (drop (length hdr + k) (hdr @ tail)), in_length = len,
             in_pn_offset = length hdr + k + unat n + j\<rparr>"
    by (auto simp: parse_token_length_def Let_def checked_add_Some not_less split: if_splits)
  from varint_split [OF r1] obtain vtok ys where v1: "tail = vtok @ ys" "read_varint vtok = Some (Some (n, length vtok))"
      "k = length vtok" .
  define token zs where "token = take (unat n) ys" and "zs = drop (unat n) ys"
  have ys: "ys = token @ zs" "length token = unat n" using r2 v1 by (auto simp: token_def zs_def)
  have rest: "read_varint zs = Some (Some (len, j))" "length hdr + k + unat n + j + unat len \<le> length (hdr @ tail)"
      "i = \<lparr>in_first_byte = f, in_version = v, in_dcid = d, in_scid = s, in_token = token, in_length = len,
           in_pn_offset = length hdr + k + unat n + j\<rparr>"
    using r3 r4 v1 ys by simp_all
  from varint_split [OF rest(1)] obtain vlen rs where v2: "zs = vlen @ rs" "read_varint vlen = Some (Some (len, length vlen))"
      "j = length vlen" .
  from v1 ys rest v2 show ?r
    by (intro exI [of _ vtok] exI [of _ token] exI [of _ vlen] exI [of _ rs] exI [of _ n] exI [of _ len]) simp
next
  assume ?r
  then obtain vtok token vlen rest n len where "tail = vtok @ token @ vlen @ rest"
      "read_varint vtok = Some (Some (n, length vtok))" "unat n = length token"
      "read_varint vlen = Some (Some (len, length vlen))" "unat len \<le> length rest"
      "i = \<lparr>in_first_byte = f, in_version = v, in_dcid = d, in_scid = s, in_token = token, in_length = len,
            in_pn_offset = length hdr + length vtok + length token + length vlen\<rparr>"
    by blast
  with assms show ?l
    by (simp add: parse_token_length_def Let_def ok_or_run_def varint_append)
qed

text \<open>The header up to the source connection id.\<close>

definition header :: "u8 \<Rightarrow> u32 \<Rightarrow> bytes \<Rightarrow> bytes \<Rightarrow> bytes" where
  "header f v d s = f # to_be 4 v @ of_nat (length d) # d @ of_nat (length s) # s"

lemma length_header [simp]: "length (header f v d s) = 7 + length d + length s"
  by (simp add: header_def)

text \<open>The guards of \<open>parse_strict\<close> on a packet cut at the boundaries of its first fields.\<close>

lemma parse_strict_cut:
  assumes "length vs = 4" "9 \<le> length (f # vs @ dl # r2)"
  shows "parse_strict (f # vs @ dl # r2) = Some (Inr i) \<longleftrightarrow>
     initial_first_byte f (from_be vs) \<and> unat dl \<le> 20 \<and> unat dl < length r2 \<and>
     (let sl = r2 ! unat dl in unat sl \<le> 20 \<and> unat dl + 1 + unat sl \<le> length r2 \<and>
       parse_token_length (f # vs @ dl # r2) f (from_be vs) (take (unat dl) r2)
         (take (unat sl) (drop (unat dl + 1) r2)) (7 + unat dl + unat sl) = Some (Inr i))"
proof -
  have "(f # vs @ dl # r2) ! 5 = dl" using assms(1) by (simp add: nth_append)
  moreover have "(f # vs @ dl # r2) ! (6 + unat dl) = r2 ! unat dl" using assms(1) by (simp add: nth_append)
  moreover have "take 4 (vs @ dl # r2) = vs" using assms(1) by simp
  moreover have "drop (7 + n) (f # vs @ dl # r2) = drop (Suc n) r2" for n using assms(1) by (simp add: drop_Cons')
  moreover have "QUIC_V1 \<noteq> QUIC_V2" by (simp add: QUIC_V1_def QUIC_V2_def)
  ultimately show ?thesis
    using assms by (simp add: parse_strict_def Let_def initial_first_byte_def not_less)
qed

lemma parse_strict_header:
  assumes "length d \<le> 20" "length s \<le> 20" "2 \<le> length d + length s + length tail"
  shows "parse_strict (header f v d s @ tail) = Some (Inr i) \<longleftrightarrow> initial_first_byte f v \<and>
    parse_token_length (header f v d s @ tail) f v d s (length (header f v d s)) = Some (Inr i)"
proof -
  have "unat (of_nat (length d) :: byte) = length d" "unat (of_nat (length s) :: byte) = length s"
    using assms by (auto intro!: unat_of_nat_byte)
  with parse_strict_cut [of "to_be 4 v" f "of_nat (length d)" "d @ of_nat (length s) # s @ tail" i] assms
  show ?thesis by (simp add: header_def Let_def add.assoc)
qed

lemma parse_strict_is_header:
  assumes "parse_strict packet = Some (Inr i)"
  obtains f v d s tail where "packet = header f v d s @ tail" "length d \<le> 20" "length s \<le> 20"
    "2 \<le> length d + length s + length tail"
proof -
  have len: "9 \<le> length packet" using assms by (auto simp: parse_strict_def split: if_splits)
  define f vs dl r2 where "f = packet ! 0" and "vs = take 4 (drop 1 packet)" and "dl = packet ! 5" and "r2 = drop 6 packet"
  have packet: "packet = f # vs @ dl # r2"
    using id_take_nth_drop [of 5 packet] len by (cases packet) (auto simp: f_def vs_def dl_def r2_def)
  have vs: "length vs = 4" using len by (simp add: vs_def)
  define d sl where "d = take (unat dl) r2" and "sl = r2 ! unat dl"
  define s tail where "s = take (unat sl) (drop (unat dl + 1) r2)" and "tail = drop (unat dl + 1 + unat sl) r2"
  have bounds: "unat dl \<le> 20" "unat dl < length r2" "unat sl \<le> 20" "unat dl + 1 + unat sl \<le> length r2"
    using assms len parse_strict_cut [OF vs, of f dl r2 i] by (simp_all add: packet Let_def sl_def)
  have lens: "length d = unat dl" "length s = unat sl" using bounds by (simp_all add: d_def s_def)
  have "r2 = d @ sl # s @ tail"
    using id_take_nth_drop [OF bounds(2)] append_take_drop_id [of "unat sl" "drop (unat dl + 1) r2"]
    by (simp add: d_def sl_def s_def tail_def ac_simps)
  with packet lens vs have "packet = header f (from_be vs) d s @ tail"
    using to_be_from_be [of vs, where 'a = 32] by (simp add: header_def)
  with that [OF this] lens bounds len show thesis by simp
qed

lemma parse_token_length_total:
  assumes "scid_end \<le> length packet"
  shows "\<exists>r. parse_token_length packet f v d s scid_end = Some r"
proof -
  have "\<exists>r. try_bind (ok_or_run LengthInvalid (read_varint xs)) (\<lambda>(len, len_size).
      try_bind (ok_or LengthOverrun (checked_add (g len_size) (unat len))) (\<lambda>declared_end.
        if length packet < declared_end then Some (Inl LengthOverrun) else Some (Inr (h len len_size)))) = Some r"
    for xs and g :: "nat \<Rightarrow> nat" and h :: "u64 \<Rightarrow> nat \<Rightarrow> initial"
    by (rule try_bind_no_panic) (auto intro!: ok_or_run_total read_varint_total try_bind_no_panic ok_or_total)
  then show ?thesis
    using assms unfolding parse_token_length_def Let_def
    by (auto intro!: try_bind_no_panic ok_or_run_total read_varint_total ok_or_total simp: checked_add_Some dest: read_varint_size)
qed

lemma parse_strict_total: "\<exists>r. parse_strict packet = Some r"
proof (cases "length packet < 9")
  case False
  then have "packet \<noteq> []" by auto
  with False show ?thesis by (simp add: parse_strict_def Let_def parse_token_length_total)
qed (simp add: parse_strict_def)

lemma parse_strict_accepts:
  assumes "length packet < 2 ^ 64"
  shows "parse_strict packet = Some (Inr i) \<longleftrightarrow> (\<exists>vtok vlen rest. initial_wire i vtok vlen rest packet)"
proof
  assume ok: "parse_strict packet = Some (Inr i)"
  from parse_strict_is_header [OF this] obtain f v d s tail where packet: "packet = header f v d s @ tail"
    and lens: "length d \<le> 20" "length s \<le> 20" "2 \<le> length d + length s + length tail" .
  from ok parse_strict_header [OF lens, of f v i] packet
  have "initial_first_byte f v" "parse_token_length (header f v d s @ tail) f v d s (length (header f v d s)) = Some (Inr i)"
    by simp_all
  then obtain vtok token vlen rest n len where "tail = vtok @ token @ vlen @ rest"
      "read_varint vtok = Some (Some (n, length vtok))" "unat n = length token"
      "read_varint vlen = Some (Some (len, length vlen))" "unat len \<le> length rest"
      "i = \<lparr>in_first_byte = f, in_version = v, in_dcid = d, in_scid = s, in_token = token, in_length = len,
            in_pn_offset = length (header f v d s) + length vtok + length token + length vlen\<rparr>"
    using parse_token_length_iff [of "header f v d s" tail f v d s i] assms packet by blast
  with \<open>initial_first_byte f v\<close> packet lens have "initial_wire i vtok vlen rest packet"
    by (auto simp: initial_wire_def header_def)
  then show "\<exists>vtok vlen rest. initial_wire i vtok vlen rest packet" by blast
next
  assume "\<exists>vtok vlen rest. initial_wire i vtok vlen rest packet"
  then obtain vtok vlen rest where wire: "initial_wire i vtok vlen rest packet" by blast
  define hdr tail where "hdr = header (in_first_byte i) (in_version i) (in_dcid i) (in_scid i)"
    and "tail = vtok @ in_token i @ vlen @ rest"
  have packet: "packet = hdr @ tail" and lens: "length (in_dcid i) \<le> 20" "length (in_scid i) \<le> 20"
    using wire by (simp_all add: initial_wire_def hdr_def tail_def header_def)
  have "2 \<le> length vtok + length vlen" using wire by (fastforce simp: initial_wire_def dest: read_varint_size(1))
  then have "2 \<le> length (in_dcid i) + length (in_scid i) + length tail" by (simp add: tail_def)
  note header = parse_strict_header [OF lens this, of "in_first_byte i" "in_version i" i, folded hdr_def]
  obtain n where n: "unat n = length (in_token i)" "read_varint vtok = Some (Some (n, length vtok))"
    using wire by (auto simp: initial_wire_def)
  have offset: "in_pn_offset i = length hdr + length vtok + length (in_token i) + length vlen"
    using wire packet by (simp add: initial_wire_def tail_def)
  have "parse_token_length (hdr @ tail) (in_first_byte i) (in_version i) (in_dcid i) (in_scid i) (length hdr) = Some (Inr i)"
    using assms wire n offset unfolding packet tail_def initial_wire_def
    by (intro iffD2 [OF parse_token_length_iff]
        exI [of _ vtok] exI [of _ "in_token i"] exI [of _ vlen] exI [of _ rest] exI [of _ n] exI [of _ "in_length i"]) simp_all
  with header packet wire show "parse_strict packet = Some (Inr i)"
    by (simp add: initial_wire_def)
qed

text \<open>
  C19. The Initial parser recognises exactly the wire grammar: a packet is accepted as \<open>i\<close> exactly when
  it is the long header of a supported version with the Initial type bits of that version, connection ids
  of at most 20 bytes, a token preceded by its length, and a length that does not exceed the bytes that
  follow; every field of \<open>i\<close> is the corresponding part of the packet. It never panics.
\<close>

theorem parse_strict_iff:
  assumes "length packet < 2 ^ 64"
  shows "(parse_strict packet = Some (Inr i) \<longleftrightarrow>
    (\<exists>vtok vlen rest. initial_wire i vtok vlen rest packet)) \<and> (\<exists>r. parse_strict packet = Some r)"
  using parse_strict_accepts [OF assms] parse_strict_total by blast

text \<open>A version 1 Initial with one-byte connection ids, a short token and a two-byte payload.\<close>

definition sample_initial :: "bytes \<Rightarrow> bytes" where
  "sample_initial token = [0xc0, 0, 0, 0, 1, 1, 0xaa, 1, 0xbb, of_nat (length token)] @ token @ [2, 7, 8]"

definition sample_header :: "bytes \<Rightarrow> initial" where
  "sample_header token = \<lparr>in_first_byte = 0xc0, in_version = QUIC_V1, in_dcid = [0xaa], in_scid = [0xbb],
    in_token = token, in_length = 2, in_pn_offset = 11 + length token\<rparr>"

lemma read_varint_short:
  assumes "n < 64"
  shows "read_varint [of_nat n] = Some (Some (of_nat n, 1))"
proof -
  have high: "\<not> bit n k" if "6 \<le> k" for k using not_bit_nat [of n 6 k] assms that by simp
  have "drop_bit 6 (of_nat n :: byte) = 0" using high by (intro bit_word_eqI) (auto simp: bit_simps)
  moreover have "take_bit 6 (of_nat n :: byte) = of_nat n"
    using high by (intro bit_word_eqI) (auto simp: bit_simps, meson leI)
  then have "of_nat n AND 0x3f = (of_nat n :: byte)" by (simp add: take_bit_eq_mask mask_eq_exp_minus_1)
  moreover have "unat (of_nat n :: byte) = n" using assms by (simp add: unat_of_nat_byte)
  then have "ucast (of_nat n :: byte) = (of_nat n :: u64)" by (metis of_nat_unat)
  ultimately show ?thesis by (simp add: read_varint_def)
qed

lemma sample_initial_wire:
  assumes "length token < 64"
  shows "initial_wire (sample_header token) [of_nat (length token)] [2] [7, 8] (sample_initial token)"
proof -
  have "read_varint [2] = Some (Some (2, 1))" by (simp add: read_varint_def)
  moreover have "unat (of_nat (length token) :: u64) = length token"
    using assms by (simp add: unsigned_of_nat take_bit_nat_eq_self_iff)
  ultimately show ?thesis
    using read_varint_short [OF assms]
    by (auto simp: initial_wire_def sample_header_def sample_initial_def initial_first_byte_def QUIC_V1_def to_be_def upt_rec)
qed

theorem parse_strict_iff_witness:
  "parse_strict (sample_initial [0x11, 0x22]) = Some (Inr (sample_header [0x11, 0x22]))"
  using parse_strict_iff [of "sample_initial [0x11, 0x22]" "sample_header [0x11, 0x22]"]
    sample_initial_wire [of "[0x11, 0x22]"] by (auto simp: sample_initial_def)

lemma sample_initial_parses:
  "length token < 64 \<Longrightarrow> parse_strict (sample_initial token) = Some (Inr (sample_header token))"
  using parse_strict_accepts [of "sample_initial token"] sample_initial_wire [of token] by (fastforce simp: sample_initial_def)

end
