(* ===== verification/Retry_Packet.thy ===== *)
theory Retry_Packet
  imports Quic_Initial
begin

text \<open>
  \<open>pesigitg-daemon/src/retry/packet.rs\<close>: the wire format of a QUIC Retry packet and its integrity tag.
  AES-128-GCM is third-party: \<open>seal key nonce aad plaintext\<close> is \<open>Aes128Gcm::encrypt_in_place_detached\<close>,
  which returns the ciphertext and the tag or fails, and \<open>gcm_ok\<close> is its documented behaviour on inputs
  below the length limits of the mode.
\<close>

type_synonym gcm = "bytes \<Rightarrow> bytes \<Rightarrow> bytes \<Rightarrow> bytes \<Rightarrow> (bytes \<times> bytes) option"

definition gcm_limit :: nat where "gcm_limit = 2 ^ 36"

definition gcm_ok :: "gcm \<Rightarrow> bool" where
  "gcm_ok seal \<longleftrightarrow>
     (\<forall>key nonce aad plain. length key = 16 \<longrightarrow> length nonce = 12 \<longrightarrow> length aad < gcm_limit \<longrightarrow> length plain < gcm_limit \<longrightarrow>
        (\<exists>cipher tag. seal key nonce aad plain = Some (cipher, tag) \<and> length cipher = length plain \<and> length tag = 16))"

section \<open>Operations\<close>

definition RETRY_KEY_V1 :: bytes where
  "RETRY_KEY_V1 = [0xbe, 0x0c, 0x69, 0x0b, 0x9f, 0x66, 0x57, 0x5a, 0x1d, 0x76, 0x6b, 0x54, 0xe3, 0x68, 0xc8, 0x4e]"

definition RETRY_NONCE_V1 :: bytes where
  "RETRY_NONCE_V1 = [0x46, 0x15, 0x99, 0xd3, 0x5d, 0x63, 0x2b, 0xf2, 0x23, 0x98, 0x25, 0xbb]"

definition RETRY_KEY_V2 :: bytes where
  "RETRY_KEY_V2 = [0x8f, 0xb4, 0xb0, 0x1b, 0x56, 0xac, 0x48, 0xe2, 0x60, 0xfb, 0xcb, 0xce, 0xad, 0x7c, 0xcc, 0x92]"

definition RETRY_NONCE_V2 :: bytes where
  "RETRY_NONCE_V2 = [0xd8, 0x69, 0x69, 0xbc, 0x2d, 0x7c, 0x6d, 0x99, 0x90, 0xef, 0xb0, 0x4a]"

definition INTEGRITY_TAG_LEN :: nat where [simp]: "INTEGRITY_TAG_LEN = 16"
definition RETRY_MAX_CID_LEN :: nat where [simp]: "RETRY_MAX_CID_LEN = 20"
definition PSEUDO_MAX :: nat where "PSEUDO_MAX = 1024"

datatype build_error = OutputTooSmall | CidTooLong | PseudoTooLong | UnsupportedRetryVersion

definition compute_integrity_tag :: "gcm \<Rightarrow> u32 \<Rightarrow> bytes \<Rightarrow> bytes \<Rightarrow> (build_error + bytes) run" where
  "compute_integrity_tag seal version odcid retry_without_tag =
     (if length odcid > RETRY_MAX_CID_LEN then ret (Inl CidTooLong)
      else
        try_bind
          (ret (if version = QUIC_V1 then Inr (RETRY_KEY_V1, RETRY_NONCE_V1)
                else if version = QUIC_V2 then Inr (RETRY_KEY_V2, RETRY_NONCE_V2)
                else Inl UnsupportedRetryVersion)) (\<lambda>(key, iv).
        let pseudo_len = 1 + length odcid + length retry_without_tag in
        if pseudo_len > PSEUDO_MAX then ret (Inl PseudoTooLong)
        else do {
          let pseudo = replicate PSEUDO_MAX 0;
          pseudo \<leftarrow> set_idx pseudo 0 (of_nat (length odcid));
          pseudo \<leftarrow> copy_into pseudo 1 (1 + length odcid) odcid;
          pseudo \<leftarrow> copy_into pseudo (1 + length odcid) pseudo_len retry_without_tag;
          aad \<leftarrow> slice pseudo 0 pseudo_len;
          sealed \<leftarrow> seal key iv aad [];
          out \<leftarrow> copy_into (replicate INTEGRITY_TAG_LEN 0) 0 INTEGRITY_TAG_LEN (snd sealed);
          ret (Inr out)
        }))"

text \<open>The body of \<open>build_retry\<close> that fills the buffer; the caller keeps what is written before an error.\<close>

definition write_retry :: "gcm \<Rightarrow> bytes \<Rightarrow> u8 \<Rightarrow> u32 \<Rightarrow> bytes \<Rightarrow> bytes \<Rightarrow> bytes \<Rightarrow> bytes \<Rightarrow> ((build_error + nat) \<times> bytes) run" where
  "write_retry seal out first_byte version odcid dcid scid token = do {
     let body_len = 1 + 4 + 1 + length dcid + 1 + length scid + length token;
     let total = body_len + INTEGRITY_TAG_LEN;
     if length out < total then ret (Inl OutputTooSmall, out)
     else do {
       out \<leftarrow> set_idx out 0 first_byte;
       out \<leftarrow> copy_into out 1 5 (to_be 4 version);
       let off = 5;
       out \<leftarrow> set_idx out off (of_nat (length dcid));
       let off = off + 1;
       out \<leftarrow> copy_into out off (off + length dcid) dcid;
       let off = off + length dcid;
       out \<leftarrow> set_idx out off (of_nat (length scid));
       let off = off + 1;
       out \<leftarrow> copy_into out off (off + length scid) scid;
       let off = off + length scid;
       out \<leftarrow> copy_into out off (off + length token) token;
       body \<leftarrow> slice out 0 body_len;
       r \<leftarrow> compute_integrity_tag seal version odcid body;
       case r of
         Inl e \<Rightarrow> ret (Inl e, out)
       | Inr tag \<Rightarrow> do {
           out \<leftarrow> copy_into out body_len total tag;
           ret (Inr total, out)
         }
     }
   }"

definition build_retry :: "gcm \<Rightarrow> bytes \<Rightarrow> u32 \<Rightarrow> bytes \<Rightarrow> bytes \<Rightarrow> bytes \<Rightarrow> bytes \<Rightarrow> ((build_error + nat) \<times> bytes) run" where
  "build_retry seal out version odcid dcid scid token =
     (if length odcid > RETRY_MAX_CID_LEN \<or> length dcid > RETRY_MAX_CID_LEN \<or> length scid > RETRY_MAX_CID_LEN
      then ret (Inl CidTooLong, out)
      else if version = QUIC_V1 then write_retry seal out 0xf0 version odcid dcid scid token
      else if version = QUIC_V2 then write_retry seal out 0xc0 version odcid dcid scid token
      else ret (Inl UnsupportedRetryVersion, out))"

section \<open>The packet that is written\<close>

text \<open>The bytes of a Retry without its tag, and the tag over the pseudo-packet.\<close>

definition retry_body :: "u32 \<Rightarrow> bytes \<Rightarrow> bytes \<Rightarrow> bytes \<Rightarrow> bytes" where
  "retry_body version dcid scid token =
     (if version = QUIC_V1 then 0xf0 else 0xc0) # to_be 4 version @ of_nat (length dcid) # dcid @
       of_nat (length scid) # scid @ token"

definition retry_tag :: "gcm \<Rightarrow> u32 \<Rightarrow> bytes \<Rightarrow> bytes \<Rightarrow> bytes option" where
  "retry_tag seal version odcid body =
     map_option snd (if version = QUIC_V1
       then seal RETRY_KEY_V1 RETRY_NONCE_V1 (of_nat (length odcid) # odcid @ body) []
       else seal RETRY_KEY_V2 RETRY_NONCE_V2 (of_nat (length odcid) # odcid @ body) [])"

lemma length_retry_body [simp]: "length (retry_body v d s t) = 7 + length d + length s + length t"
  by (simp add: retry_body_def)

lemma retry_tag_length:
  assumes "gcm_ok seal" "length odcid + length body < 1024"
  shows "\<exists>tag. retry_tag seal v odcid body = Some tag \<and> length tag = 16"
proof -
  define aad where "aad = of_nat (length odcid) # odcid @ body"
  have "length aad < gcm_limit" "length ([] :: bytes) < gcm_limit" using assms(2) by (simp_all add: aad_def gcm_limit_def)
  then have "\<exists>cipher tag. seal key nonce aad [] = Some (cipher, tag) \<and> length tag = 16"
    if "length key = 16" "length nonce = 12" for key nonce
    using assms(1) that unfolding gcm_ok_def by blast
  from this [of RETRY_KEY_V1 RETRY_NONCE_V1] this [of RETRY_KEY_V2 RETRY_NONCE_V2]
  show ?thesis
    by (auto simp: retry_tag_def RETRY_KEY_V1_def RETRY_KEY_V2_def RETRY_NONCE_V1_def RETRY_NONCE_V2_def aad_def)
qed

lemma QUIC_V2_neq_V1: "QUIC_V2 \<noteq> QUIC_V1"
  by (simp add: QUIC_V1_def QUIC_V2_def)

lemma compute_integrity_tag_eq:
  assumes "gcm_ok seal" "version = QUIC_V1 \<or> version = QUIC_V2" "length odcid \<le> 20"
  shows "compute_integrity_tag seal version odcid body =
    (if 1 + length odcid + length body > PSEUDO_MAX then Some (Inl PseudoTooLong)
     else map_option Inr (retry_tag seal version odcid body))"
proof (cases "1 + length odcid + length body > PSEUDO_MAX")
  case True
  then show ?thesis using assms by (auto simp: compute_integrity_tag_def)
next
  case False
  from retry_tag_length [OF assms(1), of odcid body version] False obtain tag
    where tag: "retry_tag seal version odcid body = Some tag" "length tag = 16" by (auto simp: PSEUDO_MAX_def)
  have copy: "copy_into (replicate 16 0) 0 16 tag = Some tag" using tag(2) by (simp add: copy_all)
  show ?thesis
  proof (cases "version = QUIC_V1")
    case True
    with tag obtain c where "seal RETRY_KEY_V1 RETRY_NONCE_V1 (of_nat (length odcid) # odcid @ body) [] = Some (c, tag)"
      by (auto simp: retry_tag_def)
    with True assms(3) False copy show ?thesis unfolding tag(1)
      by (simp add: compute_integrity_tag_def Let_def filling del: set_idx_in copy_into_in slice_in)
  next
    case v2: False
    with tag obtain c where "seal RETRY_KEY_V2 RETRY_NONCE_V2 (of_nat (length odcid) # odcid @ body) [] = Some (c, tag)"
      by (auto simp: retry_tag_def)
    with v2 assms(2,3) False copy show ?thesis unfolding tag(1)
      by (simp add: compute_integrity_tag_def Let_def filling QUIC_V2_neq_V1 del: set_idx_in copy_into_in slice_in)
  qed
qed

lemma write_retry_eq:
  fixes f :: byte and version :: u32
  assumes "7 + length dcid + length scid + length token + 16 \<le> length out"
  defines "body \<equiv> f # to_be 4 version @ of_nat (length dcid) # dcid @ of_nat (length scid) # scid @ token"
  shows "write_retry seal out f version odcid dcid scid token = do {
    r \<leftarrow> compute_integrity_tag seal version odcid body;
    case r of
      Inl e \<Rightarrow> Some (Inl e, filled body out)
    | Inr tag \<Rightarrow> do {
        out \<leftarrow> copy_into (filled body out) (length body) (length body + 16) tag;
        Some (Inr (length body + 16), out)
      }
    }"
proof -
  have "out \<noteq> []" using assms(1) by auto
  with assms(1) show ?thesis
    by (simp add: write_retry_def body_def Let_def filling add.assoc cong: sum.case_cong del: set_idx_in copy_into_in slice_in)
qed

lemma build_retry_body:
  assumes "version = QUIC_V1 \<or> version = QUIC_V2" "length odcid \<le> 20" "length dcid \<le> 20" "length scid \<le> 20"
  shows "build_retry seal out version odcid dcid scid token =
    write_retry seal out (hd (retry_body version dcid scid token)) version odcid dcid scid token"
  using assms QUIC_V2_neq_V1 by (auto simp: build_retry_def retry_body_def)

lemma build_retry_writes:
  assumes "gcm_ok seal" "version = QUIC_V1 \<or> version = QUIC_V2"
    "length odcid \<le> 20" "length dcid \<le> 20" "length scid \<le> 20"
    and fits: "length (retry_body version dcid scid token) + 16 \<le> length out"
      "length odcid + length (retry_body version dcid scid token) < PSEUDO_MAX"
  obtains tag where "retry_tag seal version odcid (retry_body version dcid scid token) = Some tag" "length tag = 16"
    "build_retry seal out version odcid dcid scid token =
       Some (Inr (length (retry_body version dcid scid token) + 16),
         filled (retry_body version dcid scid token @ tag) out)"
proof -
  let ?body = "retry_body version dcid scid token"
  from retry_tag_length [OF assms(1), of odcid ?body version] fits(2) obtain tag
    where tag: "retry_tag seal version odcid ?body = Some tag" "length tag = 16" by (auto simp: PSEUDO_MAX_def)
  then have "compute_integrity_tag seal version odcid ?body = Some (Inr tag)"
    using compute_integrity_tag_eq [OF assms(1,2,3), of ?body] fits(2) by simp
  then have "build_retry seal out version odcid dcid scid token = Some (Inr (length ?body + 16), filled (?body @ tag) out)"
    unfolding build_retry_body [OF assms(2-5)] using fits(1) tag(2)
    by (subst write_retry_eq) (simp_all add: retry_body_def copy_filled del: copy_into_in)
  with that tag show thesis by blast
qed

text \<open>
  C21. \<open>build_retry\<close> on every branch. It never panics; it fails exactly for a connection id of more than 20
  bytes, a version other than 1 and 2, a buffer that is too short, or a token that makes the pseudo-packet
  exceed its limit, in this order of precedence. Otherwise it writes the first byte with the Retry type bits
  of the version, the version, the length-prefixed connection ids, the token and the 16-byte tag of the
  pseudo-packet under the key and nonce of the version, leaves the rest of the buffer as it was, and returns the number of bytes written.
\<close>

theorem build_retry_outcome:
  fixes version :: u32 and dcid scid token out :: bytes
  assumes gcm: "gcm_ok seal"
  defines "body \<equiv> retry_body version dcid scid token"
  shows "\<exists>out'. build_retry seal out version odcid dcid scid token = Some
     ((if 20 < length odcid \<or> 20 < length dcid \<or> 20 < length scid then Inl CidTooLong
       else if version \<noteq> QUIC_V1 \<and> version \<noteq> QUIC_V2 then Inl UnsupportedRetryVersion
       else if length out < length body + 16 then Inl OutputTooSmall
       else if 1024 < 1 + length odcid + length body then Inl PseudoTooLong
       else Inr (length body + 16)), out') \<and>
     length out' = length out \<and>
     (length odcid \<le> 20 \<and> length dcid \<le> 20 \<and> length scid \<le> 20 \<and> (version = QUIC_V1 \<or> version = QUIC_V2) \<and>
      length body + 16 \<le> length out \<and> 1 + length odcid + length body \<le> 1024 \<longrightarrow>
      (\<exists>tag. retry_tag seal version odcid body = Some tag \<and> length tag = 16 \<and>
         out' = body @ tag @ drop (length body + 16) out))"
proof (cases "length odcid \<le> 20 \<and> length dcid \<le> 20 \<and> length scid \<le> 20 \<and> (version = QUIC_V1 \<or> version = QUIC_V2)")
  case False
  then show ?thesis by (auto simp: build_retry_def not_le)
next
  case True
  note body = build_retry_body [of version odcid dcid scid seal out token]
  consider "length out < length body + 16"
    | "length body + 16 \<le> length out" "PSEUDO_MAX < 1 + length odcid + length body"
    | "length body + 16 \<le> length out" "length odcid + length body < PSEUDO_MAX" by linarith
  then show ?thesis
  proof cases
    case 1
    with True body show ?thesis by (auto simp: write_retry_def body_def)
  next
    case 2
    with True have "compute_integrity_tag seal version odcid body = Some (Inl PseudoTooLong)"
      by (simp add: compute_integrity_tag_eq gcm)
    with True 2 body have "build_retry seal out version odcid dcid scid token = Some (Inl PseudoTooLong, filled body out)"
      using write_retry_eq [of dcid scid token out seal "hd body" version odcid] by (simp add: body_def retry_body_def)
    with True 2 show ?thesis by (auto simp: PSEUDO_MAX_def)
  next
    case 3
    with True gcm obtain tag where "retry_tag seal version odcid body = Some tag" "length tag = 16"
      "build_retry seal out version odcid dcid scid token = Some (Inr (length body + 16), filled (body @ tag) out)"
      using build_retry_writes [of seal version odcid dcid scid token out] unfolding body_def by blast
    with True 3 show ?thesis by (auto simp: PSEUDO_MAX_def filled_def)
  qed
qed

text \<open>An instance of the cipher interface.\<close>

definition sample_seal :: gcm where
  "sample_seal key nonce aad plain = Some (plain, take 16 (key @ nonce))"

lemma sample_seal_ok: "gcm_ok sample_seal"
  by (simp add: gcm_ok_def sample_seal_def)

theorem build_retry_outcome_witness:
  "\<exists>out'. build_retry sample_seal (replicate 30 9) QUIC_V1 [1] [2] [3] [4] = Some (Inr 26, out') \<and>
     out' = [0xf0, 0, 0, 0, 1, 1, 2, 1, 3, 4] @ RETRY_KEY_V1 @ [9, 9, 9, 9]"
proof -
  have "retry_body QUIC_V1 [2] [3] [4] = [0xf0, 0, 0, 0, 1, 1, 2, 1, 3, 4]"
    by (simp add: retry_body_def QUIC_V1_def to_be_def upt_rec)
  moreover have "retry_tag sample_seal QUIC_V1 [1] body = Some RETRY_KEY_V1" for body
    by (simp add: retry_tag_def sample_seal_def RETRY_KEY_V1_def)
  ultimately show ?thesis
    using build_retry_outcome [OF sample_seal_ok, of "replicate 30 9" QUIC_V1 "[1]" "[2]" "[3]" "[4]"]
    by (auto simp: numeral_eq_Suc)
qed

end
