(* ===== verification/Checksum.thy ===== *)
theory Checksum
  imports Prelude
begin

text \<open>
  The Internet checksum of \<open>pesigitg-daemon/src/retry/datapath.rs\<close>: one's complement sums over 16-bit
  words with the carries folded at the end. A checksum is right when the receiver's sum over the bytes
  that include it is zero.
\<close>

section \<open>Operations\<close>

fun fold_slice :: "u32 \<Rightarrow> bytes \<Rightarrow> u32" where
  "fold_slice acc (a # b # bytes) = fold_slice (acc + ucast (be16 a b)) bytes"
| "fold_slice acc [a] = acc + push_bit 8 (ucast a)"
| "fold_slice acc [] = acc"

text \<open>\<open>while acc > 0xffff\<close>.\<close>

function fold_carries :: "u32 \<Rightarrow> u32" where
  "fold_carries acc = (if acc > 0xffff then fold_carries ((acc AND 0xffff) + drop_bit 16 acc) else acc)"
  by pat_completeness auto

lemma unat_split16:
  "unat ((acc AND 0xffff) + drop_bit 16 (acc :: u32)) = unat acc mod 65536 + unat acc div 65536"
proof -
  have "acc AND 0xffff = take_bit 16 acc" by (simp add: take_bit_eq_mask mask_eq_exp_minus_1)
  then have "unat (acc AND 0xffff) = take_bit 16 (unat acc)" by (simp only: unsigned_take_bit_eq)
  then have "unat (acc AND 0xffff) = unat acc mod 65536" by (simp add: take_bit_eq_mod)
  moreover have "unat (drop_bit 16 acc) = drop_bit 16 (unat acc)" by (simp add: unat_drop_bit_eq)
  then have "unat (drop_bit 16 acc) = unat acc div 65536" by (simp only: drop_bit_eq_div) simp
  moreover have "unat acc < 2 ^ 32" using unsigned_less [of acc] by simp
  ultimately show ?thesis by (subst unat_word_ariths) auto
qed

lemma fold16:
  fixes n :: nat
  shows "(n mod 65536 + n div 65536) mod 65535 = n mod 65535"
    and "65536 \<le> n \<Longrightarrow> 0 < n mod 65536 + n div 65536 \<and> n mod 65536 + n div 65536 < n"
proof -
  have n: "n = n div 65536 * 65535 + (n mod 65536 + n div 65536)"
    using div_mult_mod_eq [of n 65536] by linarith
  show "(n mod 65536 + n div 65536) mod 65535 = n mod 65535"
    by (subst (3) n) (simp only: mod_mult_self3)
  assume "65536 \<le> n"
  then have "1 \<le> n div 65536" by (simp add: Suc_le_eq div_greater_zero_iff)
  with n show "0 < n mod 65536 + n div 65536 \<and> n mod 65536 + n div 65536 < n" by linarith
qed

termination fold_carries
proof (relation "measure unat")
  fix acc :: u32
  assume "0xffff < acc"
  then have "65535 < unat acc" by (simp add: word_less_nat_alt)
  then show "((acc AND 0xffff) + drop_bit 16 acc, acc) \<in> measure unat"
    unfolding in_measure unat_split16 using fold16(2) [of "unat acc"] by simp
qed simp

declare fold_carries.simps [simp del]

definition ones_complement_sum :: "bytes \<Rightarrow> u16" where
  "ones_complement_sum bytes = NOT (ucast (fold_carries (fold_slice 0 bytes)))"

section \<open>Sums modulo 65535\<close>

text \<open>The sum of the 16-bit words as a number.\<close>

fun word_sum :: "bytes \<Rightarrow> nat" where
  "word_sum (a # b # bytes) = unat (be16 a b) + word_sum bytes"
| "word_sum [a] = 256 * unat a"
| "word_sum [] = 0"

lemma unat_u16_le: "unat (w :: u16) \<le> 65535"
proof -
  have "unat w < 2 ^ LENGTH(16)" by (rule unsigned_less)
  then show ?thesis by simp
qed

lemma fold_slice_sum: "fold_slice acc bytes = acc + of_nat (word_sum bytes)"
proof (induction acc bytes rule: fold_slice.induct)
  case (2 acc a)
  have "push_bit 8 (ucast a :: u32) = of_nat (256 * unat a)"
    by (simp add: push_bit_eq_mult mult.commute)
  then show ?case by simp
qed simp_all

lemma word_sum_bound: "word_sum bytes \<le> 65535 * length bytes"
proof (induction bytes rule: word_sum.induct)
  case (1 a b bytes)
  then show ?case using unat_u16_le [of "be16 a b"] by simp
next
  case (2 a)
  then show ?case using unat_byte_le [of a] by simp
qed simp

lemma word_sum_append: "even (length xs) \<Longrightarrow> word_sum (xs @ ys) = word_sum xs + word_sum ys"
  by (induction xs rule: word_sum.induct) auto

text \<open>A folded sum fits in 16 bits, is congruent to the sum modulo 65535, and is zero only for zero.\<close>

lemma fold_carries_spec:
  "unat (fold_carries acc) \<le> 65535 \<and> unat (fold_carries acc) mod 65535 = unat acc mod 65535 \<and>
   (fold_carries acc = 0 \<longleftrightarrow> acc = 0)"
proof (induction acc rule: fold_carries.induct)
  case (1 acc)
  show ?case
  proof (cases "acc > 0xffff")
    case True
    let ?a = "(acc AND 0xffff) + drop_bit 16 acc"
    have "65535 < unat acc" using True by (simp add: word_less_nat_alt)
    then have "?a \<noteq> 0" "unat ?a mod 65535 = unat acc mod 65535"
      unfolding unat_eq_0 [symmetric] unat_split16 using fold16 [of "unat acc"] by simp_all
    with 1 [OF True] True show ?thesis by (auto simp: fold_carries.simps [of acc])
  next
    case False
    then show ?thesis by (simp add: fold_carries.simps [of acc] word_less_nat_alt not_less)
  qed
qed

lemma fold_carries_of_nat:
  assumes "n < 2 ^ 32"
  shows "unat (fold_carries (of_nat n)) = (if n = 0 then 0 else if n mod 65535 = 0 then 65535 else n mod 65535)"
proof -
  have n: "unat (of_nat n :: u32) = n" using assms by (simp add: unsigned_of_nat take_bit_nat_eq_self_iff)
  have spec: "unat (fold_carries (of_nat n)) \<le> 65535" "unat (fold_carries (of_nat n)) mod 65535 = n mod 65535"
      "unat (fold_carries (of_nat n)) = 0 \<longleftrightarrow> n = 0"
    using fold_carries_spec [of "of_nat n"] n by (auto simp: unat_eq_0)
  then show ?thesis by (cases "unat (fold_carries (of_nat n)) = 65535") auto
qed

lemma unat_not_u16: "unat (NOT (w :: u16)) = 65535 - unat w"
proof -
  have "NOT w = - 1 - w" by (simp add: not_eq_complement)
  also have "unat \<dots> = unat (- 1 :: u16) - unat w"
    by (rule unat_sub) simp
  also have "unat (- 1 :: u16) = 2 ^ 16 - 1" by (simp only: unsigned_minus_1_eq_mask mask_eq_exp_minus_1) simp
  finally show ?thesis by simp
qed

lemma ones_complement_sum_nat:
  assumes "length bytes \<le> 65535"
  shows "unat (ones_complement_sum bytes) =
    65535 - (if word_sum bytes = 0 then 0 else if word_sum bytes mod 65535 = 0 then 65535 else word_sum bytes mod 65535)"
proof -
  have "word_sum bytes < 2 ^ 32" using word_sum_bound [of bytes] assms by simp
  from fold_carries_of_nat [OF this]
  have *: "unat (fold_carries (fold_slice 0 bytes)) =
      (if word_sum bytes = 0 then 0 else if word_sum bytes mod 65535 = 0 then 65535 else word_sum bytes mod 65535)"
    by (simp add: fold_slice_sum)
  then have "unat (fold_carries (fold_slice 0 bytes)) \<le> 65535" by (auto intro: less_imp_le)
  then have "unat (ucast (fold_carries (fold_slice 0 bytes)) :: u16) = unat (fold_carries (fold_slice 0 bytes))"
    by (simp add: unsigned_ucast_eq take_bit_nat_eq_self_iff)
  with * show ?thesis by (simp add: ones_complement_sum_def unat_not_u16)
qed

text \<open>A receiver accepts exactly the nonzero multiples of 65535.\<close>

lemma ones_complement_sum_zero:
  assumes "length bytes \<le> 65535"
  shows "ones_complement_sum bytes = 0 \<longleftrightarrow> word_sum bytes \<noteq> 0 \<and> word_sum bytes mod 65535 = 0"
proof -
  define m where "m = word_sum bytes mod 65535"
  have "m < 65535" unfolding m_def by (rule mod_less_divisor) simp
  moreover have "ones_complement_sum bytes = 0 \<longleftrightarrow> unat (ones_complement_sum bytes) = 0" by (simp only: unat_eq_0)
  ultimately show ?thesis unfolding ones_complement_sum_nat [OF assms] m_def [symmetric] by auto
qed

text \<open>Adding the complement of a folded sum cancels the sum.\<close>

lemma complement_cancels:
  fixes s t r M :: nat
  assumes "r \<le> M" "r mod M = (s + t) mod M"
  shows "(s + (M - r)) mod M = 0 \<longleftrightarrow> t mod M = 0"
proof -
  let ?x = "s + (M - r)"
  have "?x + t + r = (s + t) + M" using assms(1) by simp
  then have "(?x + t + r) mod M = r mod M" unfolding assms(2) by (metis mod_add_self2)
  then have "M dvd ?x + t" using mod_eq_dvd_iff_nat [of r "?x + t + r" M] by simp
  then have "M dvd ?x \<longleftrightarrow> M dvd t" by (metis dvd_add_left_iff dvd_add_right_iff)
  then show ?thesis by (simp only: dvd_eq_mod_eq_0)
qed

lemma folded_le: "(if n mod 65535 = 0 then 65535 else n mod 65535) \<le> (65535 :: nat)"
  by (auto intro: less_imp_le)

end
