(* ===== verification/Retry_Datapath.thy ===== *)
theory Retry_Datapath
  imports Packet Retry_Packet Checksum Frame_View
begin

text \<open>
  \<open>pesigitg-daemon/src/retry/datapath.rs\<close>: the decision whether an Initial is forwarded, passed on or
  answered with a Retry, and the rewriting of the frame into that answer. The shared rate trackers are a
  store \<open>trackers\<close> indexed by their addresses; the per-batch counter of Initials is threaded through.
\<close>

section \<open>Data\<close>

datatype outcome = Skip | Forward | Emitted

datatype detail = NoDetail | DetailParseError | TokenValid | TokenInvalid | TokenExpired | Issued | Observed

datatype decision = DSkip | DForward | DEmit

record frame_layout =
  fl_is_ipv4 :: bool
  fl_ip_offset :: nat
  fl_ip_hdr_len :: nat
  fl_udp_offset :: nat
  fl_quic_offset :: nat
  fl_src_mac :: bytes
  fl_src_ip :: ip_addr
  fl_dst_ip :: ip_addr
  fl_src_port :: u16
  fl_dst_port :: u16

section \<open>Policy\<close>

definition from_parsed :: "parsed_frame \<Rightarrow> frame_layout option" where
  "from_parsed parsed =
     (case pf_l4 parsed of
        Icmp _ _ \<Rightarrow> None
      | Udp udp_offset quic_offset src_port dst_port \<Rightarrow>
          if pf_family parsed = Ipv6 \<and> pf_ip_hdr_len parsed > IPV6_HDR_LEN then None
          else Some \<lparr>fl_is_ipv4 = (pf_family parsed = Ipv4), fl_ip_offset = ETH_HDR_LEN,
                 fl_ip_hdr_len = pf_ip_hdr_len parsed, fl_udp_offset = udp_offset, fl_quic_offset = quic_offset,
                 fl_src_mac = pf_src_mac parsed, fl_src_ip = pf_src_addr parsed, fl_dst_ip = pf_dst_addr parsed,
                 fl_src_port = src_port, fl_dst_port = dst_port\<rparr>)"

definition load_over_trigger ::
  "(tracker_ref \<Rightarrow> load_tracker) \<Rightarrow> retry_config \<Rightarrow> u64 \<Rightarrow> (bool \<times> u64) run" where
  "load_over_trigger trackers retry pending_load_initials = do {
     tracker \<leftarrow> rt_load_tracker retry;
     trigger \<leftarrow> rt_load_trigger_rate retry;
     ret (rate (trackers tracker) \<ge> trigger, pending_load_initials + 1)
   }"

definition load_gated_decision ::
  "(tracker_ref \<Rightarrow> load_tracker) \<Rightarrow> retry_config \<Rightarrow> u64 \<Rightarrow> (decision \<times> u64) run" where
  "load_gated_decision trackers retry pending_load_initials =
     (case rt_mode retry of
        Always \<Rightarrow> ret (DEmit, pending_load_initials)
      | Observe \<Rightarrow> ret (DSkip, pending_load_initials)
      | Load \<Rightarrow> do {
          (over, pending_load_initials) \<leftarrow> load_over_trigger trackers retry pending_load_initials;
          ret (if over then DEmit else DSkip, pending_load_initials)
        })"

definition classify ::
  "hmac \<Rightarrow> (tracker_ref \<Rightarrow> load_tracker) \<Rightarrow> initial \<Rightarrow> ip_addr \<Rightarrow> retry_config \<Rightarrow> u64 \<Rightarrow> u64 \<Rightarrow>
     (decision \<times> detail \<times> u64) run" where
  "classify h trackers initial src_ip retry now_ms pending_load_initials =
     (if length (in_token initial) = TOKEN_LEN then do {
        r \<leftarrow> verify h (rt_token_key retry) (in_token initial) src_ip (in_dcid initial) now_ms (rt_token_lifetime_ms retry);
        case r of
          Inr _ \<Rightarrow> ret (DForward, TokenValid, pending_load_initials)
        | Inl Invalid \<Rightarrow> do {
            (d, pending_load_initials) \<leftarrow> load_gated_decision trackers retry pending_load_initials;
            ret (d, TokenInvalid, pending_load_initials)
          }
        | Inl Expired \<Rightarrow> do {
            (d, pending_load_initials) \<leftarrow> load_gated_decision trackers retry pending_load_initials;
            ret (d, TokenExpired, pending_load_initials)
          }
      }
      else
        case rt_mode retry of
          Always \<Rightarrow> ret (DEmit, Issued, pending_load_initials)
        | Observe \<Rightarrow> ret (DSkip, Observed, pending_load_initials)
        | Load \<Rightarrow> do {
            (over, pending_load_initials) \<leftarrow> load_over_trigger trackers retry pending_load_initials;
            ret (if over then (DEmit, Issued, pending_load_initials) else (DSkip, Observed, pending_load_initials))
          })"

section \<open>Rewriting\<close>

definition reflected_v4_addrs :: "frame_layout \<Rightarrow> (bytes \<times> bytes) run" where
  "reflected_v4_addrs layout =
     (case (fl_src_ip layout, fl_dst_ip layout) of
        (V4 src, V4 dst) \<Rightarrow> ret (dst, src)
      | _ \<Rightarrow> panic)"

definition reflected_v6_addrs :: "frame_layout \<Rightarrow> (bytes \<times> bytes) run" where
  "reflected_v6_addrs layout =
     (case (fl_src_ip layout, fl_dst_ip layout) of
        (V6 src, V6 dst) \<Rightarrow> ret (dst, src)
      | _ \<Rightarrow> panic)"

definition build_reflected_headers :: "bytes \<Rightarrow> frame_layout \<Rightarrow> bytes \<Rightarrow> nat \<Rightarrow> (nat \<times> bytes) run" where
  "build_reflected_headers out layout local_mac payload_len = do {
     out \<leftarrow> copy_into out 0 6 (fl_src_mac layout);
     out \<leftarrow> copy_into out 6 12 local_mac;
     let ip_off = ETH_HDR_LEN;
     if fl_is_ipv4 layout then do {
       out \<leftarrow> copy_into out 12 14 (to_be 2 ETH_P_IP);
       out \<leftarrow> set_idx out ip_off 0x45;
       out \<leftarrow> set_idx out (ip_off + 1) 0;
       let total_len = (of_nat (IPV4_MIN_HDR_LEN + UDP_HDR_LEN + payload_len) :: u16);
       out \<leftarrow> copy_into out (ip_off + 2) (ip_off + 4) (to_be 2 total_len);
       out \<leftarrow> copy_into out (ip_off + 4) (ip_off + 6) [0, 0];
       out \<leftarrow> copy_into out (ip_off + 6) (ip_off + 8) (to_be 2 (0x4000 :: u16));
       out \<leftarrow> set_idx out (ip_off + 8) 64;
       out \<leftarrow> set_idx out (ip_off + 9) IPPROTO_UDP;
       out \<leftarrow> copy_into out (ip_off + 10) (ip_off + 12) [0, 0];
       (src, dst) \<leftarrow> reflected_v4_addrs layout;
       out \<leftarrow> copy_into out (ip_off + 12) (ip_off + 16) src;
       out \<leftarrow> copy_into out (ip_off + 16) (ip_off + 20) dst;
       let udp_off = ip_off + IPV4_MIN_HDR_LEN;
       out \<leftarrow> copy_into out udp_off (udp_off + 2) (to_be 2 (fl_dst_port layout));
       out \<leftarrow> copy_into out (udp_off + 2) (udp_off + 4) (to_be 2 (fl_src_port layout));
       let udp_len = (of_nat (UDP_HDR_LEN + payload_len) :: u16);
       out \<leftarrow> copy_into out (udp_off + 4) (udp_off + 6) (to_be 2 udp_len);
       out \<leftarrow> copy_into out (udp_off + 6) (udp_off + 8) [0, 0];
       ret (ETH_HDR_LEN + IPV4_MIN_HDR_LEN + UDP_HDR_LEN, out)
     }
     else do {
       out \<leftarrow> copy_into out 12 14 (to_be 2 ETH_P_IPV6);
       out \<leftarrow> set_idx out ip_off 0x60;
       out \<leftarrow> set_idx out (ip_off + 1) 0;
       out \<leftarrow> set_idx out (ip_off + 2) 0;
       out \<leftarrow> set_idx out (ip_off + 3) 0;
       let payload = (of_nat (UDP_HDR_LEN + payload_len) :: u16);
       out \<leftarrow> copy_into out (ip_off + 4) (ip_off + 6) (to_be 2 payload);
       out \<leftarrow> set_idx out (ip_off + 6) IPPROTO_UDP;
       out \<leftarrow> set_idx out (ip_off + 7) 64;
       (src, dst) \<leftarrow> reflected_v6_addrs layout;
       out \<leftarrow> copy_into out (ip_off + 8) (ip_off + 24) src;
       out \<leftarrow> copy_into out (ip_off + 24) (ip_off + 40) dst;
       let udp_off = ip_off + IPV6_HDR_LEN;
       out \<leftarrow> copy_into out udp_off (udp_off + 2) (to_be 2 (fl_dst_port layout));
       out \<leftarrow> copy_into out (udp_off + 2) (udp_off + 4) (to_be 2 (fl_src_port layout));
       let udp_len = (of_nat (UDP_HDR_LEN + payload_len) :: u16);
       out \<leftarrow> copy_into out (udp_off + 4) (udp_off + 6) (to_be 2 udp_len);
       out \<leftarrow> copy_into out (udp_off + 6) (udp_off + 8) [0, 0];
       ret (ETH_HDR_LEN + IPV6_HDR_LEN + UDP_HDR_LEN, out)
     }
   }"

definition write_ipv4_checksum :: "bytes \<Rightarrow> nat \<Rightarrow> nat \<Rightarrow> bytes run" where
  "write_ipv4_checksum frame ip_offset ip_hdr_len = do {
     frame \<leftarrow> set_idx frame (ip_offset + 10) 0;
     frame \<leftarrow> set_idx frame (ip_offset + 11) 0;
     header \<leftarrow> slice frame ip_offset (ip_offset + ip_hdr_len);
     let sum = ones_complement_sum header;
     copy_into frame (ip_offset + 10) (ip_offset + 12) (to_be 2 sum)
   }"

definition write_ipv6_udp_checksum :: "bytes \<Rightarrow> frame_layout \<Rightarrow> bytes run" where
  "write_ipv6_udp_checksum frame layout = do {
     udp_len \<leftarrow> be16_at frame (fl_udp_offset layout + 4);
     frame \<leftarrow> set_idx frame (fl_udp_offset layout + 6) 0;
     frame \<leftarrow> set_idx frame (fl_udp_offset layout + 7) 0;
     addrs \<leftarrow> slice frame (fl_ip_offset layout + 8) (fl_ip_offset layout + 40);
     let acc = fold_slice 0 addrs;
     let acc = acc + ucast udp_len;
     let acc = acc + ucast IPPROTO_UDP;
     let udp_end = fl_udp_offset layout + unat udp_len;
     datagram \<leftarrow> slice frame (fl_udp_offset layout) udp_end;
     let acc = fold_carries (fold_slice acc datagram);
     let sum = (ucast (NOT acc) :: u16);
     let sum = (if sum = 0 then 0xffff else sum);
     copy_into frame (fl_udp_offset layout + 6) (fl_udp_offset layout + 8) (to_be 2 sum)
   }"

text \<open>The writes of \<open>emit\<close> into the resized frame.\<close>

definition commit_reply :: "bytes \<Rightarrow> frame_layout \<Rightarrow> nat \<Rightarrow> bytes \<Rightarrow> bytes \<Rightarrow> bytes run" where
  "commit_reply frame layout hdr_len hdr_buf retry_bytes = do {
     hdr \<leftarrow> slice hdr_buf 0 hdr_len;
     frame \<leftarrow> copy_into frame 0 hdr_len hdr;
     frame \<leftarrow> copy_into frame hdr_len (hdr_len + length retry_bytes) retry_bytes;
     if fl_is_ipv4 layout then write_ipv4_checksum frame (fl_ip_offset layout) (fl_ip_hdr_len layout)
     else write_ipv6_udp_checksum frame layout
   }"

text \<open>The sizes of the two scratch buffers.\<close>

definition RETRY_BUF_LEN :: nat where "RETRY_BUF_LEN = 128"
definition HDR_BUF_LEN :: nat where "HDR_BUF_LEN = 64"

definition emit ::
  "hmac \<Rightarrow> gcm \<Rightarrow> adopted_frame \<Rightarrow> frame_layout \<Rightarrow> u32 \<Rightarrow> bytes \<Rightarrow> bytes \<Rightarrow> retry_config \<Rightarrow> bytes \<Rightarrow> u64 \<Rightarrow>
     (outcome \<times> adopted_frame) run" where
  "emit h seal data layout version odcid client_scid retry local_mac now_ms = do {
     minted \<leftarrow> mint h (rt_token_key retry) (fl_src_ip layout) odcid now_ms;
     case minted of
       Inl _ \<Rightarrow> ret (Skip, data)
     | Inr token \<Rightarrow> do {
         (built, retry_buf) \<leftarrow> build_retry seal (replicate RETRY_BUF_LEN 0) version odcid client_scid odcid token;
         case built of
           Inl _ \<Rightarrow> ret (Skip, data)
         | Inr n \<Rightarrow> do {
             retry_bytes \<leftarrow> slice retry_buf 0 n;
             (hdr_len, hdr_buf) \<leftarrow> build_reflected_headers (replicate HDR_BUF_LEN 0) layout local_mac (length retry_bytes);
             let total_len = hdr_len + length retry_bytes;
             case resize data total_len of
               None \<Rightarrow> ret (Skip, data)
             | Some data \<Rightarrow> do {
                 frame \<leftarrow> contents data;
                 frame \<leftarrow> commit_reply frame layout hdr_len hdr_buf retry_bytes;
                 data \<leftarrow> store_contents data frame;
                 ret (Emitted, data)
               }
           }
       }
   }"

definition try_handle ::
  "hmac \<Rightarrow> gcm \<Rightarrow> (tracker_ref \<Rightarrow> load_tracker) \<Rightarrow> adopted_frame \<Rightarrow> parsed_frame \<Rightarrow> config_table \<Rightarrow> bytes \<Rightarrow> u64 \<Rightarrow> u64 \<Rightarrow>
     (outcome \<times> detail \<times> adopted_frame \<times> u64) run" where
  "try_handle h seal trackers data parsed table local_mac now_ms pending_load_initials =
     (case ct_retry table of
        None \<Rightarrow> ret (Skip, NoDetail, data, pending_load_initials)
      | Some retry \<Rightarrow>
          if \<not> rt_enabled retry then ret (Skip, NoDetail, data, pending_load_initials)
          else case from_parsed parsed of
            None \<Rightarrow> ret (Skip, NoDetail, data, pending_load_initials)
          | Some layout \<Rightarrow>
              if rt_ports retry \<noteq> [] \<and> fl_dst_port layout \<notin> set (rt_ports retry)
              then ret (Skip, NoDetail, data, pending_load_initials)
              else do {
                frame \<leftarrow> contents data;
                quic \<leftarrow> slice_from frame (fl_quic_offset layout);
                parsed_initial \<leftarrow> parse_strict quic;
                case parsed_initial of
                  Inl e \<Rightarrow>
                    ret (Skip, (case e of
                        NotLongHeader \<Rightarrow> NoDetail
                      | NotInitial \<Rightarrow> NoDetail
                      | FixedBitUnset \<Rightarrow> NoDetail
                      | UnsupportedVersion _ \<Rightarrow> NoDetail
                      | Truncated \<Rightarrow> NoDetail
                      | _ \<Rightarrow> DetailParseError), data, pending_load_initials)
                | Inr initial \<Rightarrow> do {
                    dcid_buf \<leftarrow> copy_into (replicate 20 0) 0 (length (in_dcid initial)) (in_dcid initial);
                    scid_buf \<leftarrow> copy_into (replicate 20 0) 0 (length (in_scid initial)) (in_scid initial);
                    (decision, detail, pending_load_initials) \<leftarrow>
                      classify h trackers initial (fl_src_ip layout) retry now_ms pending_load_initials;
                    case decision of
                      DForward \<Rightarrow> ret (Forward, detail, data, pending_load_initials)
                    | DSkip \<Rightarrow> ret (Skip, detail, data, pending_load_initials)
                    | DEmit \<Rightarrow> do {
                        dcid \<leftarrow> slice dcid_buf 0 (length (in_dcid initial));
                        scid \<leftarrow> slice scid_buf 0 (length (in_scid initial));
                        (outcome, data) \<leftarrow> emit h seal data layout (in_version initial) dcid scid retry local_mac now_ms;
                        ret (outcome, detail, data, pending_load_initials)
                      }
                  }
              })"

section \<open>The reply frame\<close>

text \<open>The headers of the reply to a datagram, for a payload of \<open>n\<close> bytes and given checksum fields.\<close>

definition reply_eth :: "frame_layout \<Rightarrow> bytes \<Rightarrow> bytes" where
  "reply_eth layout local_mac =
     fl_src_mac layout @ local_mac @ to_be 2 (if fl_is_ipv4 layout then ETH_P_IP else ETH_P_IPV6)"

definition reply_ipv4 :: "frame_layout \<Rightarrow> nat \<Rightarrow> bytes \<Rightarrow> bytes" where
  "reply_ipv4 layout n checksum =
     [0x45, 0] @ to_be 2 (of_nat (28 + n) :: u16) @ [0, 0] @ to_be 2 (0x4000 :: u16) @ [64, 17] @ checksum @
     octets (fl_dst_ip layout) @ octets (fl_src_ip layout)"

definition reply_ipv6 :: "frame_layout \<Rightarrow> nat \<Rightarrow> bytes" where
  "reply_ipv6 layout n =
     [0x60, 0, 0, 0] @ to_be 2 (of_nat (8 + n) :: u16) @ [17, 64] @ octets (fl_dst_ip layout) @ octets (fl_src_ip layout)"

definition reply_udp :: "frame_layout \<Rightarrow> nat \<Rightarrow> bytes \<Rightarrow> bytes" where
  "reply_udp layout n checksum =
     to_be 2 (fl_dst_port layout) @ to_be 2 (fl_src_port layout) @ to_be 2 (of_nat (8 + n) :: u16) @ checksum"

definition reply_ip :: "frame_layout \<Rightarrow> nat \<Rightarrow> bytes" where
  "reply_ip layout n = (if fl_is_ipv4 layout then reply_ipv4 layout n [0, 0] else reply_ipv6 layout n)"

definition fl_wf :: "frame_layout \<Rightarrow> bool" where
  "fl_wf layout \<longleftrightarrow>
     length (fl_src_mac layout) = 6 \<and> fl_ip_offset layout = 14 \<and> ip_wf (fl_src_ip layout) \<and> ip_wf (fl_dst_ip layout) \<and>
     fl_udp_offset layout = 14 + fl_ip_hdr_len layout \<and> fl_quic_offset layout = fl_udp_offset layout + 8 \<and>
     (if fl_is_ipv4 layout
      then is_V4 (fl_src_ip layout) \<and> is_V4 (fl_dst_ip layout) \<and>
        20 \<le> fl_ip_hdr_len layout \<and> fl_ip_hdr_len layout \<le> 60 \<and> even (fl_ip_hdr_len layout)
      else \<not> is_V4 (fl_src_ip layout) \<and> \<not> is_V4 (fl_dst_ip layout) \<and> fl_ip_hdr_len layout = 40)"

lemma from_parsed_wf:
  assumes "layout_ok frame p" "from_parsed p = Some layout"
  shows "fl_wf layout" and "fl_quic_offset layout \<le> length frame"
  using assms by (auto simp: from_parsed_def layout_ok_def fl_wf_def split: l4.splits ip_family.splits if_splits)

lemma octets_length: "ip_wf a \<Longrightarrow> length (octets a) = (if is_V4 a then 4 else 16)"
  by (cases a) simp_all

lemma length_reply [simp]:
  assumes "fl_wf layout"
  shows "length local_mac = 6 \<Longrightarrow> length (reply_eth layout local_mac) = 14"
    and "fl_is_ipv4 layout \<Longrightarrow> length (reply_ipv4 layout n c) = 18 + length c"
    and "\<not> fl_is_ipv4 layout \<Longrightarrow> length (reply_ipv6 layout n) = 40"
    and "length (reply_udp layout n c) = 6 + length c"
  using assms by (auto simp: fl_wf_def reply_eth_def reply_ipv4_def reply_ipv6_def reply_udp_def octets_length)

lemma build_reflected_headers_eq:
  fixes n :: nat
  assumes "fl_wf layout" "length local_mac = 6" "62 \<le> length out"
  defines "hdr \<equiv> reply_eth layout local_mac @ reply_ip layout n @ reply_udp layout n [0, 0]"
  shows "build_reflected_headers out layout local_mac n = Some (length hdr, filled hdr out)"
proof (cases "fl_is_ipv4 layout")
  case True
  then obtain src dst where "fl_src_ip layout = V4 src" "fl_dst_ip layout = V4 dst" "length src = 4" "length dst = 4"
    using assms(1) by (cases "fl_src_ip layout"; cases "fl_dst_ip layout") (auto simp: fl_wf_def)
  with True assms show ?thesis
    by (simp add: build_reflected_headers_def hdr_def reply_eth_def reply_ip_def reply_ipv4_def reply_udp_def fl_wf_def
        reflected_v4_addrs_def Let_def filling add.assoc del: set_idx_in copy_into_in slice_in)
next
  case False
  then obtain src dst where "fl_src_ip layout = V6 src" "fl_dst_ip layout = V6 dst" "length src = 16" "length dst = 16"
    using assms(1) by (cases "fl_src_ip layout"; cases "fl_dst_ip layout") (auto simp: fl_wf_def)
  with False assms show ?thesis
    by (simp add: build_reflected_headers_def hdr_def reply_eth_def reply_ip_def reply_ipv6_def reply_udp_def fl_wf_def
        reflected_v6_addrs_def Let_def filling add.assoc del: set_idx_in copy_into_in slice_in)
qed

section \<open>Checksums of the reply\<close>

text \<open>Writing a two-byte field in the middle of a frame.\<close>

lemma patch_field:
  "set_idx (pre @ x # y # post) (length pre) v = Some (pre @ v # y # post)"
  "set_idx (pre @ x # y # post) (Suc (length pre)) v = Some (pre @ x # v # post)"
  "length c = 2 \<Longrightarrow> copy_into (pre @ x # y # post) (length pre) (Suc (Suc (length pre))) c = Some (pre @ c @ post)"
  by (auto simp: set_idx_def copy_into_def list_update_append)

lemma be16_to_be: "to_be 2 w = [a, b] \<Longrightarrow> be16 a b = (w :: u16)"
  unfolding be16_def by (metis from_be_to_be_widths(1))

lemma to_be_2: "\<exists>a b. to_be 2 w = [a, b]"
  using length_to_be [of 2 w] by (auto simp: numeral_2_eq_2 length_Suc_conv simp del: length_to_be)

lemma word_sum_to_be: "word_sum (to_be 2 (w :: u16) @ bytes) = unat w + word_sum bytes"
proof -
  obtain a b where "to_be 2 w = [a, b]" using to_be_2 by blast
  then show ?thesis using be16_to_be by simp
qed

text \<open>The sum over bytes whose zeroed checksum field is replaced by the complement of another sum.\<close>

lemma patched_sum:
  assumes "even (length pre)"
  shows "word_sum (pre @ to_be 2 (c :: u16) @ post) = word_sum (pre @ [0, 0] @ post) + unat c"
  using assms by (simp add: word_sum_append word_sum_to_be be16_def from_be_def del: append_Cons)

definition ipv4_valid :: "bytes \<Rightarrow> bool" where
  "ipv4_valid hdr \<longleftrightarrow> ones_complement_sum hdr = 0"

text \<open>The receiver's check of a UDP datagram over IPv6, with the pseudo-header in front.\<close>

definition udp6_valid :: "bytes \<Rightarrow> bytes \<Rightarrow> bool" where
  "udp6_valid addrs datagram \<longleftrightarrow>
     ones_complement_sum (addrs @ to_be 4 (of_nat (length datagram) :: u32) @ [0, 0, 0, 17] @ datagram) = 0"

lemma write_ipv4_checksum_eq:
  assumes "length pre = ip_offset + 10" "2 \<le> ip_hdr_len" "ip_offset + ip_hdr_len \<le> length (pre @ [x, y] @ post)"
  shows "write_ipv4_checksum (pre @ [x, y] @ post) ip_offset ip_hdr_len =
    Some (pre @ to_be 2 (ones_complement_sum (take ip_hdr_len (drop ip_offset (pre @ [0, 0] @ post)))) @ post)"
proof -
  have pos: "ip_offset + 10 = length pre" "ip_offset + 11 = Suc (length pre)" "ip_offset + 12 = length pre + 2"
    using assms(1) by simp_all
  show ?thesis
    unfolding write_ipv4_checksum_def pos using assms(3)
    by (simp add: patch_field Let_def del: set_idx_in copy_into_in take_append drop_append)
qed

text \<open>
  The header checksum the code writes covers \<open>ip_hdr_len\<close> bytes of the new frame; the header it writes has
  20 bytes. The receiver's check over the 20 bytes succeeds exactly when the further bytes that were summed
  add up to a multiple of 65535.
\<close>

lemma reply_ipv4_valid:
  assumes "fl_wf layout" "fl_is_ipv4 layout" "n < 1000" "length (rest :: bytes) \<le> 2000" "m \<le> length rest"
  defines "c \<equiv> ones_complement_sum (reply_ipv4 layout n [0, 0] @ take m rest)"
  shows "ipv4_valid (reply_ipv4 layout n (to_be 2 c)) \<longleftrightarrow> word_sum (take m rest) mod 65535 = 0"
proof -
  define pre where "pre = [0x45, 0] @ to_be 2 (of_nat (28 + n) :: u16) @ [0, 0] @ to_be 2 (0x4000 :: u16) @ [64, 17]"
  define post where "post = octets (fl_dst_ip layout) @ octets (fl_src_ip layout)"
  have split: "reply_ipv4 layout n x = pre @ x @ post" for x by (simp add: reply_ipv4_def pre_def post_def)
  have len: "length pre = 10" "length post = 8" using assms(1,2) by (auto simp: pre_def post_def fl_wf_def octets_length)
  define s t where "s = word_sum (pre @ [0, 0] @ post)" and "t = word_sum (take m rest)"
  have "s \<ge> unat (be16 0x45 0)" by (simp add: s_def pre_def)
  then have s0: "0 < s" by (simp add: be16_def from_be_def)
  have sum: "word_sum (reply_ipv4 layout n [0, 0] @ take m rest) = s + t"
    using len by (simp add: split s_def t_def word_sum_append del: append_assoc append_Cons)
  define r where "r = (if (s + t) mod 65535 = 0 then 65535 else (s + t) mod 65535)"
  have c: "unat c = 65535 - r"
    unfolding c_def r_def by (subst ones_complement_sum_nat) (use sum s0 len assms(4,5) in \<open>auto simp: split\<close>)
  have "word_sum (reply_ipv4 layout n (to_be 2 c)) = s + (65535 - r)"
    using len by (simp add: split patched_sum s_def c)
  then have "ipv4_valid (reply_ipv4 layout n (to_be 2 c)) \<longleftrightarrow> (s + (65535 - r)) mod 65535 = 0"
    unfolding ipv4_valid_def using s0 len by (subst ones_complement_sum_zero) (simp_all add: split)
  also have "\<dots> \<longleftrightarrow> t mod 65535 = 0"
    unfolding r_def by (rule complement_cancels [OF folded_le]) simp
  finally show ?thesis by (simp only: t_def)
qed

text \<open>The UDP checksum the code computes for IPv6 from the sum over pseudo-header and datagram.\<close>

definition udp6_checksum :: "u32 \<Rightarrow> u16" where
  "udp6_checksum acc = (let sum = ucast (NOT (fold_carries acc)) in if sum = 0 then 0xffff else sum)"

lemma udp6_checksum_nat:
  assumes "0 < N" "N < 2 ^ 32"
  obtains r where "r \<le> 65535" "r mod 65535 = N mod 65535" "unat (udp6_checksum (of_nat N)) = 65535 - r"
proof -
  define w :: u32 where "w = fold_carries (of_nat N)"
  have w: "unat w = (if N mod 65535 = 0 then 65535 else N mod 65535)"
    using fold_carries_of_nat [OF assms(2)] assms(1) by (simp add: w_def)
  then have le: "unat w \<le> 65535" using folded_le [of N] by simp
  then have small: "unat (ucast w :: u16) = unat w" by (simp add: unsigned_ucast_eq take_bit_nat_eq_self_iff)
  have not: "ucast (NOT w) = (NOT (ucast w) :: u16)" by (rule bit_word_eqI) (simp add: bit_simps)
  have neg: "unat (ucast (NOT w) :: u16) = 65535 - unat w" unfolding not unat_not_u16 small ..
  show thesis
  proof (cases "unat w = 65535")
    case True
    then have "udp6_checksum (of_nat N) = 0xffff" using neg by (simp add: udp6_checksum_def w_def [symmetric] Let_def unat_eq_0)
    with that [of 0] True w show thesis by (simp split: if_splits)
  next
    case False
    then have "ucast (NOT w) \<noteq> (0 :: u16)" using neg le by (auto simp: unat_eq_0 [symmetric])
    then have "udp6_checksum (of_nat N) = ucast (NOT w)" by (simp add: udp6_checksum_def w_def [symmetric] Let_def)
    with that [of "unat w"] neg le w show thesis by simp
  qed
qed

lemma write_ipv6_udp_checksum_eq:
  assumes wf: "fl_wf layout" "\<not> fl_is_ipv4 layout" "length local_mac = 6" and n: "length payload < 1000"
  defines "addrs \<equiv> octets (fl_dst_ip layout) @ octets (fl_src_ip layout)"
    and "datagram \<equiv> \<lambda>c. reply_udp layout (length payload) c @ payload"
  shows "write_ipv6_udp_checksum (reply_eth layout local_mac @ reply_ipv6 layout (length payload) @ datagram [0, 0]) layout =
    Some (reply_eth layout local_mac @ reply_ipv6 layout (length payload) @
      datagram (to_be 2 (udp6_checksum (of_nat (word_sum addrs + (8 + length payload) + 17 + word_sum (datagram [0, 0]))))))"
proof -
  obtain a b where ab: "to_be 2 (of_nat (8 + length payload) :: u16) = [a, b]" using to_be_2 by blast
  define pre where "pre = reply_eth layout local_mac @ reply_ipv6 layout (length payload) @
    to_be 2 (fl_dst_port layout) @ to_be 2 (fl_src_port layout) @ [a, b]"
  define F where "F c = reply_eth layout local_mac @ reply_ipv6 layout (length payload) @ datagram c" for c
  have parts: "F c = pre @ c @ payload" for c
    using ab by (simp add: F_def pre_def datagram_def reply_udp_def)
  have len: "length pre = 60" using wf by (simp add: pre_def)
  have offs: "fl_udp_offset layout = 54" "fl_ip_offset layout = 14" using wf by (simp_all add: fl_wf_def)
  have udp_len: "be16_at (F [0, 0]) (54 + 4) = Some (be16 a b)"
    using wf by (simp add: parts pre_def be16_at_def nth_append)
  have len_nat: "unat (be16 a b) = 8 + length payload"
    unfolding be16_to_be [OF ab] using n by (intro unat_of_nat_u16) simp
  have zero: "set_idx (F [0, 0]) (54 + 6) 0 = Some (F [0, 0])" "set_idx (F [0, 0]) (54 + 7) 0 = Some (F [0, 0])"
    using len patch_field(1,2) [of pre 0 0 payload 0] by (simp_all add: parts)
  have addrs: "slice (F [0, 0]) (14 + 8) (14 + 40) = Some addrs"
    using wf len by (simp add: F_def reply_ipv6_def addrs_def fl_wf_def octets_length)
  have datagram: "slice (F [0, 0]) 54 (54 + unat (be16 a b)) = Some (datagram [0, 0])"
    unfolding len_nat using wf by (simp add: F_def datagram_def)
  have patch: "copy_into (F [0, 0]) (54 + 6) (54 + 8) (to_be 2 c) = Some (F (to_be 2 c))" for c :: u16
    using len patch_field(3) [of "to_be 2 c" pre 0 0 payload] by (simp add: parts del: copy_into_in)
  have acc: "fold_slice (fold_slice 0 addrs + ucast (be16 a b) + ucast IPPROTO_UDP) (datagram [0, 0]) =
      of_nat (word_sum addrs + (8 + length payload) + 17 + word_sum (datagram [0, 0]))"
    unfolding fold_slice_sum len_nat [symmetric] by simp
  show ?thesis
    unfolding F_def [symmetric] write_ipv6_udp_checksum_def offs udp_len zero addrs datagram Let_def Option.bind.simps acc
      patch udp6_checksum_def [unfolded Let_def, symmetric]
    by simp
qed

lemma to_be_4_small:
  assumes "L < 65536"
  shows "to_be 4 (of_nat L :: u32) = 0 # 0 # to_be 2 (of_nat L :: u16)"
proof -
  have high: "\<not> bit L k" if "16 \<le> k" for k using not_bit_nat [of L 16 k] assms that by simp
  have low: "ucast (drop_bit (8 * i) (of_nat L :: u32)) = (ucast (drop_bit (8 * i) (of_nat L :: u16)) :: byte)" if "i < 2" for i
    using that by (intro bit_word_eqI) (auto simp: bit_simps)
  have zero: "ucast (drop_bit (8 * i) (of_nat L :: u32)) = (0 :: byte)" if "2 \<le> i" for i
    using that by (intro bit_word_eqI) (auto simp: bit_simps intro!: high)
  show ?thesis
    using low [of 0] low [of 1] zero [of 2] zero [of 3] by (simp add: to_be_def upt_rec)
qed

lemma reply_udp6_valid:
  assumes wf: "fl_wf layout" "\<not> fl_is_ipv4 layout" and n: "length payload < 1000"
  defines "addrs \<equiv> octets (fl_dst_ip layout) @ octets (fl_src_ip layout)"
    and "datagram \<equiv> \<lambda>c. reply_udp layout (length payload) c @ payload"
  shows "udp6_valid addrs
    (datagram (to_be 2 (udp6_checksum (of_nat (word_sum addrs + (8 + length payload) + 17 + word_sum (datagram [0, 0]))))))"
proof -
  define N where "N = word_sum addrs + (8 + length payload) + 17 + word_sum (datagram [0, 0])"
  have len: "length addrs = 32" "length (datagram c) = 6 + length c + length payload" for c
    using wf by (auto simp: addrs_def datagram_def fl_wf_def octets_length)
  have "N < 2 ^ 32"
    using word_sum_bound [of addrs] word_sum_bound [of "datagram [0, 0]"] len n by (simp add: N_def)
  with udp6_checksum_nat [of N] obtain r
    where r: "r \<le> 65535" "r mod 65535 = N mod 65535" "unat (udp6_checksum (of_nat N)) = 65535 - r" by (auto simp: N_def)
  let ?c = "to_be 2 (udp6_checksum (of_nat N))"
  have patched: "word_sum (datagram ?c) = word_sum (datagram [0, 0]) + (65535 - r)"
    using patched_sum [of "to_be 2 (fl_dst_port layout) @ to_be 2 (fl_src_port layout) @ to_be 2 (of_nat (8 + length payload) :: u16)"
        "udp6_checksum (of_nat N)" payload]
    by (simp add: datagram_def reply_udp_def r(3))
  let ?P = "addrs @ to_be 4 (of_nat (length (datagram ?c)) :: u32) @ [0, 0, 0, 17] @ datagram ?c"
  have be: "be16 0 0 = 0" "be16 0 17 = 17" by (simp_all add: be16_def from_be_def)
  define L where "L = length (datagram ?c)"
  have L: "L = 8 + length payload" "unat (of_nat L :: u16) = L" "to_be 4 (of_nat L :: u32) = 0 # 0 # to_be 2 (of_nat L :: u16)"
    using len n by (simp_all add: L_def unat_of_nat_u16 to_be_4_small del: of_nat_add)
  have "word_sum ?P = word_sum addrs + L + 17 + word_sum (datagram ?c)"
    unfolding L_def [symmetric] L(3) using len(1) by (simp add: word_sum_append word_sum_to_be be L(2))
  then have sum: "word_sum ?P = N + (65535 - r)" unfolding patched L(1) by (simp add: N_def)
  have "(N + (65535 - r)) mod 65535 = 0" using complement_cancels [of r 65535 N 0] r by simp
  then show ?thesis
    unfolding udp6_valid_def N_def [symmetric]
    using sum len n by (subst ones_complement_sum_zero) (auto simp: N_def)
qed

lemma commit_reply_eq:
  assumes wf: "fl_wf layout" "length local_mac = 6"
    and len: "length payload < 1000" "40 \<le> length payload" "length frame = hdr_len + length payload"
  defines "hdr \<equiv> reply_eth layout local_mac @ reply_ip layout (length payload) @ reply_udp layout (length payload) [0, 0]"
  assumes hdr: "hdr_len = length hdr" "length hdr \<le> length buf"
  shows "commit_reply frame layout hdr_len (filled hdr buf) payload =
    (if fl_is_ipv4 layout
     then write_ipv4_checksum (hdr @ payload) 14 (fl_ip_hdr_len layout)
     else write_ipv6_udp_checksum (hdr @ payload) layout)"
proof -
  have "frame = filled [] frame" by (simp add: filled_def)
  then have "copy_into frame 0 hdr_len hdr = Some (filled hdr frame)" using hdr len(3) by (simp add: copy_start del: copy_into_in)
  moreover have "copy_into (filled hdr frame) hdr_len (hdr_len + length payload) payload = Some (hdr @ payload)"
    using hdr len(3) copy_filled [of hdr_len hdr "hdr_len + length payload" payload frame] by (simp add: filled_def)
  moreover have "fl_ip_offset layout = 14" using wf by (simp add: fl_wf_def)
  ultimately show ?thesis
    using hdr by (simp add: commit_reply_def slice_filled del: slice_in copy_into_in)
qed

section \<open>The emitted Retry\<close>

text \<open>\<open>frame\<close> carries \<open>payload\<close> back to the sender of the datagram that \<open>layout\<close> describes.\<close>

definition reply_to :: "frame_layout \<Rightarrow> bytes \<Rightarrow> bytes \<Rightarrow> bytes \<Rightarrow> bool" where
  "reply_to layout local_mac payload frame \<longleftrightarrow>
     (let n = length payload in
      if fl_is_ipv4 layout then
        \<exists>c :: u16. frame = reply_eth layout local_mac @ reply_ipv4 layout n (to_be 2 c) @ reply_udp layout n [0, 0] @ payload \<and>
          (ipv4_valid (reply_ipv4 layout n (to_be 2 c)) \<longleftrightarrow>
            word_sum (take (fl_ip_hdr_len layout - 20) (reply_udp layout n [0, 0] @ payload)) mod 65535 = 0)
      else
        \<exists>c :: u16. frame = reply_eth layout local_mac @ reply_ipv6 layout n @ reply_udp layout n (to_be 2 c) @ payload \<and>
          udp6_valid (octets (fl_dst_ip layout) @ octets (fl_src_ip layout)) (reply_udp layout n (to_be 2 c) @ payload))"

text \<open>\<open>payload\<close> is the Retry for the Initial with connection ids \<open>odcid\<close> and \<open>scid\<close>, with a token minted at \<open>now\<close>.\<close>

definition is_retry ::
  "hmac \<Rightarrow> gcm \<Rightarrow> token_key \<Rightarrow> ip_addr \<Rightarrow> u32 \<Rightarrow> bytes \<Rightarrow> bytes \<Rightarrow> u64 \<Rightarrow> bytes \<Rightarrow> bytes \<Rightarrow> bool" where
  "is_retry h seal key src version odcid scid now token payload \<longleftrightarrow>
     mint h key src odcid now = Some (Inr token) \<and>
     (\<exists>tag. retry_tag seal version odcid (retry_body version scid odcid token) = Some tag \<and> length tag = 16 \<and>
        payload = retry_body version scid odcid token @ tag)"

lemma commit_reply_ok:
  assumes wf: "fl_wf layout" "length local_mac = 6"
    and len: "length payload < 1000" "40 \<le> length payload" "length frame = hdr_len + length payload"
  defines "hdr \<equiv> reply_eth layout local_mac @ reply_ip layout (length payload) @ reply_udp layout (length payload) [0, 0]"
  assumes hdr: "hdr_len = length hdr" "length hdr \<le> length buf"
  shows "\<exists>frame'. commit_reply frame layout hdr_len (filled hdr buf) payload = Some frame' \<and>
    reply_to layout local_mac payload frame' \<and> length frame' = length frame"
proof -
  note commit = commit_reply_eq [OF wf len hdr(1) [unfolded hdr_def] hdr(2) [unfolded hdr_def], folded hdr_def]
  let ?n = "length payload"
  show ?thesis
  proof (cases "fl_is_ipv4 layout")
    case True
    let ?rest = "reply_udp layout ?n [0, 0] @ payload" and ?m = "fl_ip_hdr_len layout - 20"
    define c where "c = ones_complement_sum (reply_ipv4 layout ?n [0, 0] @ take ?m ?rest)"
    define pre where "pre = reply_eth layout local_mac @ [0x45, 0] @ to_be 2 (of_nat (28 + ?n) :: u16) @ [0, 0] @ to_be 2 (0x4000 :: u16) @ [64, 17]"
    define post where "post = octets (fl_dst_ip layout) @ octets (fl_src_ip layout) @ ?rest"
    have parts: "reply_eth layout local_mac @ reply_ipv4 layout ?n x @ ?rest = pre @ x @ post" for x
      by (simp add: pre_def post_def reply_ipv4_def)
    have lens: "length pre = 14 + 10" "20 \<le> fl_ip_hdr_len layout" "fl_ip_hdr_len layout \<le> 60"
      using wf True by (auto simp: pre_def fl_wf_def)
    have "length (pre @ [0, 0] @ post) = 14 + 20 + length ?rest"
      using arg_cong [OF parts [of "[0, 0]"], of length] wf True by simp
    then have room: "14 + fl_ip_hdr_len layout \<le> length (pre @ [0, 0] @ post)" using lens len wf by simp
    have "take (fl_ip_hdr_len layout) (drop 14 (pre @ [0, 0] @ post)) = reply_ipv4 layout ?n [0, 0] @ take ?m ?rest"
      unfolding parts [symmetric] using wf True lens by simp
    with write_ipv4_checksum_eq [OF lens(1) _ room] lens(2)
    have "write_ipv4_checksum (pre @ [0, 0] @ post) 14 (fl_ip_hdr_len layout) = Some (pre @ to_be 2 c @ post)"
      by (simp add: c_def)
    moreover have "hdr @ payload = pre @ [0, 0] @ post" unfolding parts [symmetric] by (simp add: hdr_def reply_ip_def True)
    ultimately have "commit_reply frame layout hdr_len (filled hdr buf) payload =
        Some (reply_eth layout local_mac @ reply_ipv4 layout ?n (to_be 2 c) @ ?rest)"
      using commit True parts by simp
    moreover have "ipv4_valid (reply_ipv4 layout ?n (to_be 2 c)) \<longleftrightarrow> word_sum (take ?m ?rest) mod 65535 = 0"
      unfolding c_def using wf True len lens by (intro reply_ipv4_valid) simp_all
    ultimately show ?thesis
      using True wf len hdr by (auto simp: reply_to_def Let_def hdr_def reply_ip_def)
  next
    case False
    with commit write_ipv6_udp_checksum_eq [OF wf(1) False wf(2) len(1)] reply_udp6_valid [OF wf(1) False len(1)] wf len hdr
    show ?thesis by (auto simp: reply_to_def Let_def hdr_def reply_ip_def)
  qed
qed

lemma mint_total:
  assumes "hmac_ok h" "length odcid \<le> 20"
  obtains token where "mint h key src odcid now = Some (Inr token)" "length token = 24"
  using assms by (auto simp: mint_eq hmac_ok_def)

lemma reply_header_length:
  assumes "fl_wf layout" "length local_mac = 6"
  shows "length (reply_eth layout local_mac @ reply_ip layout n @ reply_udp layout n [0, 0]) =
    (if fl_is_ipv4 layout then 42 else 62)"
  using assms by (simp add: reply_ip_def)

text \<open>
  \<open>emit\<close> answers whenever the chunk has room for the headers and a Retry of \<open>47\<close> bytes plus the two
  connection ids, and otherwise leaves the frame alone.
\<close>

definition reply_size :: "frame_layout \<Rightarrow> bytes \<Rightarrow> bytes \<Rightarrow> nat" where
  "reply_size layout odcid scid = (if fl_is_ipv4 layout then 42 else 62) + 47 + length odcid + length scid"

lemma emit_result:
  assumes ok: "hmac_ok h" "gcm_ok seal" "frame_ok data" "fl_wf layout" "length local_mac = 6"
    and v: "version = QUIC_V1 \<or> version = QUIC_V2" and cids: "length odcid \<le> 20" "length scid \<le> 20"
  shows "if capacity data < reply_size layout odcid scid
    then emit h seal data layout version odcid scid retry local_mac now = Some (Skip, data)
    else \<exists>token payload frame data'. emit h seal data layout version odcid scid retry local_mac now = Some (Emitted, data') \<and>
      is_retry h seal (rt_token_key retry) (fl_src_ip layout) version odcid scid now token payload \<and>
      contents data' = Some frame \<and> reply_to layout local_mac payload frame \<and>
      frame_ok data' \<and> capacity data' = capacity data"
proof -
  from mint_total [OF ok(1) cids(1)] obtain token
    where token: "mint h (rt_token_key retry) (fl_src_ip layout) odcid now = Some (Inr token)" "length token = 24" .
  define body where "body = retry_body version scid odcid token"
  from build_retry_writes [OF ok(2) v cids(1,2,1), of token "replicate RETRY_BUF_LEN 0"] cids token(2) obtain tag
    where tag: "retry_tag seal version odcid body = Some tag" "length tag = 16"
      "build_retry seal (replicate RETRY_BUF_LEN 0) version odcid scid odcid token = Some (Inr (length body + 16), filled (body @ tag) (replicate RETRY_BUF_LEN 0))"
    unfolding body_def by (auto simp: PSEUDO_MAX_def RETRY_BUF_LEN_def)
  let ?payload = "body @ tag"
  have len: "length ?payload = 47 + length odcid + length scid" using tag(2) token(2) by (simp add: body_def)
  have slice: "slice (filled ?payload (replicate RETRY_BUF_LEN 0)) 0 (length body + 16) = Some ?payload"
    using len cids tag(2) by (simp add: slice_filled RETRY_BUF_LEN_def del: slice_in append_assoc)
  define hdr where "hdr = reply_eth layout local_mac @ reply_ip layout (length ?payload) @ reply_udp layout (length ?payload) [0, 0]"
  have hdr_len: "length hdr = (if fl_is_ipv4 layout then 42 else 62)"
    unfolding hdr_def by (rule reply_header_length [OF ok(4,5)])
  have hdrs: "build_reflected_headers (replicate HDR_BUF_LEN 0) layout local_mac (length ?payload) = Some (length hdr, filled hdr (replicate HDR_BUF_LEN 0))"
    unfolding hdr_def by (rule build_reflected_headers_eq [OF ok(4,5)]) (simp add: HDR_BUF_LEN_def)
  have size: "length hdr + length ?payload = reply_size layout odcid scid" using hdr_len len by (simp add: reply_size_def)
  show ?thesis
  proof (cases "capacity data < reply_size layout odcid scid")
    case True
    then have "resize data (length hdr + length ?payload) = None" using fv.resize_None [OF ok(3)] size by simp
    with True token(1) tag(3) slice hdrs show ?thesis by (simp add: emit_def Let_def)
  next
    case False
    then obtain data1 where d1: "resize data (length hdr + length ?payload) = Some data1"
      using fv.resize_None [OF ok(3)] size by (metis option.exhaust)
    from fv.resize_Some [OF ok(3) this] obtain old where old: "frame_ok data1" "capacity data1 = capacity data"
      "contents data1 = Some old" "length old = length hdr + length ?payload" by blast
    have bounds: "length ?payload < 1000" "40 \<le> length ?payload" "length hdr \<le> length (replicate HDR_BUF_LEN (0 :: byte))"
      using len cids hdr_len by (auto simp: HDR_BUF_LEN_def)
    from commit_reply_ok [OF ok(4,5) bounds(1,2) old(4) [unfolded hdr_def] _ bounds(3) [unfolded hdr_def], folded hdr_def]
    obtain frame where frame: "commit_reply old layout (length hdr) (filled hdr (replicate HDR_BUF_LEN 0)) ?payload = Some frame"
      "reply_to layout local_mac ?payload frame" "length frame = length old" by blast
    from fv.store_same_length [OF old(1,3) frame(3)] obtain data2 where "store_contents data1 frame = Some data2"
      "frame_ok data2" "capacity data2 = capacity data1" "contents data2 = Some frame" by blast
    with False token tag slice hdrs d1 old frame show ?thesis
      by (auto simp: emit_def Let_def is_retry_def body_def)
  qed
qed

end
