(* ===== verification/Stats.thy ===== *)
theory Stats
  imports Retry_Datapath
begin

text \<open>
  \<open>pesigitg-daemon/src/stats.rs\<close>: the counters of a worker, the accumulator of one batch, and the
  snapshots the main loop aggregates. A relaxed load and store of an atomic counter by its only writer
  is a read and an update of the field; counters wrap at 64 bits.
\<close>

section \<open>Operations\<close>

record worker_stats =
  ws_rx_packets :: u64
  ws_forwarded :: u64
  ws_cid_routed :: u64
  ws_cid_by_config :: "u64 list"
  ws_fallback_routed :: u64
  ws_cid_unroutable_no_server :: u64
  ws_cid_unroutable_bad_server_id :: u64
  ws_draining_forwarded :: u64
  ws_icmp_forwarded :: u64
  ws_passed :: u64
  ws_pending_fill_peak :: u64
  ws_retry_initials_seen :: u64
  ws_retry_issued :: u64
  ws_retry_token_validated :: u64
  ws_retry_token_invalid :: u64
  ws_retry_token_expired :: u64
  ws_retry_parse_error :: u64

definition worker_stats_new :: worker_stats where
  "worker_stats_new =
     \<lparr>ws_rx_packets = 0, ws_forwarded = 0, ws_cid_routed = 0, ws_cid_by_config = replicate 7 0,
      ws_fallback_routed = 0, ws_cid_unroutable_no_server = 0, ws_cid_unroutable_bad_server_id = 0,
      ws_draining_forwarded = 0, ws_icmp_forwarded = 0, ws_passed = 0, ws_pending_fill_peak = 0,
      ws_retry_initials_seen = 0, ws_retry_issued = 0, ws_retry_token_validated = 0,
      ws_retry_token_invalid = 0, ws_retry_token_expired = 0, ws_retry_parse_error = 0\<rparr>"

definition record_rx :: "worker_stats \<Rightarrow> u64 \<Rightarrow> worker_stats" where
  "record_rx s n = s\<lparr>ws_rx_packets := ws_rx_packets s + n\<rparr>"

definition record_pending_fill :: "worker_stats \<Rightarrow> u64 \<Rightarrow> worker_stats" where
  "record_pending_fill s depth =
     (if depth > ws_pending_fill_peak s then s\<lparr>ws_pending_fill_peak := depth\<rparr> else s)"

record batch_stats =
  bs_forwarded :: u64
  bs_cid_routed :: u64
  bs_cid_by_config :: "u64 list"
  bs_fallback_routed :: u64
  bs_cid_unroutable_no_server :: u64
  bs_cid_unroutable_bad_server_id :: u64
  bs_draining_forwarded :: u64
  bs_icmp_forwarded :: u64
  bs_passed :: u64
  bs_retry_initials_seen :: u64
  bs_retry_issued :: u64
  bs_retry_token_validated :: u64
  bs_retry_token_invalid :: u64
  bs_retry_token_expired :: u64
  bs_retry_parse_error :: u64

definition batch_stats_new :: batch_stats where
  "batch_stats_new =
     \<lparr>bs_forwarded = 0, bs_cid_routed = 0, bs_cid_by_config = replicate 7 0, bs_fallback_routed = 0,
      bs_cid_unroutable_no_server = 0, bs_cid_unroutable_bad_server_id = 0, bs_draining_forwarded = 0,
      bs_icmp_forwarded = 0, bs_passed = 0, bs_retry_initials_seen = 0, bs_retry_issued = 0,
      bs_retry_token_validated = 0, bs_retry_token_invalid = 0, bs_retry_token_expired = 0,
      bs_retry_parse_error = 0\<rparr>"

definition record_cid_forward :: "batch_stats \<Rightarrow> u8 \<Rightarrow> batch_stats run" where
  "record_cid_forward b config_id = do {
     let b = b\<lparr>bs_cid_routed := bs_cid_routed b + 1\<rparr>;
     n \<leftarrow> idx (bs_cid_by_config b) (unat config_id);
     by_config \<leftarrow> set_idx (bs_cid_by_config b) (unat config_id) (n + 1);
     ret (b\<lparr>bs_cid_by_config := by_config, bs_forwarded := bs_forwarded b + 1\<rparr>)
   }"

definition record_fallback_forward :: "batch_stats \<Rightarrow> batch_stats" where
  "record_fallback_forward b =
     b\<lparr>bs_fallback_routed := bs_fallback_routed b + 1, bs_forwarded := bs_forwarded b + 1\<rparr>"

definition record_icmp_forward :: "batch_stats \<Rightarrow> batch_stats" where
  "record_icmp_forward b =
     b\<lparr>bs_icmp_forwarded := bs_icmp_forwarded b + 1, bs_forwarded := bs_forwarded b + 1\<rparr>"

definition record_draining_forward :: "batch_stats \<Rightarrow> batch_stats" where
  "record_draining_forward b = b\<lparr>bs_draining_forwarded := bs_draining_forwarded b + 1\<rparr>"

definition record_cid_unroutable_no_server :: "batch_stats \<Rightarrow> batch_stats" where
  "record_cid_unroutable_no_server b =
     b\<lparr>bs_cid_unroutable_no_server := bs_cid_unroutable_no_server b + 1\<rparr>"

definition record_cid_unroutable_bad_server_id :: "batch_stats \<Rightarrow> batch_stats" where
  "record_cid_unroutable_bad_server_id b =
     b\<lparr>bs_cid_unroutable_bad_server_id := bs_cid_unroutable_bad_server_id b + 1\<rparr>"

definition record_pass :: "batch_stats \<Rightarrow> batch_stats" where
  "record_pass b = b\<lparr>bs_passed := bs_passed b + 1\<rparr>"

definition record_retry :: "batch_stats \<Rightarrow> outcome \<Rightarrow> detail \<Rightarrow> batch_stats" where
  "record_retry b outcome detail =
     (if detail = NoDetail then b
      else
        let b = (case detail of
              DetailParseError \<Rightarrow> b\<lparr>bs_retry_parse_error := bs_retry_parse_error b + 1\<rparr>
            | TokenValid \<Rightarrow> b\<lparr>bs_retry_token_validated := bs_retry_token_validated b + 1\<rparr>
            | TokenInvalid \<Rightarrow> b\<lparr>bs_retry_token_invalid := bs_retry_token_invalid b + 1\<rparr>
            | TokenExpired \<Rightarrow> b\<lparr>bs_retry_token_expired := bs_retry_token_expired b + 1\<rparr>
            | _ \<Rightarrow> b);
            b = b\<lparr>bs_retry_initials_seen := bs_retry_initials_seen b + 1\<rparr>
        in if outcome = Emitted then b\<lparr>bs_retry_issued := bs_retry_issued b + 1\<rparr> else b)"

text \<open>
  The shared counters that \<open>flush\<close> writes, and \<open>add\<close> on one of them. The stores of a batch reach the shared
  counters one after another, so the main loop can read between any two of them: \<open>flush_stores\<close> is their
  sequence, with the conditions around them.
\<close>

datatype counter = CntForwarded | CntCidRouted | CntCidByConfig nat | CntFallbackRouted | CntUnroutableNoServer
  | CntUnroutableBadServerId | CntDrainingForwarded | CntIcmpForwarded | CntPassed | CntRetryInitialsSeen | CntRetryIssued
  | CntTokenValidated | CntTokenInvalid | CntTokenExpired | CntParseError

fun add_counter :: "worker_stats \<Rightarrow> counter \<times> u64 \<Rightarrow> worker_stats" where
  "add_counter t (CntForwarded, n) = t\<lparr>ws_forwarded := ws_forwarded t + n\<rparr>"
| "add_counter t (CntCidRouted, n) = t\<lparr>ws_cid_routed := ws_cid_routed t + n\<rparr>"
| "add_counter t (CntCidByConfig i, n) = t\<lparr>ws_cid_by_config := (ws_cid_by_config t)[i := ws_cid_by_config t ! i + n]\<rparr>"
| "add_counter t (CntFallbackRouted, n) = t\<lparr>ws_fallback_routed := ws_fallback_routed t + n\<rparr>"
| "add_counter t (CntUnroutableNoServer, n) = t\<lparr>ws_cid_unroutable_no_server := ws_cid_unroutable_no_server t + n\<rparr>"
| "add_counter t (CntUnroutableBadServerId, n) = t\<lparr>ws_cid_unroutable_bad_server_id := ws_cid_unroutable_bad_server_id t + n\<rparr>"
| "add_counter t (CntDrainingForwarded, n) = t\<lparr>ws_draining_forwarded := ws_draining_forwarded t + n\<rparr>"
| "add_counter t (CntIcmpForwarded, n) = t\<lparr>ws_icmp_forwarded := ws_icmp_forwarded t + n\<rparr>"
| "add_counter t (CntPassed, n) = t\<lparr>ws_passed := ws_passed t + n\<rparr>"
| "add_counter t (CntRetryInitialsSeen, n) = t\<lparr>ws_retry_initials_seen := ws_retry_initials_seen t + n\<rparr>"
| "add_counter t (CntRetryIssued, n) = t\<lparr>ws_retry_issued := ws_retry_issued t + n\<rparr>"
| "add_counter t (CntTokenValidated, n) = t\<lparr>ws_retry_token_validated := ws_retry_token_validated t + n\<rparr>"
| "add_counter t (CntTokenInvalid, n) = t\<lparr>ws_retry_token_invalid := ws_retry_token_invalid t + n\<rparr>"
| "add_counter t (CntTokenExpired, n) = t\<lparr>ws_retry_token_expired := ws_retry_token_expired t + n\<rparr>"
| "add_counter t (CntParseError, n) = t\<lparr>ws_retry_parse_error := ws_retry_parse_error t + n\<rparr>"

definition flush_stores :: "batch_stats \<Rightarrow> (counter \<times> u64) list" where
  "flush_stores b = filter (\<lambda>(_, n). n > 0)
     ((CntForwarded, bs_forwarded b) #
      (if bs_cid_routed b > 0
       then (CntCidRouted, bs_cid_routed b) # map (\<lambda>(i, n). (CntCidByConfig i, n)) (enumerate 0 (bs_cid_by_config b))
       else []) @
      [(CntFallbackRouted, bs_fallback_routed b),
       (CntUnroutableNoServer, bs_cid_unroutable_no_server b),
       (CntUnroutableBadServerId, bs_cid_unroutable_bad_server_id b),
       (CntDrainingForwarded, bs_draining_forwarded b),
       (CntIcmpForwarded, bs_icmp_forwarded b),
       (CntPassed, bs_passed b),
       (CntRetryInitialsSeen, bs_retry_initials_seen b),
       (CntRetryIssued, bs_retry_issued b),
       (CntTokenValidated, bs_retry_token_validated b),
       (CntTokenInvalid, bs_retry_token_invalid b),
       (CntTokenExpired, bs_retry_token_expired b),
       (CntParseError, bs_retry_parse_error b)])"

definition flush :: "batch_stats \<Rightarrow> worker_stats \<Rightarrow> worker_stats" where
  "flush b t = foldl add_counter t (flush_stores b)"

record snapshot =
  sn_rx_packets :: u64
  sn_forwarded :: u64
  sn_cid_routed :: u64
  sn_cid_by_config :: "u64 list"
  sn_cid_unroutable_no_server :: u64
  sn_cid_unroutable_bad_server_id :: u64
  sn_fallback_routed :: u64
  sn_draining_forwarded :: u64
  sn_icmp_forwarded :: u64
  sn_passed :: u64
  sn_pending_fill_peak :: u64
  sn_retry_initials_seen :: u64
  sn_retry_issued :: u64
  sn_retry_token_validated :: u64
  sn_retry_token_invalid :: u64
  sn_retry_token_expired :: u64
  sn_retry_parse_error :: u64

definition snapshot_default :: snapshot where
  "snapshot_default =
     \<lparr>sn_rx_packets = 0, sn_forwarded = 0, sn_cid_routed = 0, sn_cid_by_config = replicate 7 0,
      sn_cid_unroutable_no_server = 0, sn_cid_unroutable_bad_server_id = 0, sn_fallback_routed = 0,
      sn_draining_forwarded = 0, sn_icmp_forwarded = 0, sn_passed = 0, sn_pending_fill_peak = 0,
      sn_retry_initials_seen = 0, sn_retry_issued = 0, sn_retry_token_validated = 0,
      sn_retry_token_invalid = 0, sn_retry_token_expired = 0, sn_retry_parse_error = 0\<rparr>"

definition cid_unroutable :: "snapshot \<Rightarrow> u64" where
  "cid_unroutable s = sn_cid_unroutable_no_server s + sn_cid_unroutable_bad_server_id s"

definition delta :: "snapshot \<Rightarrow> snapshot \<Rightarrow> snapshot" where
  "delta self prev =
     \<lparr>sn_rx_packets = sn_rx_packets self - sn_rx_packets prev,
      sn_forwarded = sn_forwarded self - sn_forwarded prev,
      sn_cid_routed = sn_cid_routed self - sn_cid_routed prev,
      sn_cid_by_config = map2 (-) (sn_cid_by_config self) (sn_cid_by_config prev),
      sn_cid_unroutable_no_server = sn_cid_unroutable_no_server self - sn_cid_unroutable_no_server prev,
      sn_cid_unroutable_bad_server_id = sn_cid_unroutable_bad_server_id self - sn_cid_unroutable_bad_server_id prev,
      sn_fallback_routed = sn_fallback_routed self - sn_fallback_routed prev,
      sn_draining_forwarded = sn_draining_forwarded self - sn_draining_forwarded prev,
      sn_icmp_forwarded = sn_icmp_forwarded self - sn_icmp_forwarded prev,
      sn_passed = sn_passed self - sn_passed prev,
      sn_pending_fill_peak = sn_pending_fill_peak self,
      sn_retry_initials_seen = sn_retry_initials_seen self - sn_retry_initials_seen prev,
      sn_retry_issued = sn_retry_issued self - sn_retry_issued prev,
      sn_retry_token_validated = sn_retry_token_validated self - sn_retry_token_validated prev,
      sn_retry_token_invalid = sn_retry_token_invalid self - sn_retry_token_invalid prev,
      sn_retry_token_expired = sn_retry_token_expired self - sn_retry_token_expired prev,
      sn_retry_parse_error = sn_retry_parse_error self - sn_retry_parse_error prev\<rparr>"

text \<open>The body of the loop of \<open>aggregate\<close>.\<close>

definition add_slot :: "snapshot \<Rightarrow> worker_stats \<Rightarrow> snapshot" where
  "add_slot acc slot =
     \<lparr>sn_rx_packets = sn_rx_packets acc + ws_rx_packets slot,
      sn_forwarded = sn_forwarded acc + ws_forwarded slot,
      sn_cid_routed = sn_cid_routed acc + ws_cid_routed slot,
      sn_cid_by_config = map2 (+) (sn_cid_by_config acc) (ws_cid_by_config slot),
      sn_cid_unroutable_no_server = sn_cid_unroutable_no_server acc + ws_cid_unroutable_no_server slot,
      sn_cid_unroutable_bad_server_id = sn_cid_unroutable_bad_server_id acc + ws_cid_unroutable_bad_server_id slot,
      sn_fallback_routed = sn_fallback_routed acc + ws_fallback_routed slot,
      sn_draining_forwarded = sn_draining_forwarded acc + ws_draining_forwarded slot,
      sn_icmp_forwarded = sn_icmp_forwarded acc + ws_icmp_forwarded slot,
      sn_passed = sn_passed acc + ws_passed slot,
      sn_pending_fill_peak =
        (if ws_pending_fill_peak slot > sn_pending_fill_peak acc then ws_pending_fill_peak slot
         else sn_pending_fill_peak acc),
      sn_retry_initials_seen = sn_retry_initials_seen acc + ws_retry_initials_seen slot,
      sn_retry_issued = sn_retry_issued acc + ws_retry_issued slot,
      sn_retry_token_validated = sn_retry_token_validated acc + ws_retry_token_validated slot,
      sn_retry_token_invalid = sn_retry_token_invalid acc + ws_retry_token_invalid slot,
      sn_retry_token_expired = sn_retry_token_expired acc + ws_retry_token_expired slot,
      sn_retry_parse_error = sn_retry_parse_error acc + ws_retry_parse_error slot\<rparr>"

definition aggregate :: "worker_stats list \<Rightarrow> snapshot" where
  "aggregate slots = foldl add_slot snapshot_default slots"

section \<open>A batch accounts for each packet\<close>

text \<open>
  Of a batch in which \<open>k\<close> packets are recorded: each counts once as forwarded, unroutable, passed or
  answered with a Retry, a forwarded packet has one reason, and the CID counter is the sum of its parts.
\<close>

definition batch_counts :: "batch_stats \<Rightarrow> nat \<Rightarrow> bool" where
  "batch_counts b k \<longleftrightarrow>
     length (bs_cid_by_config b) = 7 \<and>
     sum_list (map unat (bs_cid_by_config b)) = unat (bs_cid_routed b) \<and>
     unat (bs_cid_routed b) + unat (bs_fallback_routed b) + unat (bs_icmp_forwarded b) = unat (bs_forwarded b) \<and>
     unat (bs_draining_forwarded b) \<le> unat (bs_cid_routed b) \<and>
     unat (bs_forwarded b) + unat (bs_cid_unroutable_no_server b) + unat (bs_cid_unroutable_bad_server_id b) +
       unat (bs_passed b) + unat (bs_retry_issued b) = k"

lemma batch_counts_new: "batch_counts batch_stats_new 0"
  by (simp add: batch_counts_def batch_stats_new_def sum_list_replicate)

lemma unat_add_1: "unat (w :: u64) < 2 ^ 64 - 1 \<Longrightarrow> unat (w + 1) = unat w + 1"
  by (simp add: unat_word_ariths)

lemma sum_list_bump:
  "i < length ws \<Longrightarrow> unat (ws ! i :: u64) < 2 ^ 64 - 1 \<Longrightarrow>
     sum_list (map unat (ws[i := ws ! i + 1])) = sum_list (map unat ws) + 1"
  using unat_add_1 [of "ws ! i"] by (simp add: map_update sum_list_update elem_le_sum_list)

lemma batch_counts_steps:
  assumes "batch_counts b k" "k < 2 ^ 64 - 1"
  shows "batch_counts (record_fallback_forward b) (k + 1)" "batch_counts (record_icmp_forward b) (k + 1)"
    "batch_counts (record_cid_unroutable_no_server b) (k + 1)"
    "batch_counts (record_cid_unroutable_bad_server_id b) (k + 1)" "batch_counts (record_pass b) (k + 1)"
    "batch_counts (record_retry b outcome detail) (if detail \<noteq> NoDetail \<and> outcome = Emitted then k + 1 else k)"
  using assms
  by (simp_all add: batch_counts_def record_fallback_forward_def record_icmp_forward_def
      record_cid_unroutable_no_server_def record_cid_unroutable_bad_server_id_def record_pass_def
      record_retry_def unat_add_1 Let_def split: detail.split)

lemma batch_counts_cid:
  assumes "batch_counts b k" "k < 2 ^ 64 - 1" "unat config_id < 7"
  shows "\<exists>b'. record_cid_forward b config_id = Some b' \<and> batch_counts b' (k + 1) \<and>
    unat (bs_draining_forwarded b') < unat (bs_cid_routed b')"
proof -
  have "unat (bs_cid_by_config b ! unat config_id) \<le> unat (bs_cid_routed b)"
    using assms elem_le_sum_list [of "unat config_id" "map unat (bs_cid_by_config b)"] by (simp add: batch_counts_def)
  moreover have "unat (bs_cid_routed b) \<le> k" using assms(1) by (simp add: batch_counts_def)
  ultimately show ?thesis
    using assms sum_list_bump [of "unat config_id" "bs_cid_by_config b"]
    by (simp add: batch_counts_def record_cid_forward_def unat_add_1)
qed

lemma batch_counts_draining:
  "batch_counts b k \<Longrightarrow> unat (bs_draining_forwarded b) < unat (bs_cid_routed b) \<Longrightarrow>
     batch_counts (record_draining_forward b) k"
  using unsigned_less [of "bs_cid_routed b", where 'a = nat]
  by (simp add: batch_counts_def record_draining_forward_def unat_add_1)

section \<open>Totals\<close>

text \<open>
  The same balance for the counters of a worker and for a snapshot, modulo \<open>2 ^ 64\<close>; \<open>r\<close> is the number of
  received packets that are not accounted for yet.
\<close>

definition worker_balanced :: "worker_stats \<Rightarrow> u64 \<Rightarrow> bool" where
  "worker_balanced s r \<longleftrightarrow>
     length (ws_cid_by_config s) = 7 \<and> sum_list (ws_cid_by_config s) = ws_cid_routed s \<and>
     ws_cid_routed s + ws_fallback_routed s + ws_icmp_forwarded s = ws_forwarded s \<and>
     ws_forwarded s + ws_cid_unroutable_no_server s + ws_cid_unroutable_bad_server_id s + ws_passed s +
       ws_retry_issued s + r = ws_rx_packets s"

definition snapshot_balanced :: "snapshot \<Rightarrow> bool" where
  "snapshot_balanced s \<longleftrightarrow>
     length (sn_cid_by_config s) = 7 \<and> sum_list (sn_cid_by_config s) = sn_cid_routed s \<and>
     sn_cid_routed s + sn_fallback_routed s + sn_icmp_forwarded s = sn_forwarded s \<and>
     sn_forwarded s + cid_unroutable s + sn_passed s + sn_retry_issued s = sn_rx_packets s"

lemma sum_list_map2_add:
  "length xs = length ys \<Longrightarrow> sum_list (map2 (+) xs ys) = sum_list xs + sum_list (ys :: u64 list)"
  by (induction xs ys rule: list_induct2) (simp_all add: ac_simps)

lemma sum_list_map2_diff:
  "length xs = length ys \<Longrightarrow> sum_list (map2 (-) xs ys) = sum_list xs - sum_list (ys :: u64 list)"
  by (induction xs ys rule: list_induct2) (simp_all add: algebra_simps)

lemma sum_list_unat: "sum_list (map unat ws) = unat (w :: u64) \<Longrightarrow> sum_list ws = w"
proof -
  assume "sum_list (map unat ws) = unat w"
  then have "of_nat (sum_list (map unat ws)) = w" by simp
  moreover have "of_nat (sum_list (map unat ws)) = sum_list ws" by (induction ws) simp_all
  ultimately show ?thesis by simp
qed

lemma worker_balanced_new: "worker_balanced worker_stats_new 0"
  by (simp add: worker_balanced_def worker_stats_new_def sum_list_replicate)

lemma worker_balanced_rx: "worker_balanced s 0 \<Longrightarrow> worker_balanced (record_rx s n) n"
  by (simp add: worker_balanced_def record_rx_def)

lemma worker_balanced_peak: "worker_balanced s r \<Longrightarrow> worker_balanced (record_pending_fill s d) r"
  by (simp add: worker_balanced_def record_pending_fill_def)

text \<open>The totals of a batch as words.\<close>

lemma batch_counts_words:
  assumes "batch_counts b k"
  shows "bs_cid_routed b + bs_fallback_routed b + bs_icmp_forwarded b = bs_forwarded b"
    and "bs_forwarded b + bs_cid_unroutable_no_server b + bs_cid_unroutable_bad_server_id b + bs_passed b +
      bs_retry_issued b = of_nat k"
proof -
  have *: "of_nat (unat (bs_cid_routed b) + unat (bs_fallback_routed b) + unat (bs_icmp_forwarded b)) =
      (of_nat (unat (bs_forwarded b)) :: u64)"
    "of_nat (unat (bs_forwarded b) + unat (bs_cid_unroutable_no_server b) + unat (bs_cid_unroutable_bad_server_id b) +
       unat (bs_passed b) + unat (bs_retry_issued b)) = (of_nat k :: u64)"
    using assms by (simp_all only: batch_counts_def)
  show "bs_cid_routed b + bs_fallback_routed b + bs_icmp_forwarded b = bs_forwarded b"
    "bs_forwarded b + bs_cid_unroutable_no_server b + bs_cid_unroutable_bad_server_id b + bs_passed b +
      bs_retry_issued b = of_nat k"
    using * by simp_all
qed

text \<open>The counters after all stores of a batch. A counter whose store is left out would have got zero.\<close>

lemma add_zero: "add_counter t (c, 0) = t"
  by (cases c) simp_all

lemma foldl_add_nonzero: "foldl add_counter t (filter (\<lambda>(_, n). n > 0) adds) = foldl add_counter t adds"
  by (induction adds arbitrary: t) (auto simp: word_gt_0 add_zero)

lemma map2_add_zero: "length xs = length ys \<Longrightarrow> \<forall>y \<in> set ys. y = 0 \<Longrightarrow> map2 (+) xs (ys :: u64 list) = xs"
  by (induction xs ys rule: list_induct2) simp_all

lemma foldl_by_config:
  "length ns + k = length (ws_cid_by_config t) \<Longrightarrow>
    foldl add_counter t (map (\<lambda>(i, n). (CntCidByConfig i, n)) (enumerate k ns)) =
      t\<lparr>ws_cid_by_config := take k (ws_cid_by_config t) @ map2 (+) (drop k (ws_cid_by_config t)) ns\<rparr>"
proof (induction ns arbitrary: k t)
  case (Cons n ns)
  let ?t = "t\<lparr>ws_cid_by_config := (ws_cid_by_config t)[k := ws_cid_by_config t ! k + n]\<rparr>"
  have k: "k < length (ws_cid_by_config t)" using Cons.prems by simp
  have "drop k (ws_cid_by_config t) = ws_cid_by_config t ! k # drop (Suc k) (ws_cid_by_config t)" using k by (rule Cons_nth_drop_Suc [symmetric])
  moreover have "take (Suc k) (ws_cid_by_config ?t) = take k (ws_cid_by_config t) @ [ws_cid_by_config t ! k + n]"
    using k by (simp add: take_Suc_conv_app_nth)
  ultimately show ?case using Cons.IH [of "Suc k" ?t] Cons.prems by simp
qed simp

lemma flush_eq:
  assumes "batch_counts b k" "length (ws_cid_by_config t) = 7"
  shows "flush b t = t\<lparr>
     ws_forwarded := ws_forwarded t + bs_forwarded b, ws_cid_routed := ws_cid_routed t + bs_cid_routed b,
     ws_cid_by_config := map2 (+) (ws_cid_by_config t) (bs_cid_by_config b),
     ws_fallback_routed := ws_fallback_routed t + bs_fallback_routed b,
     ws_cid_unroutable_no_server := ws_cid_unroutable_no_server t + bs_cid_unroutable_no_server b,
     ws_cid_unroutable_bad_server_id := ws_cid_unroutable_bad_server_id t + bs_cid_unroutable_bad_server_id b,
     ws_draining_forwarded := ws_draining_forwarded t + bs_draining_forwarded b,
     ws_icmp_forwarded := ws_icmp_forwarded t + bs_icmp_forwarded b, ws_passed := ws_passed t + bs_passed b,
     ws_retry_initials_seen := ws_retry_initials_seen t + bs_retry_initials_seen b,
     ws_retry_issued := ws_retry_issued t + bs_retry_issued b,
     ws_retry_token_validated := ws_retry_token_validated t + bs_retry_token_validated b,
     ws_retry_token_invalid := ws_retry_token_invalid t + bs_retry_token_invalid b,
     ws_retry_token_expired := ws_retry_token_expired t + bs_retry_token_expired b,
     ws_retry_parse_error := ws_retry_parse_error t + bs_retry_parse_error b\<rparr>"
proof (cases "bs_cid_routed b > 0")
  case True
  have len: "length (bs_cid_by_config b) = 7" using assms(1) by (simp add: batch_counts_def)
  show ?thesis
    unfolding flush_def flush_stores_def foldl_add_nonzero
    using True foldl_by_config [of "bs_cid_by_config b" 0] assms(2) len by (simp add: foldl_append)
next
  case False
  then have "sum_list (map unat (bs_cid_by_config b)) = 0" using assms(1) by (simp add: batch_counts_def word_gt_0)
  then have "\<forall>w \<in> set (bs_cid_by_config b). w = 0" by (simp add: unat_eq_0)
  then have "map2 (+) (ws_cid_by_config t) (bs_cid_by_config b) = ws_cid_by_config t"
    using assms by (intro map2_add_zero) (simp_all add: batch_counts_def)
  moreover have "bs_cid_routed b = 0" using False by (simp add: word_gt_0)
  ultimately show ?thesis unfolding flush_def flush_stores_def foldl_add_nonzero by simp
qed

lemma worker_balanced_flush:
  assumes "worker_balanced s (of_nat k)" "batch_counts b k"
  shows "worker_balanced (flush b s) 0"
proof -
  have len: "length (ws_cid_by_config s) = 7" "length (bs_cid_by_config b) = 7"
    and sums: "sum_list (ws_cid_by_config s) = ws_cid_routed s" "sum_list (bs_cid_by_config b) = bs_cid_routed b"
    and eqs: "ws_forwarded s = ws_cid_routed s + ws_fallback_routed s + ws_icmp_forwarded s"
      "ws_rx_packets s = ws_forwarded s + ws_cid_unroutable_no_server s + ws_cid_unroutable_bad_server_id s +
         ws_passed s + ws_retry_issued s + of_nat k"
    using assms by (auto simp: worker_balanced_def batch_counts_def intro: sum_list_unat)
  show ?thesis
    unfolding worker_balanced_def flush_eq [OF assms(2) len(1)]
    by (simp add: len sums sum_list_map2_add eqs batch_counts_words [OF assms(2), symmetric])
qed

lemma add_slot_balanced:
  assumes "snapshot_balanced t" "worker_balanced s 0"
  shows "snapshot_balanced (add_slot t s)"
proof -
  have eqs: "sn_forwarded t = sn_cid_routed t + sn_fallback_routed t + sn_icmp_forwarded t"
      "sn_rx_packets t = sn_forwarded t + sn_cid_unroutable_no_server t + sn_cid_unroutable_bad_server_id t +
         sn_passed t + sn_retry_issued t"
      "ws_forwarded s = ws_cid_routed s + ws_fallback_routed s + ws_icmp_forwarded s"
      "ws_rx_packets s = ws_forwarded s + ws_cid_unroutable_no_server s + ws_cid_unroutable_bad_server_id s +
         ws_passed s + ws_retry_issued s"
    using assms by (simp_all add: snapshot_balanced_def worker_balanced_def cid_unroutable_def add.assoc)
  show ?thesis
    using assms unfolding snapshot_balanced_def worker_balanced_def
    by (simp add: add_slot_def cid_unroutable_def sum_list_map2_add eqs)
qed

lemma aggregate_balanced:
  assumes "\<forall>s \<in> set slots. worker_balanced s 0"
  shows "snapshot_balanced (aggregate slots)"
proof -
  have "snapshot_balanced t \<Longrightarrow> \<forall>s \<in> set ss. worker_balanced s 0 \<Longrightarrow> snapshot_balanced (foldl add_slot t ss)" for t ss
    by (induction ss arbitrary: t) (simp_all add: add_slot_balanced)
  moreover have "snapshot_balanced snapshot_default"
    by (simp add: snapshot_balanced_def snapshot_default_def cid_unroutable_def sum_list_replicate)
  ultimately show ?thesis unfolding aggregate_def using assms by blast
qed

lemma delta_balanced:
  assumes "snapshot_balanced s" "snapshot_balanced t"
  shows "snapshot_balanced (delta s t)"
proof -
  have eqs: "sn_forwarded x = sn_cid_routed x + sn_fallback_routed x + sn_icmp_forwarded x"
      "sn_rx_packets x = sn_forwarded x + sn_cid_unroutable_no_server x + sn_cid_unroutable_bad_server_id x +
         sn_passed x + sn_retry_issued x" if "snapshot_balanced x" for x
    using that by (simp_all add: snapshot_balanced_def cid_unroutable_def add.assoc)
  show ?thesis
    using assms unfolding snapshot_balanced_def
    by (simp add: delta_def cid_unroutable_def sum_list_map2_diff eqs [OF assms(1)] eqs [OF assms(2)])
qed

end
