(* ===== verification/Retry_Policy.thy ===== *)
theory Retry_Policy
  imports Retry_Datapath
begin

text \<open>
  What the Retry path of \<open>retry/datapath.rs\<close> guarantees: who is forwarded, who is answered, what the answer
  is, and that a client that follows the answer is forwarded.
\<close>

section \<open>Decisions\<close>

text \<open>The token was issued for this address and connection id, at most the lifetime ago.\<close>

definition token_valid :: "hmac \<Rightarrow> retry_config \<Rightarrow> ip_addr \<Rightarrow> bytes \<Rightarrow> u64 \<Rightarrow> bytes \<Rightarrow> bool" where
  "token_valid h retry src dcid now token \<longleftrightarrow>
     (\<exists>ts. mint h (rt_token_key retry) src dcid ts = Some (Inr token) \<and> ts \<le> now \<and> now - ts \<le> rt_token_lifetime_ms retry)"

text \<open>The mode answers clients without a valid token at the current load.\<close>

definition challenges :: "(tracker_ref \<Rightarrow> load_tracker) \<Rightarrow> retry_config \<Rightarrow> bool" where
  "challenges trackers retry \<longleftrightarrow>
     (case rt_mode retry of
        Always \<Rightarrow> True
      | Observe \<Rightarrow> False
      | Load \<Rightarrow> (\<exists>t trigger. rt_load_tracker retry = Some t \<and> rt_load_trigger_rate retry = Some trigger \<and>
          trigger \<le> rate (trackers t)))"

lemma mint_lengths:
  assumes "hmac_ok h" "mint h k src odcid ts = Some (Inr token)"
  shows "length odcid \<le> 20 \<and> length token = 24"
proof -
  have "length odcid \<le> 20" using assms(2) by (auto simp: mint_def split: if_splits)
  with assms show ?thesis by (auto simp: mint_eq hmac_ok_def)
qed

lemma verify_total: "\<exists>r. verify h k token src odcid now life = Some r"
  by (auto simp: verify_def Let_def)

lemma load_over_trigger_eq:
  assumes "retry_wf retry" "rt_mode retry = Load"
  shows "load_over_trigger trackers retry p = Some (challenges trackers retry, p + 1)"
  using assms by (auto simp: load_over_trigger_def challenges_def retry_wf_def)

lemma load_gated_decision_eq:
  assumes "retry_wf retry"
  shows "load_gated_decision trackers retry p =
    Some (if challenges trackers retry then DEmit else DSkip, if rt_mode retry = Load then p + 1 else p)"
  using load_over_trigger_eq [OF assms] by (auto simp: load_gated_decision_def challenges_def split: retry_mode.splits)

lemma classify_eq:
  assumes "hmac_ok h" "retry_wf retry"
  shows "\<exists>detail p'. classify h trackers i src retry now p = Some
    (if token_valid h retry src (in_dcid i) now (in_token i) then DForward
     else if challenges trackers retry then DEmit else DSkip, detail, p')"
proof (cases "length (in_token i) = 24")
  case True
  from verify_total [of h "rt_token_key retry" "in_token i" src "in_dcid i" now "rt_token_lifetime_ms retry"] obtain r
    where r: "verify h (rt_token_key retry) (in_token i) src (in_dcid i) now (rt_token_lifetime_ms retry) = Some r" ..
  have "token_valid h retry src (in_dcid i) now (in_token i) \<longleftrightarrow> r = Inr ()"
    using verify_accepts [OF assms(1)] r unfolding token_valid_def by (metis option.inject)
  with True r show ?thesis
    by (auto simp: classify_def load_gated_decision_eq [OF assms(2)] split: sum.splits verify_error.splits)
next
  case False
  then have "\<not> token_valid h retry src (in_dcid i) now (in_token i)"
    using mint_lengths [OF assms(1)] by (auto simp: token_valid_def)
  with False show ?thesis
    using load_over_trigger_eq [OF assms(2)] by (auto simp: classify_def challenges_def split: retry_mode.splits)
qed

section \<open>Handling a frame\<close>

lemma initial_bounds:
  assumes "parse_strict quic = Some (Inr i)" "length quic < 2 ^ 64"
  shows "length (in_dcid i) \<le> 20" "length (in_scid i) \<le> 20" "in_version i = QUIC_V1 \<or> in_version i = QUIC_V2"
  using parse_strict_accepts [OF assms(2)] assms(1) by (auto simp: initial_wire_def initial_first_byte_def)

text \<open>The frame is in the scope of the Retry path: it is enabled for its port and can rewrite its headers.\<close>

definition retry_scope :: "config_table \<Rightarrow> parsed_frame \<Rightarrow> retry_config \<Rightarrow> frame_layout \<Rightarrow> bool" where
  "retry_scope table parsed retry layout \<longleftrightarrow>
     ct_retry table = Some retry \<and> rt_enabled retry \<and> from_parsed parsed = Some layout \<and>
     (rt_ports retry = [] \<or> fl_dst_port layout \<in> set (rt_ports retry))"

lemma copy_cid:
  assumes "length cid \<le> 20"
  shows "\<exists>buf. copy_into (replicate 20 0) 0 (length cid) cid = Some buf \<and> slice buf 0 (length cid) = Some (cid :: bytes)"
proof -
  have "copy_into (replicate 20 0) 0 (length cid) cid = Some (filled cid (replicate 20 0))"
    using assms by (simp add: copy_start del: copy_into_in)
  moreover have "slice (filled cid (replicate 20 0)) 0 (length cid) = Some cid"
    using assms by (simp add: slice_filled del: slice_in)
  ultimately show ?thesis by blast
qed

lemma try_handle_initial:
  fixes now :: u64 and trackers :: "tracker_ref \<Rightarrow> load_tracker"
  assumes ok: "hmac_ok h" "gcm_ok seal" "retry_wf retry" "length local_mac = 6" "frame_ok data"
    and frame: "contents data = Some frame" "layout_ok frame parsed"
    and scope: "retry_scope table parsed retry layout"
    and i: "parse_strict (drop (fl_quic_offset layout) frame) = Some (Inr i)"
  defines "valid \<equiv> token_valid h retry (fl_src_ip layout) (in_dcid i) now (in_token i)"
    and "answer \<equiv> reply_size layout (in_dcid i) (in_scid i) \<le> capacity data \<and> challenges trackers retry"
  shows "\<exists>detail p' data'. try_handle h seal trackers data parsed table local_mac now p = Some
      (if valid then Forward else if answer then Emitted else Skip, detail, data', p') \<and>
    (if \<not> valid \<and> answer
     then \<exists>token payload frame'. is_retry h seal (rt_token_key retry) (fl_src_ip layout) (in_version i) (in_dcid i) (in_scid i) now token payload \<and>
       contents data' = Some frame' \<and> reply_to layout local_mac payload frame' \<and> frame_ok data' \<and> capacity data' = capacity data
     else data' = data)"
proof -
  have wf: "fl_wf layout" "fl_quic_offset layout \<le> length frame"
    using from_parsed_wf [OF frame(2)] scope by (auto simp: retry_scope_def)
  have "length frame < 2 ^ 32" using ok(5) frame(1) by (auto simp: frame_ok_def contents_def)
  then have "length (drop (fl_quic_offset layout) frame) < 2 ^ 64" by simp
  note bounds = initial_bounds [OF i this]
  from copy_cid [OF bounds(1)] obtain dbuf where dcid: "copy_into (replicate 20 0) 0 (length (in_dcid i)) (in_dcid i) = Some dbuf"
    "slice dbuf 0 (length (in_dcid i)) = Some (in_dcid i)" by blast
  from copy_cid [OF bounds(2)] obtain sbuf where scid: "copy_into (replicate 20 0) 0 (length (in_scid i)) (in_scid i) = Some sbuf"
    "slice sbuf 0 (length (in_scid i)) = Some (in_scid i)" by blast
  from classify_eq [OF ok(1,3)] obtain detail p'
    where cl: "classify h trackers i (fl_src_ip layout) retry now p = Some
      (if valid then DForward else if challenges trackers retry then DEmit else DSkip, detail, p')"
    unfolding valid_def by blast
  have ports: "\<not> (rt_ports retry \<noteq> [] \<and> fl_dst_port layout \<notin> set (rt_ports retry))"
    using scope by (auto simp: retry_scope_def)
  note emit = emit_result [OF ok(1,2,5) wf(1) ok(4) bounds(3,1,2), of retry now]
  have "try_handle h seal trackers data parsed table local_mac now p =
     (if valid then Some (Forward, detail, data, p')
      else if challenges trackers retry
      then do { (outcome, data) \<leftarrow> emit h seal data layout (in_version i) (in_dcid i) (in_scid i) retry local_mac now;
                Some (outcome, detail, data, p') }
      else Some (Skip, detail, data, p'))"
    using scope frame(1) wf(2) i cl dcid scid unfolding retry_scope_def try_handle_def
    by (simp add: if_not_P [OF ports] del: slice_eq_Some slice_in copy_into_in)
  with emit show ?thesis
    by (cases "capacity data < reply_size layout (in_dcid i) (in_scid i)") (auto simp: answer_def not_less)
qed

text \<open>
  Every frame the parser accepts is handled without a panic; a frame that is not answered is left as it was.
\<close>

lemma try_handle_safe:
  assumes ok: "hmac_ok h" "gcm_ok seal" "\<forall>retry. ct_retry table = Some retry \<longrightarrow> retry_wf retry" "length local_mac = 6" "frame_ok data"
    and frame: "contents data = Some frame" "layout_ok frame parsed"
  obtains outcome detail data' p' where
    "try_handle h seal trackers data parsed table local_mac now p = Some (outcome, detail, data', p')"
    "frame_ok data'" "capacity data' = capacity data" "outcome \<noteq> Emitted \<Longrightarrow> data' = data"
proof (cases "\<exists>retry layout. retry_scope table parsed retry layout")
  case False
  then have "try_handle h seal trackers data parsed table local_mac now p = Some (Skip, NoDetail, data, p)"
    by (auto simp: try_handle_def retry_scope_def split: option.splits)
  with that ok show thesis by blast
next
  case True
  then obtain retry layout where scope: "retry_scope table parsed retry layout" by blast
  have wf: "fl_quic_offset layout \<le> length frame" "retry_wf retry"
    using from_parsed_wf [OF frame(2)] scope ok(3) by (auto simp: retry_scope_def)
  from parse_strict_total obtain r where r: "parse_strict (drop (fl_quic_offset layout) frame) = Some r" by blast
  show thesis
  proof (cases r)
    case (Inl e)
    with scope frame(1) wf r have "\<exists>detail. try_handle h seal trackers data parsed table local_mac now p = Some (Skip, detail, data, p)"
      by (auto simp: try_handle_def retry_scope_def)
    with that ok show thesis by blast
  next
    case (Inr i)
    then have i: "parse_strict (drop (fl_quic_offset layout) frame) = Some (Inr i)" using r by simp
    from try_handle_initial [OF ok(1,2) wf(2) ok(4,5) frame scope i, of trackers now p] obtain outcome detail data' p'
      where "try_handle h seal trackers data parsed table local_mac now p = Some (outcome, detail, data', p')"
        "if outcome = Emitted then frame_ok data' \<and> capacity data' = capacity data else data' = data"
      by (auto split: if_splits)
    with that [of outcome detail data' p'] ok(5) show thesis by (simp split: if_splits)
  qed
qed

text \<open>
  C4. Address validation gates forwarding. For an Initial in the scope of an enabled Retry path, the
  handler forwards exactly when the Initial carries a token that was minted for the sender's address and
  the Initial's destination connection id at most the configured lifetime ago. Every other sender is
  answered exactly when the mode challenges (always, or when the last window's rate reaches the trigger)
  and the reply fits in the frame's chunk; the frame is then a Retry to the sender with a fresh token for
  that address and connection id. In all remaining cases the frame is passed on unchanged.
\<close>

theorem retry_gates_forwarding:
  fixes now :: u64 and trackers :: "tracker_ref \<Rightarrow> load_tracker"
  assumes ok: "hmac_ok h" "gcm_ok seal" "retry_wf retry" "length local_mac = 6" "frame_ok data"
    and frame: "contents data = Some frame" "parse_frame frame = Some (Some parsed)"
    and scope: "retry_scope table parsed retry layout"
    and i: "parse_strict (drop (fl_quic_offset layout) frame) = Some (Inr i)"
  defines "valid \<equiv> token_valid h retry (fl_src_ip layout) (in_dcid i) now (in_token i)"
    and "answer \<equiv> reply_size layout (in_dcid i) (in_scid i) \<le> capacity data \<and> challenges trackers retry"
  shows "\<exists>detail p' data'. try_handle h seal trackers data parsed table local_mac now p = Some
      (if valid then Forward else if answer then Emitted else Skip, detail, data', p') \<and>
    (if \<not> valid \<and> answer
     then \<exists>token payload frame'. is_retry h seal (rt_token_key retry) (fl_src_ip layout) (in_version i) (in_dcid i) (in_scid i) now token payload \<and>
       contents data' = Some frame' \<and> reply_to layout local_mac payload frame' \<and> frame_ok data' \<and> capacity data' = capacity data
     else data' = data)"
  unfolding valid_def answer_def
  by (rule try_handle_initial [OF ok frame(1) parse_frame_layout [OF frame(2)] scope i])

text \<open>A frame from \<open>src\<close> whose Initial uses \<open>dcid\<close> as its destination id and carries \<open>token\<close>.\<close>

definition follows_retry ::
  "config_table \<Rightarrow> retry_config \<Rightarrow> ip_addr \<Rightarrow> bytes \<Rightarrow> bytes \<Rightarrow> adopted_frame \<Rightarrow> parsed_frame \<Rightarrow> bool" where
  "follows_retry table retry src dcid token data parsed \<longleftrightarrow>
     frame_ok data \<and>
     (\<exists>frame layout i. contents data = Some frame \<and> parse_frame frame = Some (Some parsed) \<and>
        retry_scope table parsed retry layout \<and> parse_strict (drop (fl_quic_offset layout) frame) = Some (Inr i) \<and>
        fl_src_ip layout = src \<and> in_dcid i = dcid \<and> in_token i = token)"

text \<open>
  C12. A client that obeys a Retry gets through. Let an Initial be answered with a Retry at time \<open>now\<close>. The
  emitted frame carries a token and names the destination id of the Initial as the Retry's source id, and
  every later Initial from the same address that uses this id as its destination and carries this token is
  forwarded, for every arrival time within the token lifetime, in every mode and at every load.
\<close>

theorem retry_then_forward:
  assumes ok: "hmac_ok h" "gcm_ok seal" "retry_wf retry" "length local_mac = 6" "frame_ok data"
    and first: "contents data = Some frame" "parse_frame frame = Some (Some parsed)" "retry_scope table parsed retry layout"
      "parse_strict (drop (fl_quic_offset layout) frame) = Some (Inr i)"
      "try_handle h seal trackers data parsed table local_mac now p = Some (Emitted, detail, data', p')"
  shows "\<exists>token tag reply. contents data' = Some reply \<and> length tag = 16 \<and> length token = 24 \<and>
    reply_to layout local_mac (retry_body (in_version i) (in_scid i) (in_dcid i) token @ tag) reply \<and>
    (\<forall>data2 parsed2 trackers2 p2 now2.
      follows_retry table retry (fl_src_ip layout) (in_dcid i) token data2 parsed2 \<longrightarrow>
      now \<le> now2 \<longrightarrow> now2 - now \<le> rt_token_lifetime_ms retry \<longrightarrow>
      (\<exists>detail2 p2'. try_handle h seal trackers2 data2 parsed2 table local_mac now2 p2 = Some (Forward, detail2, data2, p2')))"
proof -
  note h1 = try_handle_initial [OF ok first(1) parse_frame_layout [OF first(2)] first(3,4), of trackers now p]
  obtain token payload reply where r: "is_retry h seal (rt_token_key retry) (fl_src_ip layout) (in_version i) (in_dcid i) (in_scid i) now token payload"
      "contents data' = Some reply" "reply_to layout local_mac payload reply"
    using h1 first(5) by (auto split: if_splits)
  then obtain tag where tag: "payload = retry_body (in_version i) (in_scid i) (in_dcid i) token @ tag" "length tag = 16"
    by (auto simp: is_retry_def)
  have "length token = 24" using r(1) mint_lengths [OF ok(1)] by (auto simp: is_retry_def)
  moreover have "\<exists>detail2 p2'. try_handle h seal trackers2 data2 parsed2 table local_mac now2 p2 = Some (Forward, detail2, data2, p2')"
    if follow: "follows_retry table retry (fl_src_ip layout) (in_dcid i) token data2 parsed2"
      "now \<le> now2" "now2 - now \<le> rt_token_lifetime_ms retry" for data2 parsed2 trackers2 p2 now2
  proof -
    obtain frame2 layout2 i2 where f2: "frame_ok data2" "contents data2 = Some frame2" "parse_frame frame2 = Some (Some parsed2)"
        "retry_scope table parsed2 retry layout2" "parse_strict (drop (fl_quic_offset layout2) frame2) = Some (Inr i2)"
        "fl_src_ip layout2 = fl_src_ip layout" "in_dcid i2 = in_dcid i" "in_token i2 = token"
      using follow(1) by (auto simp: follows_retry_def)
    have "token_valid h retry (fl_src_ip layout2) (in_dcid i2) now2 (in_token i2)"
      using r(1) f2 follow(2,3) by (auto simp: token_valid_def is_retry_def)
    with try_handle_initial [OF ok(1-4) f2(1,2) parse_frame_layout [OF f2(3)] f2(4,5), of trackers2 now2 p2]
    show ?thesis by auto
  qed
  ultimately show ?thesis using r tag by blast
qed

section \<open>Checksums of an emitted Retry\<close>

text \<open>
  C39. The checksums of an emitted Retry. Over IPv6 the receiver's check of the UDP datagram with its
  pseudo-header succeeds. Over IPv4 the receiver's check of the 20-byte header succeeds exactly when the
  bytes behind the new header that the header length of the \<^emph>\<open>received\<close> packet still covers add up to a
  multiple of 65535: always when the received header had no options, and in general not when it had some.
\<close>

theorem emitted_checksums:
  assumes ok: "hmac_ok h" "gcm_ok seal" "frame_ok data" "fl_wf layout" "length local_mac = 6"
    and v: "version = QUIC_V1 \<or> version = QUIC_V2" and cids: "length odcid \<le> 20" "length scid \<le> 20"
    and emit: "emit h seal data layout version odcid scid retry local_mac now = Some (Emitted, data')" "contents data' = Some frame"
  shows "if fl_is_ipv4 layout
    then ipv4_valid (take 20 (drop 14 frame)) \<longleftrightarrow> word_sum (take (fl_ip_hdr_len layout - 20) (drop 34 frame)) mod 65535 = 0
    else udp6_valid (take 32 (drop 22 frame)) (drop 54 frame)"
proof -
  from emit_result [OF ok v cids, of retry now] emit obtain payload where r: "reply_to layout local_mac payload frame"
    by (auto split: if_splits)
  have octets: "length (octets (fl_dst_ip layout) @ octets (fl_src_ip layout)) = (if fl_is_ipv4 layout then 8 else 32)"
    using ok(4) by (auto simp: fl_wf_def octets_length)
  show ?thesis
  proof (cases "fl_is_ipv4 layout")
    case True
    with r ok(4,5) show ?thesis by (auto simp: reply_to_def Let_def)
  next
    case False
    with r obtain c :: u16 where c: "frame = reply_eth layout local_mac @ reply_ipv6 layout (length payload) @
        reply_udp layout (length payload) (to_be 2 c) @ payload"
      "udp6_valid (octets (fl_dst_ip layout) @ octets (fl_src_ip layout)) (reply_udp layout (length payload) (to_be 2 c) @ payload)"
      by (auto simp: reply_to_def Let_def)
    have "take 32 (drop 22 frame) = octets (fl_dst_ip layout) @ octets (fl_src_ip layout)"
      using ok(4,5) octets False unfolding c(1) by (simp add: reply_ipv6_def)
    moreover have "drop 54 frame = reply_udp layout (length payload) (to_be 2 c) @ payload"
      using ok(4,5) False unfolding c(1) by simp
    ultimately show ?thesis using False c(2) by simp
  qed
qed

section \<open>Evaluated instances\<close>

definition always_retry :: retry_config where
  "always_retry = sample_retry\<lparr>rt_mode := Always, rt_load_trigger_rate := None, rt_load_tracker := None\<rparr>"

definition always_table :: config_table where
  "always_table = (sample_table 0)\<lparr>ct_retry := Some always_retry\<rparr>"

definition sample_data :: "bytes \<Rightarrow> adopted_frame" where
  "sample_data token = \<lparr>fr_buf = sample_udp_frame (sample_initial token) @ replicate 100 0,
     fr_len = of_nat (length (sample_udp_frame (sample_initial token)))\<rparr>"

definition sample_parsed :: parsed_frame where
  "sample_parsed = \<lparr>pf_family = Ipv4, pf_ip_hdr_len = 20, pf_src_mac = [2, 0, 0, 0, 0, 2],
     pf_src_addr = V4 [192, 0, 2, 7], pf_dst_addr = V4 [10, 0, 1, 10], pf_l4 = Udp 34 42 12345 443\<rparr>"

definition sample_layout :: frame_layout where
  "sample_layout = \<lparr>fl_is_ipv4 = True, fl_ip_offset = 14, fl_ip_hdr_len = 20, fl_udp_offset = 34, fl_quic_offset = 42,
     fl_src_mac = [2, 0, 0, 0, 0, 2], fl_src_ip = V4 [192, 0, 2, 7], fl_dst_ip = V4 [10, 0, 1, 10],
     fl_src_port = 12345, fl_dst_port = 443\<rparr>"

lemma length_sample_frame: "length (sample_udp_frame quic) = 42 + length quic"
  by (simp add: sample_udp_frame_def sample_eth_def sample_ipv4_def)

lemma always_retry_wf: "retry_wf always_retry"
  by (simp add: always_retry_def sample_retry_def retry_wf_def token_key_from_bytes_def)

lemma sample_data_ok:
  assumes "length token < 64"
  shows "frame_ok (sample_data token)" "contents (sample_data token) = Some (sample_udp_frame (sample_initial token))"
    "capacity (sample_data token) = 155 + length token"
proof -
  have "length (sample_udp_frame (sample_initial token)) < 2 ^ 32"
    using assms by (simp add: length_sample_frame sample_initial_def)
  then show "frame_ok (sample_data token)" "contents (sample_data token) = Some (sample_udp_frame (sample_initial token))"
    "capacity (sample_data token) = 155 + length token"
    using assms unat_of_nat_u32 [of "length (sample_udp_frame (sample_initial token))"]
    by (simp_all add: frame_ok_def contents_def capacity_def sample_data_def length_sample_frame sample_initial_def)
qed

lemma sample_scope: "retry_scope always_table sample_parsed always_retry sample_layout"
  by (simp add: retry_scope_def always_table_def always_retry_def sample_retry_def sample_parsed_def sample_layout_def from_parsed_def)

lemma sample_quic_parses:
  "length token < 64 \<Longrightarrow>
     parse_strict (drop (fl_quic_offset sample_layout) (sample_udp_frame (sample_initial token))) = Some (Inr (sample_header token))"
  using sample_initial_parses [of token] by (simp add: sample_layout_def sample_udp_frame_def sample_eth_def sample_ipv4_def)

lemmas sample_retry_frame =
  sample_hmac_ok sample_seal_ok always_retry_wf sample_data_ok sample_scope sample_quic_parses

lemma sample_initial_frame_parses: "parse_frame (sample_udp_frame quic) = Some (Some sample_parsed)"
  by (simp add: parse_frame_sample_udp sample_parsed_def)

lemma sample_answered:
  "\<not> token_valid sample_hmac always_retry (fl_src_ip sample_layout) (in_dcid (sample_header [])) now (in_token (sample_header []))"
  "reply_size sample_layout (in_dcid (sample_header [])) (in_scid (sample_header [])) \<le> capacity (sample_data [])"
  "challenges trackers always_retry"
  using mint_lengths [OF sample_hmac_ok]
  by (fastforce simp: token_valid_def reply_size_def sample_layout_def sample_header_def sample_data_ok challenges_def always_retry_def)+

lemma sample_local_mac_length: "length sample_local_mac = 6"
  by (simp add: sample_local_mac_def)

lemma nil_short: "length ([] :: bytes) < 64"
  by simp

theorem retry_gates_forwarding_witness:
  "\<exists>detail p' data'. try_handle sample_hmac sample_seal (\<lambda>_. tracker_new) (sample_data []) sample_parsed always_table sample_local_mac 1000 0 =
     Some (Emitted, detail, data', p')"
  using retry_gates_forwarding [OF sample_hmac_ok sample_seal_ok always_retry_wf sample_local_mac_length
      sample_data_ok(1,2) [OF nil_short] sample_initial_frame_parses sample_scope sample_quic_parses [OF nil_short], of "\<lambda>_. tracker_new" 1000 0]
    sample_answered
  by auto

theorem retry_then_forward_witness:
  "\<exists>token detail p'. length token = 24 \<and>
     try_handle sample_hmac sample_seal (\<lambda>_. tracker_new) (sample_data token) sample_parsed always_table sample_local_mac 9000 0 =
       Some (Forward, detail, sample_data token, p')"
proof -
  obtain detail p' data' where "try_handle sample_hmac sample_seal (\<lambda>_. tracker_new) (sample_data []) sample_parsed always_table
      sample_local_mac 1000 0 = Some (Emitted, detail, data', p')"
    using try_handle_initial [OF sample_hmac_ok sample_seal_ok always_retry_wf sample_local_mac_length sample_data_ok(1,2) [OF nil_short]
        parse_frame_layout [OF sample_initial_frame_parses] sample_scope sample_quic_parses [OF nil_short], of "\<lambda>_. tracker_new" 1000 0] sample_answered
    by auto
  from retry_then_forward [OF sample_hmac_ok sample_seal_ok always_retry_wf sample_local_mac_length sample_data_ok(1,2) [OF nil_short]
      sample_initial_frame_parses sample_scope sample_quic_parses [OF nil_short] this] obtain token
    where token: "length token = 24" and r:
      "\<forall>data2 parsed2 trackers2 p2 now2. follows_retry always_table always_retry (fl_src_ip sample_layout) (in_dcid (sample_header [])) token data2 parsed2 \<longrightarrow>
        1000 \<le> now2 \<longrightarrow> now2 - 1000 \<le> rt_token_lifetime_ms always_retry \<longrightarrow>
        (\<exists>detail2 p2'. try_handle sample_hmac sample_seal trackers2 data2 parsed2 always_table sample_local_mac now2 p2 = Some (Forward, detail2, data2, p2'))"
    by blast
  have short: "length token < 64" using token by simp
  have "follows_retry always_table always_retry (fl_src_ip sample_layout) (in_dcid (sample_header [])) token (sample_data token) sample_parsed"
    using sample_data_ok [OF short] sample_initial_frame_parses sample_scope sample_quic_parses [OF short]
    by (auto simp: follows_retry_def sample_header_def)
  moreover have "1000 \<le> (9000 :: u64)" "9000 - 1000 \<le> rt_token_lifetime_ms always_retry"
    by (simp_all add: always_retry_def sample_retry_def)
  ultimately show ?thesis using r token by blast
qed

text \<open>An IPv4 datagram with four bytes of options.\<close>

definition options_layout :: frame_layout where
  "options_layout = sample_layout\<lparr>fl_ip_hdr_len := 24, fl_udp_offset := 38, fl_quic_offset := 46\<rparr>"

theorem emitted_checksums_witness:
  "\<exists>data' frame. emit sample_hmac sample_seal (sample_data []) options_layout QUIC_V1 [0xaa] [0xbb] always_retry sample_local_mac 1000 =
     Some (Emitted, data') \<and> contents data' = Some frame \<and> \<not> ipv4_valid (take 20 (drop 14 frame))"
proof -
  note ok = sample_hmac_ok sample_seal_ok sample_data_ok(1) [OF nil_short]
  have wf: "fl_wf options_layout" by (simp add: fl_wf_def options_layout_def sample_layout_def)
  have size: "\<not> capacity (sample_data []) < reply_size options_layout [0xaa] [0xbb]"
    by (simp add: sample_data_ok reply_size_def options_layout_def sample_layout_def)
  from emit_result [OF ok wf sample_local_mac_length, of QUIC_V1 "[0xaa]" "[0xbb]" always_retry 1000] size
  obtain data' frame payload where e: "emit sample_hmac sample_seal (sample_data []) options_layout QUIC_V1 [0xaa] [0xbb] always_retry
      sample_local_mac 1000 = Some (Emitted, data')" "contents data' = Some frame" "reply_to options_layout sample_local_mac payload frame"
    by auto
  have "take 4 (drop 34 frame) = [1, 0xbb, 0x30, 0x39]"
    using e(3) wf sample_local_mac_length
    by (auto simp: reply_to_def Let_def options_layout_def sample_layout_def reply_udp_def to_be_def upt_rec)
  then have "word_sum (take (fl_ip_hdr_len options_layout - 20) (drop 34 frame)) mod 65535 \<noteq> 0"
    by (simp add: options_layout_def be16_def from_be_def)
  with emitted_checksums [OF ok wf sample_local_mac_length _ _ _ e(1,2)] e(1,2) show ?thesis
    by (auto simp: options_layout_def sample_layout_def)
qed

end
