(* ===== verification/Routing.thy ===== *)
theory Routing
  imports Packet
begin

text \<open>
  What the routing decision of \<open>pesigitg-daemon/src/packet.rs\<close> guarantees: when it panics, what it may
  change, which verdict a packet gets and where it is sent. The lemmas are proved under \<open>env_ok\<close>: a
  well-formed table whose four-pass nonces fit the cipher block, ciphers that satisfy the block cipher
  law, and six-byte MACs.
\<close>

section \<open>Routing outcomes\<close>

definition conn_ok :: "connection_table \<Rightarrow> bool" where
  "conn_ok conn \<longleftrightarrow>
     (\<forall>e \<in> ran (by_flow conn). mac_wf (e_mac e)) \<and> (\<forall>e \<in> ran (by_dcid conn). mac_wf (e_mac e))"

text \<open>No active config is in four-pass mode with a nonce longer than the cipher block.\<close>

definition nonces_fit :: "config_table \<Rightarrow> bool" where
  "nonces_fit table \<longleftrightarrow>
     list_all (\<lambda>rc. \<not> (is_four_pass (rc_encryption rc) \<and> 16 < unat (rc_nonce_length rc))) (configs table)"

lemma conn_new_ok: "conn_ok (conn_new now)"
  by (simp add: conn_ok_def conn_new_def)

lemma conn_lookup_new: "conn_lookup (conn_new t0) f d now = None"
  by (simp add: conn_lookup_def conn_new_def split: option.splits)

lemma live_mac: "live m k now = Some mac \<Longrightarrow> \<forall>e \<in> ran m. mac_wf (e_mac e) \<Longrightarrow> mac_wf mac"
  by (auto simp: live_def ran_def split: option.splits if_splits)

lemma conn_lookup_mac: "conn_ok conn \<Longrightarrow> conn_lookup conn f d now = Some mac \<Longrightarrow> mac_wf mac"
  by (auto simp: conn_lookup_live conn_ok_def split: option.splits dest: live_mac)

lemma ran_upd_entry:
  "\<forall>e \<in> ran m. mac_wf (e_mac e) \<Longrightarrow> mac_wf mac \<Longrightarrow> e \<in> ran (m(k \<mapsto> entry_new mac now)) \<Longrightarrow> mac_wf (e_mac e)"
  by (auto simp: ran_def entry_new_def split: if_splits)

lemma conn_insert_ok: "conn_ok conn \<Longrightarrow> mac_wf mac \<Longrightarrow> conn_ok (conn_insert conn f d mac now)"
  by (auto simp: conn_ok_def split: option.splits dest: ran_upd_entry)

lemma record_dcid_ok: "conn_ok conn \<Longrightarrow> mac_wf mac \<Longrightarrow> conn_ok (record_dcid conn d mac now)"
  by (auto simp: conn_ok_def dest: ran_upd_entry)

lemma maybe_sweep_ok: "conn_ok conn \<Longrightarrow> conn_ok (maybe_sweep conn now)"
  by (auto simp: conn_ok_def maybe_sweep_def retain_def ran_def split: option.splits if_splits)

lemma rewrite_macs_eq:
  "12 \<le> length frame \<Longrightarrow> mac_wf mac \<Longrightarrow> mac_wf local_mac \<Longrightarrow>
     rewrite_macs frame mac local_mac = Some (mac @ local_mac @ drop 12 frame)"
  by (simp add: rewrite_macs_def mac_wf_def)

lemma fallback_mac_spec:
  assumes "table_wf aes_new table"
  shows "\<exists>r. fallback_mac fx_hash flow (ct_fallback_servers table) = Some r \<and>
    (ct_fallback_servers table = [] \<longleftrightarrow> r = None) \<and>
    (\<forall>mac. r = Some mac \<longrightarrow> mac_wf mac \<and>
       (\<exists>s \<in> set (ct_fallback_servers table). srv_mac s = Some mac))"
proof (cases "ct_fallback_servers table = []")
  case False
  let ?i = "unat (fx_hash flow) mod length (ct_fallback_servers table)"
  have i: "?i < length (ct_fallback_servers table)" using False by simp
  then have mem: "ct_fallback_servers table ! ?i \<in> set (ct_fallback_servers table)" by simp
  with assms obtain m where "srv_mac (ct_fallback_servers table ! ?i) = Some m" "mac_wf m"
    unfolding table_wf_def by blast
  with i mem False show ?thesis by (auto simp: fallback_mac_def)
qed (simp add: fallback_mac_def)

text \<open>The key under which the fallback path looks a packet up.\<close>

definition fallback_key :: "bytes \<Rightarrow> config_table \<Rightarrow> dcid_key option" where
  "fallback_key quic table =
     (case fallback_cid_length table of
        None \<Rightarrow> None
      | Some len \<Rightarrow>
          (case extract_raw_dcid quic len of
             Some (Some dcid) \<Rightarrow> dcid_from_slice dcid
           | _ \<Rightarrow> None))"

lemma fallback_route_spec:
  assumes "table_wf aes_new table" "conn_ok conn" "mac_wf local_mac" "12 \<le> length frame"
  shows "\<exists>r. fallback_route fx_hash frame quic table conn flow local_mac now = Some r \<and>
    (case conn_lookup conn flow (fallback_key quic table) now of
       Some mac \<Rightarrow> mac_wf mac \<and> r = (FallbackForward, mac @ local_mac @ drop 12 frame, conn)
     | None \<Rightarrow>
         if ct_fallback_servers table = [] then r = (Pass, frame, conn)
         else \<exists>s \<in> set (ct_fallback_servers table). \<exists>mac. srv_mac s = Some mac \<and> mac_wf mac \<and>
           r = (FallbackForward, mac @ local_mac @ drop 12 frame,
                conn_insert conn flow (fallback_key quic table) mac now))"
proof -
  obtain raw where raw: "opt_bind (ret (fallback_cid_length table)) (extract_raw_dcid quic) = Some raw"
      "opt_bind (ret raw) (\<lambda>d. do { k \<leftarrow> dcid_from_slice d; ret (Some k) }) = Some (fallback_key quic table)"
  proof (cases "fallback_cid_length table")
    case None
    with that [of None] show ?thesis by (simp add: fallback_key_def)
  next
    case (Some len)
    obtain x where "extract_raw_dcid quic len = Some x" using extract_raw_dcid_total by blast
    with Some that [of x] show ?thesis
      by (cases x) (auto simp: fallback_key_def dcid_from_slice_eq)
  qed
  obtain r where r: "fallback_mac fx_hash flow (ct_fallback_servers table) = Some r"
      "ct_fallback_servers table = [] \<longleftrightarrow> r = None"
      "\<And>mac. r = Some mac \<Longrightarrow> mac_wf mac \<and> (\<exists>s \<in> set (ct_fallback_servers table). srv_mac s = Some mac)"
    using fallback_mac_spec [OF assms(1)] by blast
  show ?thesis
    using r assms
    by (cases "conn_lookup conn flow (fallback_key quic table) now"; cases r)
      (auto simp: fallback_route_def raw rewrite_macs_eq conn_lookup_mac)
qed

text \<open>The server a packet's connection id decrypts to, if the packet has a config and the id resolves.\<close>

definition cid_server :: "bytes \<Rightarrow> config_table \<Rightarrow> (bytes \<times> route_config \<times> server) option" where
  "cid_server quic table =
     (case lookup_config quic table of
        Some (Some (dcid, rc)) \<Rightarrow>
          (case resolve_server_idx dcid rc of
             Some (Some i) \<Rightarrow> Some (dcid, rc, rc_servers rc ! i)
           | _ \<Rightarrow> None)
      | _ \<Rightarrow> None)"

text \<open>Whether the connection id has a config and the length that config prescribes.\<close>

definition cid_claimed :: "bytes \<Rightarrow> config_table \<Rightarrow> bool" where
  "cid_claimed quic table \<longleftrightarrow>
     (\<exists>dcid rc. lookup_config quic table = Some (Some (dcid, rc)) \<and> unat (cid_payload_length rc) < length dcid)"

lemma nonces_fit_resolve:
  assumes "table_wf aes_new table" "ciphers_ok aes_new" "nonces_fit table" "rc \<in> set (configs table)"
  shows "\<exists>r. resolve_server_idx dcid rc = Some r"
  using resolve_server_idx_None_iff [OF table_wf_configs [OF assms(1,4)] assms(2), of dcid] assms(3,4)
  by (cases "resolve_server_idx dcid rc") (auto simp: nonces_fit_def list_all_iff)

lemma table_wf_server:
  "table_wf aes_new table \<Longrightarrow> rc \<in> set (configs table) \<Longrightarrow> i < length (rc_servers rc) \<Longrightarrow>
     srv_mac (rc_servers rc ! i) = Some mac \<Longrightarrow> mac_wf mac"
  using table_wf_configs [of aes_new table rc]
  by (auto simp: route_wf_def list_all_length server_wf_def)

lemma process_udp_spec:
  assumes wf: "table_wf aes_new table" and ciphers: "ciphers_ok aes_new" and fit: "nonces_fit table"
    and conn: "conn_ok conn" and local: "mac_wf local_mac" and len: "12 \<le> length frame" "q \<le> length frame"
  shows "\<exists>r. process_udp fx_hash frame table conn q flow local_mac now = Some r \<and>
    (case cid_server (drop q frame) table of
       Some (dcid, rc, s) \<Rightarrow>
         if srv_healthy s \<and> srv_mac s \<noteq> None
         then \<exists>mac key. srv_mac s = Some mac \<and> mac_wf mac \<and> dcid_from_slice dcid = Some key \<and>
           r = (if srv_draining s then CidForwardDraining (rc_config_id rc) else CidForward (rc_config_id rc),
                mac @ local_mac @ drop 12 frame, record_dcid conn key mac now)
         else r = (CidUnroutableNoServer, frame, conn)
     | None \<Rightarrow>
         if cid_claimed (drop q frame) table then r = (CidUnroutableBadServerId, frame, conn)
         else fallback_route fx_hash frame (drop q frame) table conn flow local_mac now = Some r)"
proof -
  let ?quic = "drop q frame"
  obtain l where l: "lookup_config ?quic table = Some l" using lookup_config_total by blast
  obtain fr where fr: "fallback_route fx_hash frame ?quic table conn flow local_mac now = Some fr"
    using fallback_route_spec [OF wf conn local len(1)] by blast
  show ?thesis
  proof (cases l)
    case None
    with l len fr show ?thesis by (cases fr) (simp add: process_udp_def cid_server_def cid_claimed_def)
  next
    case (Some p)
    obtain dcid rc where p: "p = (dcid, rc)" by fastforce
    have rc: "rc \<in> set (configs table)" using lookup_config_Some [OF wf] l Some p by blast
    obtain i where i: "resolve_server_idx dcid rc = Some i" using nonces_fit_resolve [OF wf ciphers fit rc] by blast
    show ?thesis
    proof (cases i)
      case None
      with l Some p i len fr show ?thesis
        by (cases fr) (auto simp: process_udp_def cid_server_def cid_claimed_def)
    next
      case i': (Some k)
      have k: "k < length (rc_servers rc)" "unat (cid_payload_length rc) < length dcid"
        using resolve_server_idx_in_range resolve_server_idx_long i i' by blast+
      with l Some p i i' len local show ?thesis
        by (cases "srv_mac (rc_servers rc ! k)")
          (auto simp: process_udp_def cid_server_def dcid_from_slice_eq rewrite_macs_eq table_wf_server [OF wf rc k(1)])
    qed
  qed
qed

lemma icmp_scid_mac_spec:
  assumes wf: "table_wf aes_new table" and ciphers: "ciphers_ok aes_new" and fit: "nonces_fit table"
  shows "\<exists>r. icmp_scid_mac quic table = Some r \<and> (\<forall>mac. r = Some mac \<longrightarrow> mac_wf mac)"
proof -
  have res: "\<exists>r. resolve_server_idx scid rc = Some r" if "get table k = Some rc" for scid rc k
    using nonces_fit_resolve [OF wf ciphers fit] table_wf_get [OF wf that] by blast
  have total: "\<exists>r. icmp_scid_mac quic table = Some r"
    unfolding icmp_scid_mac_def
    by (auto simp: Let_def extract_scid_total res resolve_server_idx_in_range intro!: opt_bind_no_panic)
  have "mac_wf mac" if "icmp_scid_mac quic table = Some (Some mac)" for mac
  proof -
    from that obtain scid rc k i where "get table k = Some rc" "resolve_server_idx scid rc = Some (Some i)"
        "srv_mac (rc_servers rc ! i) = Some mac"
      by (auto simp: icmp_scid_mac_def Let_def split: if_splits)
    then show ?thesis
      using table_wf_get [OF wf] table_wf_server [OF wf] resolve_server_idx_in_range by blast
  qed
  with total show ?thesis by blast
qed

lemma process_icmp_spec:
  assumes wf: "table_wf aes_new table" and ciphers: "ciphers_ok aes_new" and fit: "nonces_fit table"
    and conn: "conn_ok conn" and local: "mac_wf local_mac" and len: "12 \<le> length frame"
  shows "if q \<le> length frame
    then \<exists>r. process_icmp frame table conn q flow local_mac now = Some r \<and>
      (r = (Pass, frame, conn) \<or>
       (\<exists>mac. mac_wf mac \<and> r = (IcmpForward, mac @ local_mac @ drop 12 frame, conn) \<and>
          (icmp_scid_mac (drop q frame) table = Some (Some mac) \<or> conn_lookup conn flow None now = Some mac)))
    else process_icmp frame table conn q flow local_mac now = None"
proof -
  obtain s where s: "icmp_scid_mac (drop q frame) table = Some s" "\<And>mac. s = Some mac \<Longrightarrow> mac_wf mac"
    using icmp_scid_mac_spec [OF wf ciphers fit] by blast
  show ?thesis
    using s len local conn_lookup_mac [OF conn, of flow None now]
    by (cases s; cases "conn_lookup conn flow None now")
      (auto simp: process_icmp_def rewrite_macs_eq slice_from_def)
qed

definition env_ok :: "(bytes \<Rightarrow> aes128) \<Rightarrow> config_table \<Rightarrow> connection_table \<Rightarrow> bytes \<Rightarrow> bool" where
  "env_ok aes_new table conn local_mac \<longleftrightarrow>
     table_wf aes_new table \<and> ciphers_ok aes_new \<and> nonces_fit table \<and> conn_ok conn \<and> mac_wf local_mac"

lemma process_packet_cases:
  assumes env: "env_ok aes_new table conn local_mac"
  obtains
    (unparsed) "parse_frame frame = Some None"
      "process_packet fx_hash frame table conn local_mac now = Some (Pass, frame, conn)"
  | (udp) p u q sp dp flow where "parse_frame frame = Some (Some p)" "pf_l4 p = Udp u q sp dp"
      "flow = \<lparr>fk_src_addr = pf_src_addr p, fk_dst_addr = pf_dst_addr p, fk_src_port = sp, fk_dst_port = dp\<rparr>"
      "14 \<le> length frame" "q \<le> length frame"
      "process_packet fx_hash frame table conn local_mac now = process_udp fx_hash frame table conn q flow local_mac now"
  | (icmp) p q flow where "parse_frame frame = Some (Some p)" "pf_l4 p = Icmp q flow" "14 \<le> length frame"
      "process_packet fx_hash frame table conn local_mac now = process_icmp frame table conn q flow local_mac now"
proof -
  obtain r where r: "parse_frame frame = Some r" using parse_frame_total by blast
  show thesis
  proof (cases r)
    case None
    with r unparsed show thesis by (simp add: process_packet_def)
  next
    case (Some p)
    with r have lay: "layout_ok frame p" using parse_frame_layout by blast
    show thesis
    proof (cases "pf_l4 p")
      case (Udp u q sp dp)
      with r Some lay udp show thesis by (simp add: process_packet_def process_packet_parsed_def layout_ok_def)
    next
      case (Icmp q flow)
      with r Some lay icmp show thesis by (simp add: process_packet_def process_packet_parsed_def layout_ok_def)
    qed
  qed
qed

lemma process_packet_None_iff:
  assumes env: "env_ok aes_new table conn local_mac"
  shows "process_packet fx_hash frame table conn local_mac now = None \<longleftrightarrow>
    (\<exists>p q flow. parse_frame frame = Some (Some p) \<and> pf_l4 p = Icmp q flow \<and> length frame < q)"
  using env
proof (cases rule: process_packet_cases [of aes_new table conn local_mac frame fx_hash now])
  case (udp p u q sp dp flow)
  have "\<exists>r. process_udp fx_hash frame table conn q flow local_mac now = Some r"
    using process_udp_spec [of aes_new table conn local_mac frame q fx_hash flow now] env udp(4,5)
    unfolding env_ok_def by auto
  with udp show ?thesis by auto
next
  case (icmp p q flow)
  have "process_icmp frame table conn q flow local_mac now = None \<longleftrightarrow> length frame < q"
    using process_icmp_spec [of aes_new table conn local_mac frame q flow now] env icmp(3)
    unfolding env_ok_def by (auto simp: not_le split: if_splits)
  with icmp show ?thesis by auto
qed auto

text \<open>
  C7. For a well-formed table, connection table and MAC, and in particular without four-pass configs whose nonce
  is too long for a block, routing panics in exactly one situation: the frame is an ICMP error whose echoed
  UDP header is cut off behind its ports, so that the echoed QUIC payload would start beyond the end of the
  frame. UDP traffic then never panics the worker.
\<close>

theorem process_packet_panics_iff:
  assumes "env_ok aes_new table conn local_mac"
  shows "process_packet fx_hash frame table conn local_mac now = None \<longleftrightarrow>
    (\<exists>p q flow. parse_frame frame = Some (Some p) \<and> pf_l4 p = Icmp q flow \<and> length frame < q)"
  by (rule process_packet_None_iff [OF assms])

section \<open>What a verdict means\<close>

text \<open>The QUIC payload and flow of a frame that parses as UDP.\<close>

definition udp_payload :: "bytes \<Rightarrow> (flow_key \<times> bytes) option" where
  "udp_payload frame =
     (case parse_frame frame of
        Some (Some p) \<Rightarrow>
          (case pf_l4 p of
             Udp _ q sp dp \<Rightarrow>
               Some (\<lparr>fk_src_addr = pf_src_addr p, fk_dst_addr = pf_dst_addr p, fk_src_port = sp, fk_dst_port = dp\<rparr>,
                     drop q frame)
           | Icmp _ _ \<Rightarrow> None)
      | _ \<Rightarrow> None)"

fun forwards :: "verdict \<Rightarrow> bool" where
  "forwards (CidForward _) = True"
| "forwards (CidForwardDraining _) = True"
| "forwards FallbackForward = True"
| "forwards IcmpForward = True"
| "forwards _ = False"

text \<open>
  The result of routing a UDP frame, and of any other frame, as a function of the packet's payload, the
  tables and the frame.
\<close>

lemma process_packet_udp:
  assumes env: "env_ok aes_new table conn local_mac" and udp: "udp_payload frame = Some (flow, quic)"
    and res: "process_packet fx_hash frame table conn local_mac now = Some (v, frame', conn')"
  shows "case cid_server quic table of
       Some (dcid, rc, s) \<Rightarrow>
         if srv_healthy s \<and> srv_mac s \<noteq> None
         then \<exists>mac key. srv_mac s = Some mac \<and> mac_wf mac \<and> dcid_from_slice dcid = Some key \<and>
           v = (if srv_draining s then CidForwardDraining (rc_config_id rc) else CidForward (rc_config_id rc)) \<and>
           frame' = mac @ local_mac @ drop 12 frame \<and> conn' = record_dcid conn key mac now
         else v = CidUnroutableNoServer \<and> frame' = frame \<and> conn' = conn
     | None \<Rightarrow>
         if cid_claimed quic table then v = CidUnroutableBadServerId \<and> frame' = frame \<and> conn' = conn
         else
           (case conn_lookup conn flow (fallback_key quic table) now of
              Some mac \<Rightarrow> mac_wf mac \<and> v = FallbackForward \<and> frame' = mac @ local_mac @ drop 12 frame \<and> conn' = conn
            | None \<Rightarrow>
                if ct_fallback_servers table = [] then v = Pass \<and> frame' = frame \<and> conn' = conn
                else \<exists>s \<in> set (ct_fallback_servers table). \<exists>mac. srv_mac s = Some mac \<and> mac_wf mac \<and>
                  v = FallbackForward \<and> frame' = mac @ local_mac @ drop 12 frame \<and>
                  conn' = conn_insert conn flow (fallback_key quic table) mac now)"
  using env
proof (cases rule: process_packet_cases [of aes_new table conn local_mac frame fx_hash now])
  case (udp p u q sp dp fl)
  with assms(2) have eq: "quic = drop q frame" "flow = fl" by (simp_all add: udp_payload_def)
  have r: "process_udp fx_hash frame table conn q flow local_mac now = Some (v, frame', conn')"
    using res udp(6) eq by simp
  have env': "table_wf aes_new table" "ciphers_ok aes_new" "nonces_fit table" "conn_ok conn" "mac_wf local_mac"
    using env by (simp_all add: env_ok_def)
  have len: "12 \<le> length frame" using udp(4) by simp
  note spec = process_udp_spec [OF env' len udp(5), of fx_hash flow now]
    fallback_route_spec [OF env'(1,4,5) len, of fx_hash quic flow now]
  show ?thesis
    using spec r eq
    by (auto split: option.splits prod.splits if_splits)
qed (use assms(2) in \<open>auto simp: udp_payload_def\<close>)

lemma process_packet_udp_total:
  assumes "env_ok aes_new table conn local_mac" "udp_payload frame = Some x"
  shows "\<exists>v frame' conn'. process_packet fx_hash frame table conn local_mac now = Some (v, frame', conn')"
proof -
  have "process_packet fx_hash frame table conn local_mac now \<noteq> None"
    using assms(2) unfolding process_packet_None_iff [OF assms(1)] by (auto simp: udp_payload_def)
  then show ?thesis by fastforce
qed

lemma process_packet_not_udp:
  assumes env: "env_ok aes_new table conn local_mac" and udp: "udp_payload frame = None"
    and res: "process_packet fx_hash frame table conn local_mac now = Some (v, frame', conn')"
  shows "conn' = conn \<and> (v = Pass \<and> frame' = frame \<or>
    v = IcmpForward \<and> (\<exists>mac. mac_wf mac \<and> frame' = mac @ local_mac @ drop 12 frame))"
  using env
proof (cases rule: process_packet_cases [of aes_new table conn local_mac frame fx_hash now])
  case (icmp p q flow)
  then show ?thesis
    using process_icmp_spec [of aes_new table conn local_mac frame q flow now] env res
    unfolding env_ok_def by (auto split: if_splits)
qed (use udp res in \<open>auto simp: udp_payload_def\<close>)

lemma udp_payload_length: "udp_payload frame = Some x \<Longrightarrow> 14 \<le> length frame"
  by (auto simp: udp_payload_def layout_ok_def split: option.splits l4.splits dest!: parse_frame_layout)

lemma routed_effect:
  assumes env: "env_ok aes_new table conn local_mac"
    and res: "process_packet fx_hash frame table conn local_mac now = Some (v, frame', conn')"
  shows "conn_ok conn' \<and>
    (if forwards v then \<exists>mac. mac_wf mac \<and> frame' = mac @ local_mac @ drop 12 frame \<and> length frame' = length frame
     else frame' = frame \<and> conn' = conn)"
proof -
  have ok: "conn_ok conn" "mac_wf local_mac" using env by (simp_all add: env_ok_def)
  have len: "length frame' = length frame" if "frame' = mac @ local_mac @ drop 12 frame" "mac_wf mac" "12 \<le> length frame" for mac
    using that ok by (simp add: mac_wf_def)
  show ?thesis
  proof (cases "udp_payload frame")
    case (Some x)
    obtain flow quic where x: "x = (flow, quic)" by fastforce
    have "14 \<le> length frame" by (rule udp_payload_length [OF Some])
    with process_packet_udp [OF env Some [unfolded x] res] ok len show ?thesis
      by (auto simp: conn_insert_ok record_dcid_ok split: option.splits if_splits)
  next
    case None
    have "12 \<le> length frame" if "v = IcmpForward"
      using env
    proof (cases rule: process_packet_cases [of aes_new table conn local_mac frame fx_hash now])
      case unparsed
      with res that show ?thesis by simp
    qed auto
    with process_packet_not_udp [OF env None res] ok len show ?thesis by auto
  qed
qed

text \<open>
  Routing only ever touches the two MAC addresses: the frame keeps its length and every byte from
  offset 12 on. A forwarding verdict leaves a six-byte destination followed by the local MAC in front; a
  packet that is passed or unroutable is not modified and leaves the connection table alone. The MACs
  stored in the connection table stay six bytes long.
\<close>

lemma process_packet_effect:
  assumes env: "env_ok aes_new table conn local_mac"
    and res: "process_packet fx_hash frame table conn local_mac now = Some (v, frame', conn')"
  shows "conn_ok conn' \<and>
    (if forwards v then \<exists>mac. mac_wf mac \<and> frame' = mac @ local_mac @ drop 12 frame \<and> length frame' = length frame
     else frame' = frame \<and> conn' = conn)"
  by (rule routed_effect [OF env res])

text \<open>
  C2. CID routing is correct and complete: a packet is forwarded by connection id under config \<open>k\<close>
  exactly when it is a UDP packet whose id belongs to config \<open>k\<close>, decrypts to the id of one of its
  servers, and that server is healthy and has a MAC; the destination is then this server's MAC, the
  draining flag selects the verdict, and the id is recorded for it. A server that is unhealthy or has no
  MAC yields \<open>CidUnroutableNoServer\<close>, and an id of the configured length that decrypts to no server
  yields \<open>CidUnroutableBadServerId\<close>.
\<close>

theorem cid_routing_correct:
  assumes env: "env_ok aes_new table conn local_mac"
    and udp: "udp_payload frame = Some (flow, quic)"
    and res: "process_packet fx_hash frame table conn local_mac now = Some (v, frame', conn')"
  shows "(v \<in> {CidForward k, CidForwardDraining k} \<longleftrightarrow>
      (\<exists>dcid rc s. cid_server quic table = Some (dcid, rc, s) \<and> rc_config_id rc = k \<and>
         srv_healthy s \<and> srv_mac s \<noteq> None)) \<and>
    (\<forall>dcid rc s. cid_server quic table = Some (dcid, rc, s) \<longrightarrow> srv_healthy s \<longrightarrow> srv_mac s \<noteq> None \<longrightarrow>
       v = (if srv_draining s then CidForwardDraining (rc_config_id rc) else CidForward (rc_config_id rc)) \<and>
       srv_mac s = Some (take 6 frame') \<and>
       (\<exists>key. dcid_from_slice dcid = Some key \<and> conn' = record_dcid conn key (take 6 frame') now)) \<and>
    (v = CidUnroutableNoServer \<longleftrightarrow>
      (\<exists>dcid rc s. cid_server quic table = Some (dcid, rc, s) \<and> \<not> (srv_healthy s \<and> srv_mac s \<noteq> None))) \<and>
    (v = CidUnroutableBadServerId \<longleftrightarrow> cid_server quic table = None \<and> cid_claimed quic table)"
  using process_packet_udp [OF env udp res]
  by (auto simp: mac_wf_def split: option.splits if_splits)

text \<open>
  C28. Fallback routing picks a usable backend: when the pool holds the eligible servers, a packet is
  forwarded by fallback either to the live entry of its flow or connection id, or to a healthy,
  non-draining server of an active config whose MAC is resolved, and the choice is then recorded for the
  flow. A packet is passed to the kernel exactly when there is neither.
\<close>

theorem fallback_target:
  assumes env: "env_ok aes_new table conn local_mac"
    and pool: "pool_of (all_servers table) (ct_fallback_servers table)"
    and udp: "udp_payload frame = Some (flow, quic)"
    and unroutable: "cid_server quic table = None" "\<not> cid_claimed quic table"
    and res: "process_packet fx_hash frame table conn local_mac now = Some (v, frame', conn')"
  shows "case conn_lookup conn flow (fallback_key quic table) now of
      Some mac \<Rightarrow> v = FallbackForward \<and> take 6 frame' = mac \<and> conn' = conn
    | None \<Rightarrow>
        (if \<exists>s \<in> set (all_servers table). eligible s
         then v = FallbackForward \<and>
           (\<exists>s \<in> set (all_servers table). eligible s \<and> srv_mac s = Some (take 6 frame')) \<and>
           conn' = conn_insert conn flow (fallback_key quic table) (take 6 frame') now
         else v = Pass \<and> frame' = frame \<and> conn' = conn)"
proof -
  have empty: "ct_fallback_servers table = [] \<longleftrightarrow> \<not> (\<exists>s \<in> set (all_servers table). eligible s)"
    using pool by (cases "ct_fallback_servers table") (auto simp: pool_of_def)
  have mem: "s \<in> set (ct_fallback_servers table) \<Longrightarrow> s \<in> set (all_servers table) \<and> eligible s" for s
    using pool by (auto simp: pool_of_def)
  show ?thesis
    using process_packet_udp [OF env udp res] unroutable mem
    unfolding empty by (auto simp: mac_wf_def split: option.splits if_splits) blast
qed

text \<open>
  C17. Fallback decisions stick: once a packet without a routable connection id has been assigned a
  backend by hashing, every later packet of the same 4-tuple without a routable connection id is sent to
  the same MAC for the lifetime of the entry, even if the routing table, its pool or the hash have changed
  and other flows have used the connection table in between.
\<close>

theorem fallback_sticky:
  assumes env: "env_ok aes_new table conn local_mac"
    and udp: "udp_payload frame = Some (flow, quic)" "cid_server quic table = None" "\<not> cid_claimed quic table"
    and miss: "conn_lookup conn flow (fallback_key quic table) now = None"
    and res: "process_packet fx_hash frame table conn local_mac now = Some (FallbackForward, frame', conn')"
    and ops: "\<forall>x \<in> set ops. \<not> writes_flow flow x \<and> op_time x \<le> now2" and later: "now2 < now + ENTRY_TTL"
    and env2: "env_ok aes_new table2 (foldl conn_step conn' ops) local_mac"
    and udp2: "udp_payload frame2 = Some (flow, quic2)" "cid_server quic2 table2 = None" "\<not> cid_claimed quic2 table2"
    and res2: "process_packet fx_hash2 frame2 table2 (foldl conn_step conn' ops) local_mac now2 = Some (v, frame2', conn2)"
  shows "v = FallbackForward \<and> take 6 frame2' = take 6 frame'"
proof -
  obtain mac where mac: "mac_wf mac" "frame' = mac @ local_mac @ drop 12 frame"
      "conn' = conn_insert conn flow (fallback_key quic table) mac now"
    using process_packet_udp [OF env udp(1) res] udp(2,3) miss
    by (auto split: option.splits if_splits)
  have "conn_lookup (foldl conn_step conn' ops) flow (fallback_key quic2 table2) now2 = Some mac"
    using ct.flow_sticky [OF ops later] mac(3) by simp
  with process_packet_udp [OF env2 udp2(1) res2] udp2(2,3) mac show ?thesis
    by (auto simp: mac_wf_def)
qed

section \<open>Evaluated instances\<close>

text \<open>A table with one config and its servers as the pool.\<close>

definition single_table :: "route_config \<Rightarrow> instant \<Rightarrow> config_table" where
  "single_table rc now =
     \<lparr>ct_path = [], ct_slots = (replicate 7 None)[unat (rc_config_id rc) := Some rc],
      ct_loaded_at = (replicate 7 None)[unat (rc_config_id rc) := Some now],
      ct_fallback_servers = foldl push_fallback [] (rc_servers rc), ct_retry = None\<rparr>"

lemma configs_single_table: "unat (rc_config_id rc) < 7 \<Longrightarrow> configs (single_table rc now) = [rc]"
proof -
  have "List.map_filter id ((replicate n None)[k := Some rc]) = [rc]" if "k < n" for k n
    using that
  proof (induction n arbitrary: k)
    case (Suc n)
    have "List.map_filter id (replicate n (None :: route_config option)) = []"
      by (induction n) (simp_all add: List.map_filter_def)
    with Suc show ?case by (cases k) (simp_all add: List.map_filter_def)
  qed simp
  then show "unat (rc_config_id rc) < 7 \<Longrightarrow> configs (single_table rc now) = [rc]"
    by (simp add: configs_def single_table_def)
qed

lemma single_table_wf:
  assumes "route_wf aes_new rc"
  shows "table_wf aes_new (single_table rc now)"
proof -
  have "\<exists>m. srv_mac s = Some m \<and> mac_wf m" if "s \<in> set (foldl push_fallback [] (rc_servers rc))" for s
    using that pool_of_foldl [of "rc_servers rc"] assms
    by (auto simp: pool_of_def route_wf_def list_all_iff server_wf_def eligible_def)
  moreover have "unat (rc_config_id rc) < 7" using assms by (simp add: route_wf_def word_le_nat_alt)
  ultimately show ?thesis
    using assms by (auto simp: table_wf_def single_table_def slot_wf_def nth_list_update split: if_splits)
qed

definition live_server :: server where
  "live_server = \<lparr>srv_id = [10, 11], srv_address = V4 [10, 0, 1, 10], srv_mac = Some sample_mac,
     srv_draining = False, srv_healthy = True, srv_transitions = 0, srv_state_since = None\<rparr>"

definition live_rc :: route_config where
  "live_rc = \<lparr>rc_config_id = 2, rc_first_octet_encodes_cid_length = False, rc_server_id_length = 2,
     rc_nonce_length = 4, rc_encryption = Plaintext, rc_servers = [live_server], rc_max_key_age_secs = None\<rparr>"

definition live_table :: config_table where
  "live_table = single_table live_rc 0"

text \<open>An ICMP error that echoes an IPv4 header and the first \<open>n\<close> bytes of the UDP datagram.\<close>

definition sample_icmp_frame :: "nat \<Rightarrow> bytes" where
  "sample_icmp_frame n =
     sample_eth @ sample_ipv4 1 @ [3, 1, 0, 0, 0, 0, 0, 0] @ sample_ipv4 17 @ take n [1, 0xbb, 0x30, 0x39, 0, 0, 0, 0]"

definition sample_quic :: "byte \<Rightarrow> bytes" where
  "sample_quic first = [0x40, first, 10, 11, 1, 2, 3, 4, 99]"

lemma live_env: "env_ok xor_cipher live_table (conn_new 0) sample_local_mac"
proof -
  have "route_wf xor_cipher live_rc"
    by (simp add: route_wf_def live_rc_def lengths_ok_def server_wf_def live_server_def mac_wf_def sample_mac_def)
  then have "table_wf xor_cipher live_table" unfolding live_table_def by (rule single_table_wf)
  moreover have "nonces_fit live_table"
    unfolding live_table_def nonces_fit_def by (subst configs_single_table) (simp_all add: live_rc_def)
  ultimately show ?thesis
    by (simp add: env_ok_def ciphers_ok_xor conn_new_ok mac_wf_def sample_local_mac_def)
qed

lemma udp_payload_sample:
  "udp_payload (sample_udp_frame quic) =
     Some (\<lparr>fk_src_addr = V4 [192, 0, 2, 7], fk_dst_addr = V4 [10, 0, 1, 10], fk_src_port = 12345, fk_dst_port = 443\<rparr>, quic)"
  by (simp add: udp_payload_def parse_frame_sample_udp) (simp add: sample_udp_frame_def sample_eth_def sample_ipv4_def)

lemma parse_frame_sample_icmp:
  "\<exists>p flow. parse_frame (sample_icmp_frame 4) = Some (Some p) \<and> pf_l4 p = Icmp 70 flow"
  by (simp add: parse_frame_def parse_frame_ipv4_def parse_frame_icmp_ipv4_def sample_icmp_frame_def sample_eth_def
      sample_ipv4_def be16_def from_be_def Let_def)

lemma get_live_table: "get live_table k = (if k = 2 then Some live_rc else None)"
proof -
  have "unat k = 2 \<longleftrightarrow> k = 2" using word_unat_eq_iff [of k 2] by simp
  then show ?thesis
    by (auto simp: get_def nth_opt_def live_table_def single_table_def nth_list_update live_rc_def split: if_splits)
qed

lemma lookup_sample:
  "lookup_config (sample_quic 0x40) live_table = Some (Some ([0x40, 10, 11, 1, 2, 3, 4], live_rc))"
  "lookup_config (sample_quic 0xff) live_table = Some None"
  by (simp_all add: lookup_config_def first_cid_octet_def extract_raw_dcid_def sample_quic_def get_live_table)
    (simp add: live_rc_def cid_length_def cid_payload_length_def)

lemma cid_server_sample: "cid_server (sample_quic 0x40) live_table = Some ([0x40, 10, 11, 1, 2, 3, 4], live_rc, live_server)"
  by (simp add: cid_server_def lookup_sample resolve_server_idx_def)
    (simp add: live_rc_def cid_payload_length_def find_server_idx_def live_server_def)

lemma unroutable_sample:
  "cid_server (sample_quic 0xff) live_table = None" "\<not> cid_claimed (sample_quic 0xff) live_table"
  by (simp_all add: cid_server_def cid_claimed_def lookup_sample)

theorem process_packet_panics_iff_witness:
  "env_ok xor_cipher live_table (conn_new 0) sample_local_mac \<and>
   process_packet (\<lambda>_. 0) (sample_icmp_frame 4) live_table (conn_new 0) sample_local_mac 0 = None \<and>
   process_packet (\<lambda>_. 0) (sample_udp_frame []) live_table (conn_new 0) sample_local_mac 0 \<noteq> None"
proof -
  have "length (sample_icmp_frame 4) < 70"
    by (simp add: sample_icmp_frame_def sample_eth_def sample_ipv4_def)
  with process_packet_panics_iff [OF live_env] parse_frame_sample_icmp parse_frame_sample_udp live_env
  show ?thesis by (auto simp: parse_frame_sample_udp)
qed

lemma sample_result:
  "\<exists>v frame' conn'. process_packet fx_hash (sample_udp_frame quic) live_table (conn_new 0) sample_local_mac now =
     Some (v, frame', conn')"
  using process_packet_None_iff [OF live_env, of fx_hash "sample_udp_frame quic" now]
  by (cases "process_packet fx_hash (sample_udp_frame quic) live_table (conn_new 0) sample_local_mac now")
    (auto simp: parse_frame_sample_udp)

theorem cid_routing_correct_witness:
  "\<exists>frame' conn'.
     process_packet (\<lambda>_. 0) (sample_udp_frame (sample_quic 0x40)) live_table (conn_new 0) sample_local_mac 0 =
       Some (CidForward 2, frame', conn') \<and> take 6 frame' = sample_mac"
proof -
  obtain v frame' conn' where r: "process_packet (\<lambda>_. 0) (sample_udp_frame (sample_quic 0x40)) live_table
      (conn_new 0) sample_local_mac 0 = Some (v, frame', conn')"
    using sample_result by blast
  have "v = CidForward 2 \<and> take 6 frame' = sample_mac"
    using cid_routing_correct [OF live_env udp_payload_sample r, of 2] cid_server_sample
    by (simp add: live_rc_def live_server_def)
  with r show ?thesis by blast
qed

theorem fallback_target_witness:
  "\<exists>frame' conn'.
     process_packet (\<lambda>_. 7) (sample_udp_frame (sample_quic 0xff)) live_table (conn_new 0) sample_local_mac 0 =
       Some (FallbackForward, frame', conn') \<and> take 6 frame' = sample_mac"
proof -
  have all: "all_servers live_table = [live_server]"
    unfolding all_servers_def live_table_def by (subst configs_single_table) (simp_all add: live_rc_def)
  have pool: "pool_of (all_servers live_table) (ct_fallback_servers live_table)"
    unfolding all using pool_of_foldl [of "[live_server]"] by (simp add: live_table_def single_table_def live_rc_def)
  obtain v frame' conn' where r: "process_packet (\<lambda>_. 7) (sample_udp_frame (sample_quic 0xff)) live_table
      (conn_new 0) sample_local_mac 0 = Some (v, frame', conn')"
    using sample_result by blast
  have "v = FallbackForward \<and> take 6 frame' = sample_mac"
    using fallback_target [OF live_env pool udp_payload_sample unroutable_sample r]
    by (simp add: all conn_lookup_new eligible_def live_server_def)
  with r show ?thesis by blast
qed

theorem fallback_sticky_witness:
  "\<exists>frame' conn' frame2' conn2.
     process_packet (\<lambda>_. 7) (sample_udp_frame (sample_quic 0xff)) live_table (conn_new 0) sample_local_mac 0 =
       Some (FallbackForward, frame', conn') \<and>
     process_packet (\<lambda>_. 8) (sample_udp_frame (sample_quic 0xfe)) live_table (maybe_sweep conn' (secs 4)) sample_local_mac (secs 4) =
       Some (FallbackForward, frame2', conn2) \<and> take 6 frame2' = take 6 frame'"
proof -
  let ?p = "\<lambda>h q conn now. process_packet (\<lambda>_. h) (sample_udp_frame (sample_quic q)) live_table conn sample_local_mac now"
  have un2: "cid_server (sample_quic 0xfe) live_table = None" "\<not> cid_claimed (sample_quic 0xfe) live_table"
    by (simp_all add: cid_server_def cid_claimed_def lookup_config_def first_cid_octet_def sample_quic_def)
  obtain v frame' conn' where r: "?p 7 0xff (conn_new 0) 0 = Some (v, frame', conn')"
    using sample_result by blast
  have pool: "ct_fallback_servers live_table = [live_server]"
    by (simp add: live_table_def single_table_def live_rc_def push_fallback_def eligible_def live_server_def)
  have v: "v = FallbackForward" "conn_ok conn'"
    using process_packet_udp [OF live_env udp_payload_sample r]
    by (auto simp: unroutable_sample conn_lookup_new pool conn_insert_ok conn_new_ok split: option.splits if_splits)
  then have env2: "env_ok xor_cipher live_table (foldl conn_step conn' [Sweep (secs 4)]) sample_local_mac"
    using live_env by (simp add: env_ok_def maybe_sweep_ok)
  have "?p 8 0xfe (foldl conn_step conn' [Sweep (secs 4)]) (secs 4) \<noteq> None"
    by (simp only: process_packet_None_iff [OF env2] parse_frame_sample_udp) simp
  then obtain v2 frame2' conn2 where r2: "?p 8 0xfe (foldl conn_step conn' [Sweep (secs 4)]) (secs 4) = Some (v2, frame2', conn2)"
    by fastforce
  have "v2 = FallbackForward \<and> take 6 frame2' = take 6 frame'"
    by (rule fallback_sticky [OF live_env udp_payload_sample unroutable_sample conn_lookup_new r [unfolded v] _ _ env2
          udp_payload_sample un2 r2])
      (simp_all add: secs_def ENTRY_TTL_def)
  with r r2 v show ?thesis by auto
qed

end
