(* ===== verification/Worker.thy ===== *)
theory Worker
  imports Xdp_Socket Stats Retry_Policy Routing
begin

text \<open>
  The packet loop of \<open>pesigitg-daemon/src/threading.rs\<close>. \<open>worker_loop_generic\<close> is generic over the socket, so the
  model takes the trait's dictionary as an argument. One iteration is split into the phases between which
  the kernel can act on the shared rings and the main loop can read the shared counters: draining the
  backlog, draining the completions, polling, counting the received packets, the packets of the batch, each
  store of the counters of the batch, transmitting, and recycling. The program point is part of the state. What an
  iteration reads from outside (clocks, the shutdown flag, the current route table, whether the socket is
  readable) is an input of each step.
\<close>

section \<open>One packet\<close>

definition BATCH_SIZE :: nat where "BATCH_SIZE = 64"

datatype action = ActionEmitted | ActionVerdict verdict

text \<open>What does not change while the worker runs; the cryptography and the hash are third-party code.\<close>

record worker_env =
  we_hmac :: hmac
  we_seal :: gcm
  we_fx_hash :: "flow_key \<Rightarrow> u64"
  we_local_mac :: bytes

record worker_input =
  wi_shutdown :: bool
  wi_now :: instant
  wi_now_ms :: u64
  wi_readable :: bool
  wi_config :: config_table

text \<open>The dispatch decision for one frame: parse once, try the Retry path, else route.\<close>

definition frame_action ::
  "worker_env \<Rightarrow> worker_input \<Rightarrow> (tracker_ref \<Rightarrow> load_tracker) \<Rightarrow> adopted_frame \<Rightarrow> connection_table \<Rightarrow> batch_stats \<Rightarrow> u64 \<Rightarrow>
     (action \<times> adopted_frame \<times> connection_table \<times> batch_stats \<times> u64) run" where
  "frame_action env inp trackers data conn stats pending_load_initials = do {
     frame \<leftarrow> contents data;
     parsed \<leftarrow> parse_frame frame;
     case parsed of
       None \<Rightarrow> ret (ActionVerdict Pass, data, conn, record_retry stats Skip NoDetail, pending_load_initials)
     | Some parsed \<Rightarrow> do {
         (retry_outcome, retry_detail, data, pending_load_initials) \<leftarrow>
           try_handle (we_hmac env) (we_seal env) trackers data parsed (wi_config inp) (we_local_mac env)
             (wi_now_ms inp) pending_load_initials;
         let stats = record_retry stats retry_outcome retry_detail;
         case retry_outcome of
           Emitted \<Rightarrow> ret (ActionEmitted, data, conn, stats, pending_load_initials)
         | _ \<Rightarrow> do {
             frame \<leftarrow> contents data;
             (v, frame, conn) \<leftarrow>
               process_packet_parsed (we_fx_hash env) frame parsed (wi_config inp) conn (we_local_mac env) (wi_now inp);
             data \<leftarrow> store_contents data frame;
             ret (ActionVerdict v, data, conn, stats, pending_load_initials)
           }
       }
   }"

fun dispatch :: "batch_stats \<Rightarrow> 'f list \<Rightarrow> 'f list \<Rightarrow> 'f \<Rightarrow> verdict \<Rightarrow> (batch_stats \<times> 'f list \<times> 'f list) run" where
  "dispatch stats tx recycle desc (CidForward config_id) = do {
     stats \<leftarrow> record_cid_forward stats config_id;
     ret (stats, tx @ [desc], recycle)
   }"
| "dispatch stats tx recycle desc (CidForwardDraining config_id) = do {
     stats \<leftarrow> record_cid_forward stats config_id;
     ret (record_draining_forward stats, tx @ [desc], recycle)
   }"
| "dispatch stats tx recycle desc FallbackForward = ret (record_fallback_forward stats, tx @ [desc], recycle)"
| "dispatch stats tx recycle desc IcmpForward = ret (record_icmp_forward stats, tx @ [desc], recycle)"
| "dispatch stats tx recycle desc CidUnroutableNoServer =
     ret (record_cid_unroutable_no_server stats, tx, recycle @ [desc])"
| "dispatch stats tx recycle desc CidUnroutableBadServerId =
     ret (record_cid_unroutable_bad_server_id stats, tx, recycle @ [desc])"
| "dispatch stats tx recycle desc Pass = ret (record_pass stats, tx, recycle @ [desc])"

section \<open>A batch\<close>

text \<open>The variables that the loop over the received descriptors updates.\<close>

record ('s, 'f) batch =
  bt_xsk :: 's
  bt_conn :: connection_table
  bt_stats :: batch_stats
  bt_pending_load_initials :: u64
  bt_descs :: "'f list"
  bt_tx :: "'f list"
  bt_recycle :: "'f list"

definition handle_desc ::
  "('s, 'f) af_xdp \<Rightarrow> worker_env \<Rightarrow> worker_input \<Rightarrow> (tracker_ref \<Rightarrow> load_tracker) \<Rightarrow> ('s, 'f) batch \<Rightarrow> 'f \<Rightarrow> ('s, 'f) batch run" where
  "handle_desc S env inp trackers b desc = do {
     data \<leftarrow> af_frame_view S (bt_xsk b) desc;
     (action, data, conn, stats, pending) \<leftarrow>
       frame_action env inp trackers data (bt_conn b) (bt_stats b) (bt_pending_load_initials b);
     (xsk, desc) \<leftarrow> af_frame_store S (bt_xsk b) desc data;
     (stats, tx, recycle) \<leftarrow>
       (case action of
          ActionEmitted \<Rightarrow> ret (stats, bt_tx b @ [desc], bt_recycle b)
        | ActionVerdict v \<Rightarrow> dispatch stats (bt_tx b) (bt_recycle b) desc v);
     ret \<lparr>bt_xsk = xsk, bt_conn = conn, bt_stats = stats, bt_pending_load_initials = pending,
          bt_descs = bt_descs b @ [desc], bt_tx = tx, bt_recycle = recycle\<rparr>
   }"

section \<open>The loop\<close>

text \<open>At \<open>AtFlush\<close>: the stores of the batch that are still to come, and what its load tracker is told after them.\<close>

datatype pc = AtTop | AtComplete | AtPoll | AtRx nat | AtBatch nat
  | AtFlush "(counter \<times> u64) list" "(tracker_ref \<times> u64 \<times> u64) option" | AtTransmit | AtRecycle | Exited

record ('s, 'f) worker =
  wk_pc :: pc
  wk_xsk :: 's
  wk_rx_descs :: "'f list"
  wk_comp_descs :: "'f list"
  wk_conn :: connection_table
  wk_now :: instant
  wk_pending_fill :: "'f list"
  wk_tx_batch :: "'f list"
  wk_recycle_batch :: "'f list"
  wk_stats :: worker_stats
  wk_trackers :: "tracker_ref \<Rightarrow> load_tracker"

definition worker_new :: "('s, 'f) af_xdp \<Rightarrow> 's \<Rightarrow> instant \<Rightarrow> (tracker_ref \<Rightarrow> load_tracker) \<Rightarrow> ('s, 'f) worker" where
  "worker_new S xsk now trackers =
     \<lparr>wk_pc = AtTop, wk_xsk = xsk, wk_rx_descs = replicate BATCH_SIZE (af_zero_frame S),
      wk_comp_descs = replicate BATCH_SIZE (af_zero_frame S), wk_conn = conn_new now, wk_now = now, wk_pending_fill = [],
      wk_tx_batch = [], wk_recycle_batch = [], wk_stats = worker_stats_new, wk_trackers = trackers\<rparr>"

definition phase_refill :: "('s, 'f) af_xdp \<Rightarrow> ('s, 'f) worker \<Rightarrow> ('s, 'f) worker run" where
  "phase_refill S w =
     (if wk_pending_fill w \<noteq> [] then do {
        (refilled, xsk) \<leftarrow> af_refill S (wk_xsk w) (wk_pending_fill w);
        ret (w\<lparr>wk_xsk := xsk, wk_pending_fill := drop refilled (wk_pending_fill w), wk_pc := AtComplete\<rparr>)
      } else ret (w\<lparr>wk_pc := AtComplete\<rparr>))"

definition phase_complete :: "('s, 'f) af_xdp \<Rightarrow> instant \<Rightarrow> ('s, 'f) worker \<Rightarrow> ('s, 'f) worker run" where
  "phase_complete S now w = do {
     (consumed, refilled, xsk, comp_descs) \<leftarrow> af_complete S (wk_xsk w) (wk_comp_descs w);
     let w = w\<lparr>wk_xsk := xsk, wk_comp_descs := comp_descs, wk_now := now, wk_conn := maybe_sweep (wk_conn w) now,
                wk_pc := AtPoll\<rparr>;
     if refilled < consumed then do {
       rest \<leftarrow> slice comp_descs refilled consumed;
       ret (w\<lparr>wk_pending_fill := wk_pending_fill w @ rest\<rparr>)
     } else ret w
   }"

definition phase_poll :: "('s, 'f) af_xdp \<Rightarrow> bool \<Rightarrow> ('s, 'f) worker \<Rightarrow> ('s, 'f) worker run" where
  "phase_poll S readable w = do {
     (n, xsk, rx_descs) \<leftarrow> af_poll_recv S (wk_xsk w) readable (wk_rx_descs w);
     ret (w\<lparr>wk_xsk := xsk, wk_rx_descs := rx_descs, wk_pc := if n = 0 then AtTop else AtRx n\<rparr>)
   }"

definition phase_rx :: "nat \<Rightarrow> ('s, 'f) worker \<Rightarrow> ('s, 'f) worker" where
  "phase_rx n w = w\<lparr>wk_tx_batch := [], wk_recycle_batch := [], wk_stats := record_rx (wk_stats w) (of_nat n), wk_pc := AtBatch n\<rparr>"

definition phase_batch ::
  "('s, 'f) af_xdp \<Rightarrow> worker_env \<Rightarrow> worker_input \<Rightarrow> nat \<Rightarrow> ('s, 'f) worker \<Rightarrow> ('s, 'f) worker run" where
  "phase_batch S env inp n w = do {
     descs \<leftarrow> slice (wk_rx_descs w) 0 n;
     b \<leftarrow> foldM (handle_desc S env (inp\<lparr>wi_now := wk_now w\<rparr>) (wk_trackers w))
            \<lparr>bt_xsk = wk_xsk w, bt_conn = wk_conn w, bt_stats = batch_stats_new, bt_pending_load_initials = 0,
             bt_descs = [], bt_tx = wk_tx_batch w, bt_recycle = wk_recycle_batch w\<rparr> descs;
     let load = map_option (\<lambda>t. (t, bt_pending_load_initials b, wi_now_ms inp))
                  (Option.bind (ct_retry (wi_config inp)) rt_load_tracker);
     ret (w\<lparr>wk_xsk := bt_xsk b, wk_conn := bt_conn b, wk_rx_descs := bt_descs b @ drop n (wk_rx_descs w),
            wk_tx_batch := bt_tx b, wk_recycle_batch := bt_recycle b, wk_pc := AtFlush (flush_stores (bt_stats b)) load\<rparr>)
   }"

fun phase_flush :: "(counter \<times> u64) list \<Rightarrow> (tracker_ref \<times> u64 \<times> u64) option \<Rightarrow> ('s, 'f) worker \<Rightarrow> ('s, 'f) worker" where
  "phase_flush (store # stores) load w = w\<lparr>wk_stats := add_counter (wk_stats w) store, wk_pc := AtFlush stores load\<rparr>"
| "phase_flush [] None w = w\<lparr>wk_pc := AtTransmit\<rparr>"
| "phase_flush [] (Some (t, initials, now_ms)) w =
     w\<lparr>wk_trackers := (wk_trackers w)(t := record_batch (wk_trackers w t) initials now_ms), wk_pc := AtTransmit\<rparr>"

definition phase_transmit :: "('s, 'f) af_xdp \<Rightarrow> ('s, 'f) worker \<Rightarrow> ('s, 'f) worker run" where
  "phase_transmit S w = do {
     (sent, xsk) \<leftarrow> af_transmit S (wk_xsk w) (wk_tx_batch w);
     let w = w\<lparr>wk_xsk := xsk, wk_pc := AtRecycle\<rparr>;
     if sent < length (wk_tx_batch w) then do {
       rest \<leftarrow> slice_from (wk_tx_batch w) sent;
       ret (w\<lparr>wk_pending_fill := wk_pending_fill w @ rest\<rparr>)
     } else ret w
   }"

definition phase_recycle :: "('s, 'f) af_xdp \<Rightarrow> ('s, 'f) worker \<Rightarrow> ('s, 'f) worker run" where
  "phase_recycle S w = do {
     (refilled, xsk) \<leftarrow> af_refill S (wk_xsk w) (wk_recycle_batch w);
     let w = w\<lparr>wk_xsk := xsk, wk_pc := AtTop\<rparr>;
     w \<leftarrow> (if refilled < length (wk_recycle_batch w) then do {
              rest \<leftarrow> slice_from (wk_recycle_batch w) refilled;
              ret (w\<lparr>wk_pending_fill := wk_pending_fill w @ rest\<rparr>)
            } else ret w);
     ret (w\<lparr>wk_stats := record_pending_fill (wk_stats w) (of_nat (length (wk_pending_fill w)))\<rparr>)
   }"

definition worker_step ::
  "('s, 'f) af_xdp \<Rightarrow> worker_env \<Rightarrow> worker_input \<Rightarrow> ('s, 'f) worker \<Rightarrow> ('s, 'f) worker run" where
  "worker_step S env inp w =
     (case wk_pc w of
        AtTop \<Rightarrow> if wi_shutdown inp then ret (w\<lparr>wk_pc := Exited\<rparr>) else phase_refill S w
      | AtComplete \<Rightarrow> phase_complete S (wi_now inp) w
      | AtPoll \<Rightarrow> phase_poll S (wi_readable inp) w
      | AtRx n \<Rightarrow> ret (phase_rx n w)
      | AtBatch n \<Rightarrow> phase_batch S env inp n w
      | AtFlush stores load \<Rightarrow> ret (phase_flush stores load w)
      | AtTransmit \<Rightarrow> phase_transmit S w
      | AtRecycle \<Rightarrow> phase_recycle S w
      | Exited \<Rightarrow> ret w)"

section \<open>What a packet does to a frame and to the counters\<close>

text \<open>Inversion of successful case distinctions.\<close>

lemma run_cases:
  "(case r of Inl e \<Rightarrow> f e | Inr x \<Rightarrow> g x) = Some y \<longleftrightarrow> (\<exists>e. r = Inl e \<and> f e = Some y) \<or> (\<exists>x. r = Inr x \<and> g x = Some y)"
  "(case m of None \<Rightarrow> a | Some x \<Rightarrow> h x) = Some y \<longleftrightarrow> m = None \<and> a = Some y \<or> (\<exists>x. m = Some x \<and> h x = Some y)"
  "(if c then p else q) = Some y \<longleftrightarrow> c \<and> p = Some y \<or> \<not> c \<and> q = Some y"
  by (auto split: sum.splits option.splits)

lemma decision_cases:
  "(case d of DSkip \<Rightarrow> a | DForward \<Rightarrow> b | DEmit \<Rightarrow> c) = Some y \<longleftrightarrow>
     d = DSkip \<and> a = Some y \<or> d = DForward \<and> b = Some y \<or> d = DEmit \<and> c = Some y"
  by (cases d) auto

lemma store_contents_capacity: "store_contents data bs = Some data' \<Longrightarrow> capacity data' = capacity data"
  by (auto simp: store_contents_def capacity_def dest: copy_into_length)

lemma emit_capacity:
  "emit h seal data layout version odcid scid retry local_mac now_ms = Some (outcome, data') \<Longrightarrow> capacity data' = capacity data"
  unfolding emit_def resize_def Let_def
  by (auto simp: run_cases simp del: if_split dest!: store_contents_capacity) (simp_all add: capacity_def)

lemma verify_cases:
  "(case e of Invalid \<Rightarrow> a | Expired \<Rightarrow> b) = Some y \<longleftrightarrow> e = Invalid \<and> a = Some y \<or> e = Expired \<and> b = Some y"
  by (cases e) auto

lemma classify_emits:
  "classify h trackers initial src retry now_ms p = Some (DEmit, detail, p') \<Longrightarrow> detail \<noteq> NoDetail"
  unfolding classify_def Let_def
  by (auto simp: run_cases verify_cases simp del: if_split split: retry_mode.split_asm if_split_asm)

lemma try_handle_effect:
  assumes "try_handle h seal trackers data parsed table local_mac now_ms p = Some (outcome, detail, data', p')"
  shows "capacity data' = capacity data" "outcome = Emitted \<Longrightarrow> detail \<noteq> NoDetail"
  using assms unfolding try_handle_def
  by (auto simp: run_cases decision_cases simp del: if_split dest: emit_capacity classify_emits)

lemma frame_action_effect:
  assumes run: "frame_action env inp trackers data conn stats p = Some (a, data', conn', stats', p')"
    and counts: "batch_counts stats k" "k < 2 ^ 64 - 1"
  shows "capacity data' = capacity data \<and>
    (case a of ActionEmitted \<Rightarrow> batch_counts stats' (k + 1) | ActionVerdict v \<Rightarrow> batch_counts stats' k)"
proof -
  obtain frame r where r: "contents data = Some frame" "parse_frame frame = Some r"
    using run by (auto simp: frame_action_def)
  show ?thesis
  proof (cases r)
    case None
    with run r counts show ?thesis by (auto simp: frame_action_def record_retry_def)
  next
    case (Some parsed)
    with run r obtain outcome detail data1 p1 where t:
      "try_handle (we_hmac env) (we_seal env) trackers data parsed (wi_config inp) (we_local_mac env) (wi_now_ms inp) p =
         Some (outcome, detail, data1, p1)"
      by (auto simp: frame_action_def)
    note counts' = batch_counts_steps(6) [OF counts, of outcome detail]
    show ?thesis
    proof (cases "outcome = Emitted")
      case True
      with run r Some t counts' try_handle_effect [OF t] show ?thesis by (auto simp: frame_action_def Let_def)
    next
      case False
      with run r Some t obtain v frame1 frame2 where
        "store_contents data1 frame2 = Some data'" "a = ActionVerdict v" "stats' = record_retry stats outcome detail"
        by (cases outcome) (auto simp: frame_action_def Let_def)
      with False counts' try_handle_effect [OF t] store_contents_capacity show ?thesis by auto
    qed
  qed
qed

lemma record_cid_forward_range: "record_cid_forward b i = Some b' \<Longrightarrow> unat i < length (bs_cid_by_config b)"
  by (auto simp: record_cid_forward_def Let_def)

lemma dispatch_effect:
  assumes "dispatch stats tx recycle desc v = Some (stats', tx', recycle')" "batch_counts stats k" "k < 2 ^ 64 - 1"
  shows "batch_counts stats' (k + 1) \<and> mset tx' + mset recycle' = add_mset desc (mset tx + mset recycle)"
proof -
  have cid: "batch_counts b' (k + 1) \<and> unat (bs_draining_forwarded b') < unat (bs_cid_routed b')"
    if "record_cid_forward stats i = Some b'" for i b'
    using batch_counts_cid [OF assms(2,3), of i] record_cid_forward_range [OF that] that assms(2)
    by (auto simp: batch_counts_def [of stats])
  show ?thesis
    using assms(1) batch_counts_steps [OF assms(2,3)]
    by (cases v) (auto dest!: cid intro: batch_counts_draining)
qed

section \<open>What the worker holds\<close>

text \<open>The descriptors in the worker's hands at each program point, and all the frames it accounts for.\<close>

definition held :: "('s, 'f) worker \<Rightarrow> 'f list" where
  "held w =
     (case wk_pc w of
        AtRx n \<Rightarrow> take n (wk_rx_descs w)
      | AtBatch n \<Rightarrow> take n (wk_rx_descs w)
      | AtFlush _ _ \<Rightarrow> wk_tx_batch w @ wk_recycle_batch w
      | AtTransmit \<Rightarrow> wk_tx_batch w @ wk_recycle_batch w
      | AtRecycle \<Rightarrow> wk_recycle_batch w
      | _ \<Rightarrow> []) @ wk_pending_fill w"

definition worker_frames :: "('s \<Rightarrow> nat multiset) \<Rightarrow> ('s \<Rightarrow> 'f \<Rightarrow> nat) \<Rightarrow> ('s, 'f) worker \<Rightarrow> nat multiset" where
  "worker_frames owned chunk w = owned (wk_xsk w) + mset (map (chunk (wk_xsk w)) (held w))"

text \<open>
  The counters once the stores of the current batch have been made, and the received packets that the
  batch has still to account for.
\<close>

definition settled_stats :: "('s, 'f) worker \<Rightarrow> worker_stats" where
  "settled_stats w = (case wk_pc w of AtFlush stores _ \<Rightarrow> foldl add_counter (wk_stats w) stores | _ \<Rightarrow> wk_stats w)"

definition unsettled :: "('s, 'f) worker \<Rightarrow> u64" where
  "unsettled w = (case wk_pc w of AtBatch n \<Rightarrow> of_nat n | _ \<Rightarrow> 0)"

definition between_batches :: "('s, 'f) worker \<Rightarrow> bool" where
  "between_batches w = (case wk_pc w of AtBatch _ \<Rightarrow> False | AtFlush _ _ \<Rightarrow> False | _ \<Rightarrow> True)"

definition worker_inv :: "('s \<Rightarrow> bool) \<Rightarrow> ('s, 'f) worker \<Rightarrow> bool" where
  "worker_inv ok w \<longleftrightarrow>
     ok (wk_xsk w) \<and> length (wk_rx_descs w) = BATCH_SIZE \<and> worker_balanced (settled_stats w) (unsettled w) \<and>
     (case wk_pc w of
        AtRx n \<Rightarrow> n \<le> BATCH_SIZE
      | AtBatch n \<Rightarrow> n \<le> BATCH_SIZE \<and> wk_tx_batch w = [] \<and> wk_recycle_batch w = []
      | _ \<Rightarrow> True)"

lemmas phase_facts = worker_inv_def worker_frames_def held_def settled_stats_def unsettled_def

context af_xdp_socket
begin

lemma handle_desc_effect:
  assumes "handle_desc S env inp trackers b d = Some b'" "ok (bt_xsk b)" "batch_counts (bt_stats b) k" "k < 2 ^ 64 - 1"
  shows "ok (bt_xsk b') \<and> chunk (bt_xsk b') = chunk (bt_xsk b) \<and> fits (bt_xsk b') = fits (bt_xsk b) \<and>
    owned (bt_xsk b') = owned (bt_xsk b) \<and> batch_counts (bt_stats b') (k + 1) \<and>
    length (bt_descs b') = length (bt_descs b) + 1 \<and>
    image_mset (chunk (bt_xsk b)) (mset (bt_tx b') + mset (bt_recycle b')) =
      add_mset (chunk (bt_xsk b) d) (image_mset (chunk (bt_xsk b)) (mset (bt_tx b) + mset (bt_recycle b)))"
proof -
  from assms(1) obtain data a data' conn stats p xsk d' stats' tx recycle where run:
    "af_frame_view S (bt_xsk b) d = Some data"
    "frame_action env inp trackers data (bt_conn b) (bt_stats b) (bt_pending_load_initials b) = Some (a, data', conn, stats, p)"
    "af_frame_store S (bt_xsk b) d data' = Some (xsk, d')"
    "(case a of ActionEmitted \<Rightarrow> Some (stats, bt_tx b @ [d'], bt_recycle b)
      | ActionVerdict v \<Rightarrow> dispatch stats (bt_tx b) (bt_recycle b) d' v) = Some (stats', tx, recycle)"
    "b' = \<lparr>bt_xsk = xsk, bt_conn = conn, bt_stats = stats', bt_pending_load_initials = p,
          bt_descs = bt_descs b @ [d'], bt_tx = tx, bt_recycle = recycle\<rparr>"
    unfolding handle_desc_def by auto
  note action = frame_action_effect [OF run(2) assms(3,4)]
  have store: "ok xsk \<and> chunk xsk = chunk (bt_xsk b) \<and> fits xsk = fits (bt_xsk b) \<and> owned xsk = owned (bt_xsk b) \<and>
      chunk (bt_xsk b) d' = chunk (bt_xsk b) d"
    using store_law [OF assms(2) run(1)] action run(3) by fastforce
  have "batch_counts stats' (k + 1) \<and> mset tx + mset recycle = add_mset d' (mset (bt_tx b) + mset (bt_recycle b))"
  proof (cases a)
    case (ActionVerdict v)
    with run(4) action dispatch_effect [of stats "bt_tx b" "bt_recycle b" d' v stats' tx recycle k] assms(4)
    show ?thesis by auto
  qed (use run(4) action in auto)
  with store run(5) show ?thesis by simp
qed

lemma handle_descs_effect:
  assumes "foldM (handle_desc S env inp trackers) b ds = Some b'" "ok (bt_xsk b)" "batch_counts (bt_stats b) k"
    "k + length ds < 2 ^ 64"
  shows "ok (bt_xsk b') \<and> chunk (bt_xsk b') = chunk (bt_xsk b) \<and> fits (bt_xsk b') = fits (bt_xsk b) \<and>
    owned (bt_xsk b') = owned (bt_xsk b) \<and> batch_counts (bt_stats b') (k + length ds) \<and>
    length (bt_descs b') = length (bt_descs b) + length ds \<and>
    image_mset (chunk (bt_xsk b)) (mset (bt_tx b') + mset (bt_recycle b')) =
      image_mset (chunk (bt_xsk b)) (mset ds + (mset (bt_tx b) + mset (bt_recycle b)))"
  using assms
proof (induction ds arbitrary: b k)
  case (Cons d ds)
  from Cons.prems(1) obtain b1 where b1: "handle_desc S env inp trackers b d = Some b1"
    "foldM (handle_desc S env inp trackers) b1 ds = Some b'" by auto
  have "k < 2 ^ 64 - 1" using Cons.prems(4) by simp
  note one = handle_desc_effect [OF b1(1) Cons.prems(2,3) this]
  with Cons.IH [OF b1(2), of "k + 1"] Cons.prems(4) show ?case by simp
qed simp

lemma rx_phase:
  assumes "worker_inv ok w" "wk_pc w = AtRx n"
  shows "worker_inv ok (phase_rx n w) \<and> worker_frames owned chunk (phase_rx n w) = worker_frames owned chunk w"
  using assms by (simp add: phase_facts phase_rx_def worker_balanced_rx)

lemma batch_phase:
  assumes "phase_batch S env inp n w = Some w'" "worker_inv ok w" "wk_pc w = AtBatch n"
  shows "worker_inv ok w' \<and> worker_frames owned chunk w' = worker_frames owned chunk w"
proof -
  let ?b = "\<lparr>bt_xsk = wk_xsk w, bt_conn = wk_conn w, bt_stats = batch_stats_new, bt_pending_load_initials = 0,
             bt_descs = [], bt_tx = [], bt_recycle = []\<rparr>"
  have n: "n \<le> BATCH_SIZE" "length (wk_rx_descs w) = BATCH_SIZE" "ok (wk_xsk w)" "worker_balanced (wk_stats w) (of_nat n)"
      "wk_tx_batch w = []" "wk_recycle_batch w = []"
    using assms(2,3) by (simp_all add: phase_facts)
  from assms(1) obtain b load where b:
    "foldM (handle_desc S env (inp\<lparr>wi_now := wk_now w\<rparr>) (wk_trackers w)) ?b (take n (wk_rx_descs w)) = Some b"
    "wk_xsk w' = bt_xsk b" "wk_rx_descs w' = bt_descs b @ drop n (wk_rx_descs w)" "wk_tx_batch w' = bt_tx b"
    "wk_recycle_batch w' = bt_recycle b" "wk_pending_fill w' = wk_pending_fill w"
    "wk_pc w' = AtFlush (flush_stores (bt_stats b)) load" "wk_stats w' = wk_stats w"
    by (auto simp: phase_batch_def Let_def n(5,6))
  have "0 + length (take n (wk_rx_descs w)) < 2 ^ 64" using n by (simp add: BATCH_SIZE_def)
  from handle_descs_effect [OF b(1) _ _ this] n
  have eff: "ok (bt_xsk b)" "chunk (bt_xsk b) = chunk (wk_xsk w)" "owned (bt_xsk b) = owned (wk_xsk w)"
    "batch_counts (bt_stats b) n" "length (bt_descs b) = n"
    "image_mset (chunk (wk_xsk w)) (mset (bt_tx b) + mset (bt_recycle b)) = image_mset (chunk (wk_xsk w)) (mset (take n (wk_rx_descs w)))"
    by (simp_all add: batch_counts_new)
  have "worker_balanced (settled_stats w') (unsettled w')"
    using worker_balanced_flush [OF n(4) eff(4)] by (simp add: settled_stats_def unsettled_def b(7,8) flush_def)
  moreover have "length (wk_rx_descs w') = BATCH_SIZE" using b(3) eff(5) n by simp
  ultimately show ?thesis
    using b eff assms(3) by (simp add: worker_inv_def worker_frames_def held_def)
qed

lemma flush_phase:
  assumes "worker_inv ok w" "wk_pc w = AtFlush stores load"
  shows "worker_inv ok (phase_flush stores load w) \<and> worker_frames owned chunk (phase_flush stores load w) = worker_frames owned chunk w"
  using assms by (cases "(stores, load, w)" rule: phase_flush.cases) (simp_all add: phase_facts)

lemma mset_take_drop: "mset (map f (take n xs)) + mset (map f (drop n xs)) = mset (map f xs)"
  by (metis append_take_drop_id map_append mset_append)

text \<open>A phase that offers descriptors to a ring and keeps the rest in the backlog.\<close>

lemma refill_phase:
  assumes "phase_refill S w = Some w'" "worker_inv ok w" "wk_pc w = AtTop"
  shows "worker_inv ok w' \<and> worker_frames owned chunk w' = worker_frames owned chunk w"
proof (cases "wk_pending_fill w = []")
  case False
  have "ok (wk_xsk w)" using assms(2) by (simp add: worker_inv_def)
  from refill_law [OF this, of "wk_pending_fill w"] obtain m s' where
    "af_refill S (wk_xsk w) (wk_pending_fill w) = Some (m, s')" "ok s'" "chunk s' = chunk (wk_xsk w)"
    "owned s' = owned (wk_xsk w) + mset (map (chunk (wk_xsk w)) (take m (wk_pending_fill w)))" by blast
  with assms False mset_take_drop [of "chunk (wk_xsk w)" m "wk_pending_fill w"] show ?thesis
    by (auto simp: phase_refill_def phase_facts add.assoc)
qed (use assms in \<open>auto simp: phase_refill_def phase_facts\<close>)

lemma complete_phase:
  assumes "phase_complete S now w = Some w'" "worker_inv ok w" "wk_pc w = AtComplete"
  shows "worker_inv ok w' \<and> worker_frames owned chunk w' = worker_frames owned chunk w"
proof -
  have "ok (wk_xsk w)" using assms(2) by (simp add: worker_inv_def)
  from complete_law [OF this, of "wk_comp_descs w"] obtain c r s' ds where
    "af_complete S (wk_xsk w) (wk_comp_descs w) = Some (c, r, s', ds)" "ok s'" "chunk s' = chunk (wk_xsk w)"
    "r \<le> c" "c \<le> length ds" "owned (wk_xsk w) = owned s' + mset (map (chunk (wk_xsk w)) (drop r (take c ds)))" by blast
  with assms show ?thesis
    by (auto simp: phase_complete_def Let_def phase_facts drop_take add.assoc split: if_splits)
qed

lemma poll_phase:
  assumes "phase_poll S readable w = Some w'" "worker_inv ok w" "wk_pc w = AtPoll"
  shows "worker_inv ok w' \<and> worker_frames owned chunk w' = worker_frames owned chunk w"
proof -
  have "ok (wk_xsk w)" using assms(2) by (simp add: worker_inv_def)
  from poll_law [OF this, of readable "wk_rx_descs w"] obtain n s' ds where
    "af_poll_recv S (wk_xsk w) readable (wk_rx_descs w) = Some (n, s', ds)" "ok s'" "chunk s' = chunk (wk_xsk w)"
    "n \<le> length (wk_rx_descs w)" "length ds = length (wk_rx_descs w)"
    "owned (wk_xsk w) = owned s' + mset (map (chunk (wk_xsk w)) (take n ds))" by blast
  with assms show ?thesis
    by (auto simp: phase_poll_def phase_facts add.assoc split: if_splits)
qed

lemma transmit_phase:
  assumes "phase_transmit S w = Some w'" "worker_inv ok w" "wk_pc w = AtTransmit"
  shows "worker_inv ok w' \<and> worker_frames owned chunk w' = worker_frames owned chunk w"
proof -
  have "ok (wk_xsk w)" using assms(2) by (simp add: worker_inv_def)
  from transmit_law [OF this, of "wk_tx_batch w"] obtain m s' where
    "af_transmit S (wk_xsk w) (wk_tx_batch w) = Some (m, s')" "ok s'" "chunk s' = chunk (wk_xsk w)" "m \<le> length (wk_tx_batch w)"
    "owned s' = owned (wk_xsk w) + mset (map (chunk (wk_xsk w)) (take m (wk_tx_batch w)))" by blast
  with assms mset_take_drop [of "chunk (wk_xsk w)" m "wk_tx_batch w"] show ?thesis
    by (auto simp: phase_transmit_def Let_def phase_facts ac_simps split: if_splits)
qed

lemma recycle_phase:
  assumes "phase_recycle S w = Some w'" "worker_inv ok w" "wk_pc w = AtRecycle"
  shows "worker_inv ok w' \<and> worker_frames owned chunk w' = worker_frames owned chunk w"
proof -
  have "ok (wk_xsk w)" using assms(2) by (simp add: worker_inv_def)
  from refill_law [OF this, of "wk_recycle_batch w"] obtain m s' where
    "af_refill S (wk_xsk w) (wk_recycle_batch w) = Some (m, s')" "ok s'" "chunk s' = chunk (wk_xsk w)" "m \<le> length (wk_recycle_batch w)"
    "owned s' = owned (wk_xsk w) + mset (map (chunk (wk_xsk w)) (take m (wk_recycle_batch w)))" by blast
  moreover from this assms(1) have "wk_xsk w' = s'" "wk_pc w' = AtTop" "wk_rx_descs w' = wk_rx_descs w"
      "wk_pending_fill w' = wk_pending_fill w @ drop m (wk_recycle_batch w)"
      "wk_stats w' = record_pending_fill (wk_stats w) (of_nat (length (wk_pending_fill w')))"
    by (cases "m < length (wk_recycle_batch w)"; auto simp: phase_recycle_def Let_def)+
  ultimately show ?thesis
    using assms(2,3) mset_take_drop [of "chunk (wk_xsk w)" m "wk_recycle_batch w"]
    by (simp add: phase_facts worker_balanced_peak ac_simps)
qed

lemma worker_step_conserves:
  assumes "worker_step S env inp w = Some w'" "worker_inv ok w"
  shows "worker_inv ok w' \<and> worker_frames owned chunk w' = worker_frames owned chunk w"
proof (cases "wk_pc w")
  case AtTop
  then show ?thesis
    using assms refill_phase [of w w'] by (auto simp: worker_step_def phase_facts split: if_splits)
next
  case AtComplete
  with assms complete_phase [of "wi_now inp" w w'] show ?thesis by (simp add: worker_step_def)
next
  case AtPoll
  with assms poll_phase [of "wi_readable inp" w w'] show ?thesis by (simp add: worker_step_def)
next
  case (AtBatch n)
  with assms batch_phase [of env inp n w w'] show ?thesis by (simp add: worker_step_def)
next
  case (AtRx n)
  with assms rx_phase [of w n] show ?thesis by (auto simp: worker_step_def)
next
  case (AtFlush stores load)
  with assms flush_phase [of w stores load] show ?thesis by (auto simp: worker_step_def)
next
  case AtTransmit
  with assms transmit_phase [of w w'] show ?thesis by (simp add: worker_step_def)
next
  case AtRecycle
  with assms recycle_phase [of w w'] show ?thesis by (simp add: worker_step_def)
next
  case Exited
  with assms show ?thesis by (simp add: worker_step_def)
qed

text \<open>Only the packets of a batch can make a step fail.\<close>

lemma worker_step_enabled:
  assumes "worker_inv ok w" "\<forall>n. wk_pc w \<noteq> AtBatch n"
  shows "worker_step S env inp w \<noteq> None"
proof -
  have ok: "ok (wk_xsk w)" using assms(1) by (simp add: worker_inv_def)
  show ?thesis
  proof (cases "wk_pc w")
    case AtTop
    obtain n s where "af_refill S (wk_xsk w) (wk_pending_fill w) = Some (n, s)"
      using refill_law [OF ok] by metis
    with AtTop show ?thesis by (simp add: worker_step_def phase_refill_def)
  next
    case AtComplete
    obtain c r s ds where "af_complete S (wk_xsk w) (wk_comp_descs w) = Some (c, r, s, ds)" "r \<le> c" "c \<le> length ds"
      using complete_law [OF ok] by metis
    with AtComplete show ?thesis by (simp add: worker_step_def phase_complete_def Let_def)
  next
    case AtPoll
    obtain n s ds where "af_poll_recv S (wk_xsk w) (wi_readable inp) (wk_rx_descs w) = Some (n, s, ds)"
      using poll_law [OF ok] by metis
    with AtPoll show ?thesis by (simp add: worker_step_def phase_poll_def)
  next
    case AtTransmit
    obtain n s where "af_transmit S (wk_xsk w) (wk_tx_batch w) = Some (n, s)" "n \<le> length (wk_tx_batch w)"
      using transmit_law [OF ok] by metis
    with AtTransmit show ?thesis by (simp add: worker_step_def phase_transmit_def Let_def)
  next
    case AtRecycle
    obtain n s where "af_refill S (wk_xsk w) (wk_recycle_batch w) = Some (n, s)" "n \<le> length (wk_recycle_batch w)"
      using refill_law [OF ok] by metis
    with AtRecycle show ?thesis by (simp add: worker_step_def phase_recycle_def Let_def)
  qed (use assms(2) in \<open>simp_all add: worker_step_def\<close>)
qed

end

section \<open>The worker and the kernel\<close>

text \<open>
  What the kernel does with the shared rings: it takes free frames from the fill ring, delivers a packet
  in a frame it holds, takes frames to send, and reports a frame it holds as sent. A delivery may change
  any byte of its own frame. \<open>k\<close> is the frames the kernel holds.
\<close>

inductive kernel_step :: "adopted_socket \<times> nat multiset \<Rightarrow> adopted_socket \<times> nat multiset \<Rightarrow> bool" where
  take_fill: "consume (sk_fill s) [0] = Some (1, fill, [addr]) \<Longrightarrow>
    kernel_step (s, k) (s\<lparr>sk_fill := fill\<rparr>, add_mset (addr_chunk s addr) k)"
| deliver: "produce (sk_rx s) [desc] = Some (1, rx) \<Longrightarrow> desc_chunk s desc \<in># k \<Longrightarrow> length umem = length (sk_umem s) \<Longrightarrow>
    \<forall>i < length umem. i div unat (sk_chunk_size s) \<noteq> desc_chunk s desc \<longrightarrow> umem ! i = sk_umem s ! i \<Longrightarrow>
    kernel_step (s, k) (s\<lparr>sk_rx := rx, sk_umem := umem\<rparr>, k - {#desc_chunk s desc#})"
| take_tx: "consume (sk_tx s) [zero_frame] = Some (1, tx, [desc]) \<Longrightarrow>
    kernel_step (s, k) (s\<lparr>sk_tx := tx\<rparr>, add_mset (desc_chunk s desc) k)"
| report_sent: "produce (sk_comp s) [addr] = Some (1, cr) \<Longrightarrow> addr_chunk s addr \<in># k \<Longrightarrow>
    kernel_step (s, k) (s\<lparr>sk_comp := cr\<rparr>, k - {#addr_chunk s addr#})"

text \<open>Any interleaving of the two, and of other workers that update the shared load trackers.\<close>

inductive system_step ::
  "worker_env \<Rightarrow> (adopted_socket, xdp_desc) worker \<times> nat multiset \<Rightarrow> (adopted_socket, xdp_desc) worker \<times> nat multiset \<Rightarrow> bool"
  for env where
  by_worker: "worker_step adopted_ops env inp w = Some w' \<Longrightarrow> system_step env (w, k) (w', k)"
| by_kernel: "kernel_step (wk_xsk w, k) (xsk, k') \<Longrightarrow> system_step env (w, k) (w\<lparr>wk_xsk := xsk\<rparr>, k')"
| by_others: "system_step env (w, k) (w\<lparr>wk_trackers := trackers\<rparr>, k)"

lemma consume_one:
  assumes "ring_ok r" "consume r [x] = Some (1, r', [y])"
  shows "ring_ok r' \<and> queued r = y # queued r'"
proof -
  from rings.pop_law [OF assms(1), of "[x]"] assms(2)
  have "ring_ok r'" "queued r' = drop 1 (queued r)" "min (length (queued r)) 1 = 1"
    "take 1 (queued r) @ drop (length (queued r)) [x] = [y]"
    by (auto simp del: length_queued)
  then show ?thesis by (cases "queued r") auto
qed

lemma produce_one:
  assumes "ring_ok r" "produce r [y] = Some (1, r')"
  shows "ring_ok r' \<and> queued r' = queued r @ [y]"
  using rings.push_prefix [OF assms(1), of "[y]"] assms(2) by auto

lemma kernel_step_conserves:
  assumes "kernel_step (s, k) (s', k')" "socket_ok s"
  shows "socket_ok s' \<and> desc_chunk s' = desc_chunk s \<and> ring_frames s' + k' = ring_frames s + k"
  using assms(1)
proof (cases rule: kernel_step.cases)
  case (take_fill fill addr)
  with assms(2) consume_one [of "sk_fill s" 0 fill addr] show ?thesis by (auto simp: socket_ok_def ring_frames_def)
next
  case (deliver desc rx umem)
  with assms(2) produce_one [of "sk_rx s" desc rx] show ?thesis by (auto simp: socket_ok_def ring_frames_def)
next
  case (take_tx tx desc)
  with assms(2) consume_one [of "sk_tx s" zero_frame tx desc] show ?thesis by (auto simp: socket_ok_def ring_frames_def)
next
  case (report_sent addr cr)
  with assms(2) produce_one [of "sk_comp s" addr cr] show ?thesis by (auto simp: socket_ok_def ring_frames_def)
qed

lemma system_step_conserves:
  assumes "system_step env (w, k) (w', k')" "worker_inv socket_ok w"
  shows "worker_inv socket_ok w' \<and>
    worker_frames ring_frames desc_chunk w' + k' = worker_frames ring_frames desc_chunk w + k"
  using assms(1)
proof (cases rule: system_step.cases)
  case (by_worker inp)
  with adopted.worker_step_conserves [of env inp w w'] assms(2) show ?thesis by simp
next
  case (by_kernel xsk)
  with kernel_step_conserves [of "wk_xsk w" k xsk k'] assms(2) show ?thesis
    by (auto simp: phase_facts ac_simps split: pc.splits)
next
  case (by_others trackers)
  with assms(2) show ?thesis by (cases "wk_pc w") (simp_all add: phase_facts)
qed

lemma system_run_conserves:
  assumes "(system_step env)\<^sup>*\<^sup>* s s'"
  shows "worker_inv socket_ok (fst s) \<Longrightarrow> worker_inv socket_ok (fst s') \<and>
    worker_frames ring_frames desc_chunk (fst s') + snd s' = worker_frames ring_frames desc_chunk (fst s) + snd s"
  using assms
proof (induction rule: rtranclp_induct)
  case (step y z)
  with system_step_conserves [of env "fst y" "snd y" "fst z" "snd z"] show ?case by simp
qed simp

lemma worker_new_inv: "socket_ok xsk \<Longrightarrow> worker_inv socket_ok (worker_new adopted_ops xsk now trackers)"
  by (simp add: phase_facts worker_new_def worker_balanced_new)

section \<open>Properties\<close>

text \<open>
  C5. No frame of the packet memory is lost or duplicated. In any interleaving of the worker with the kernel
  and with other workers, from the start of the worker on, the frames in the four rings, in the hands of
  the worker (received, to be sent, to be recycled, or in the backlog) and in the hands of the kernel are
  together exactly the frames there were at the start. The steps of the worker other than the packets of a
  batch never fail. When the worker has exited, the frames of its backlog are the ones that neither the
  rings of the socket it returns nor the kernel have.
\<close>

theorem frames_conserved:
  assumes "socket_ok xsk" "(system_step env)\<^sup>*\<^sup>* (worker_new adopted_ops xsk now trackers, k) (w, k')"
  shows "ring_frames (wk_xsk w) + mset (map (desc_chunk (wk_xsk w)) (held w)) + k' = ring_frames xsk + k \<and>
    ((\<forall>n. wk_pc w \<noteq> AtBatch n) \<longrightarrow> worker_step adopted_ops env inp w \<noteq> None) \<and>
    (wk_pc w = Exited \<longrightarrow>
       ring_frames (wk_xsk w) + k' + mset (map (desc_chunk (wk_xsk w)) (wk_pending_fill w)) = ring_frames xsk + k)"
proof -
  have inv: "worker_inv socket_ok w"
    and frames: "worker_frames ring_frames desc_chunk w + k' = ring_frames xsk + k"
    using system_run_conserves [OF assms(2)] worker_new_inv [OF assms(1), of now trackers]
    by (simp_all add: worker_frames_def held_def worker_new_def)
  have "(\<forall>n. wk_pc w \<noteq> AtBatch n) \<longrightarrow> worker_step adopted_ops env inp w \<noteq> None"
    using adopted.worker_step_enabled [OF inv] by blast
  moreover have "wk_pc w = Exited \<longrightarrow> held w = wk_pending_fill w" by (simp add: held_def)
  ultimately show ?thesis using frames by (auto simp: worker_frames_def ac_simps)
qed

text \<open>
  C8. Every received packet is accounted for. At every point of every interleaving, the counters of a worker
  with the stores of its batch that are still to come balance against the received packets, except for the
  packets of a batch that it is still working on. So if every worker is between batches while the main loop
  reads, the snapshot balances: received packets are the sum of forwarded, unroutable, passed and answered
  ones, forwarded packets are the sum of the CID-routed, fallback and ICMP ones, and the CID-routed ones are
  the sum over the config ids; the same holds for the difference of two such snapshots.
\<close>

theorem every_packet_counted:
  assumes "\<forall>w \<in> set ws. \<exists>env xsk now trackers k k'. socket_ok xsk \<and>
      (system_step env)\<^sup>*\<^sup>* (worker_new adopted_ops xsk now trackers, k) (w, k')"
    and "snapshot_balanced prev"
  shows "(\<forall>w \<in> set ws. worker_balanced (settled_stats w) (unsettled w)) \<and>
    ((\<forall>w \<in> set ws. between_batches w) \<longrightarrow>
       snapshot_balanced (aggregate (map wk_stats ws)) \<and> snapshot_balanced (delta (aggregate (map wk_stats ws)) prev))"
proof (intro conjI impI ballI)
  show balanced: "worker_balanced (settled_stats w) (unsettled w)" if "w \<in> set ws" for w
  proof -
    from assms(1) that obtain env xsk now trackers k k' where run: "socket_ok xsk"
      "(system_step env)\<^sup>*\<^sup>* (worker_new adopted_ops xsk now trackers, k) (w, k')" by blast
    have "worker_inv socket_ok w"
      using conjunct1 [OF system_run_conserves [OF run(2)]] worker_new_inv [OF run(1), of now trackers] by simp
    then show ?thesis by (simp only: worker_inv_def)
  qed
  assume quiet: "\<forall>w \<in> set ws. between_batches w"
  have "worker_balanced (wk_stats w) 0" if "w \<in> set ws" for w
    using balanced [OF that] quiet that by (auto simp: between_batches_def settled_stats_def unsettled_def split: pc.splits)
  then show now: "snapshot_balanced (aggregate (map wk_stats ws))" by (intro aggregate_balanced) auto
  show "snapshot_balanced (delta (aggregate (map wk_stats ws)) prev)" by (rule delta_balanced [OF now assms(2)])
qed

text \<open>
  C3. The pipeline of one packet. For a well-formed table and connection table, a frame whose length fits
  its chunk and that is not an ICMP error with a truncated echo, the worker never panics; it either turned
  the frame into a Retry, or its verdict, the bytes of the frame and the connection table are exactly those
  of routing the received bytes.
\<close>

theorem packet_pipeline:
  assumes env: "env_ok aes_new (wi_config inp) conn (we_local_mac env)" "hmac_ok (we_hmac env)" "gcm_ok (we_seal env)"
    and frame: "frame_ok data" "contents data = Some frame"
      "\<And>p q flow. parse_frame frame = Some (Some p) \<Longrightarrow> pf_l4 p = Icmp q flow \<Longrightarrow> q \<le> length frame"
  shows "\<exists>a data' conn' stats' p'. frame_action env inp trackers data conn stats p = Some (a, data', conn', stats', p') \<and>
    frame_ok data' \<and> conn_ok conn' \<and>
    (a = ActionEmitted \<and> conn' = conn \<or>
     (\<exists>v frame'. a = ActionVerdict v \<and> contents data' = Some frame' \<and>
        process_packet (we_fx_hash env) frame (wi_config inp) conn (we_local_mac env) (wi_now inp) = Some (v, frame', conn')))"
proof -
  let ?route = "process_packet (we_fx_hash env) frame (wi_config inp) conn (we_local_mac env) (wi_now inp)"
  have ok: "conn_ok conn" "length (we_local_mac env) = 6" "\<forall>rt. ct_retry (wi_config inp) = Some rt \<longrightarrow> retry_wf rt"
    using env(1) by (simp_all add: env_ok_def mac_wf_def table_wf_def)
  obtain r where r: "parse_frame frame = Some r" using parse_frame_total by blast
  show ?thesis
  proof (cases r)
    case None
    with r frame ok(1) show ?thesis by (simp add: frame_action_def process_packet_def)
  next
    case (Some parsed)
    then have layout: "layout_ok frame parsed" using r parse_frame_layout by simp
    obtain outcome detail data1 p1 where t:
      "try_handle (we_hmac env) (we_seal env) trackers data parsed (wi_config inp) (we_local_mac env) (wi_now_ms inp) p =
         Some (outcome, detail, data1, p1)"
      "frame_ok data1" "outcome \<noteq> Emitted \<Longrightarrow> data1 = data"
      using try_handle_safe [OF env(2,3) ok(3,2) frame(1,2) layout] by metis
    have "?route \<noteq> None" unfolding process_packet_None_iff [OF env(1)] using frame(3) by (force simp: not_less [symmetric])
    then obtain v frame' conn' where route: "?route = Some (v, frame', conn')" by fastforce
    from routed_effect [OF env(1) route] have len: "conn_ok conn'" "length frame' = length frame"
      by (auto split: if_splits)
    from fv.store_same_length [OF frame(1,2) len(2)] obtain data2
      where store: "store_contents data frame' = Some data2" "frame_ok data2" "contents data2 = Some frame'" by blast
    have "process_packet_parsed (we_fx_hash env) frame parsed (wi_config inp) conn (we_local_mac env) (wi_now inp) = Some (v, frame', conn')"
      using route r Some by (simp add: process_packet_def)
    with r Some t frame(2) store len(1) ok(1) route show ?thesis
      by (cases outcome) (auto simp: frame_action_def Let_def)
  qed
qed

section \<open>Evaluated instances\<close>

text \<open>A packet memory of two frames, both in the fill ring.\<close>

definition empty_ring :: "'a \<Rightarrow> 'a ring" where
  "empty_ring x = \<lparr>rg_producer = 0, rg_consumer = 0, rg_descs = [x, x], rg_size = 2, rg_mask = 1\<rparr>"

definition two_frames :: adopted_socket where
  "two_frames = \<lparr>sk_umem = replicate 16 0, sk_chunk_size = 8, sk_rx = empty_ring zero_frame, sk_tx = empty_ring zero_frame,
     sk_fill = \<lparr>rg_producer = 2, rg_consumer = 0, rg_descs = [0, 8], rg_size = 2, rg_mask = 1\<rparr>, sk_comp = empty_ring 0\<rparr>"

lemma ring_ok_2:
  "rg_size r = 2 \<Longrightarrow> rg_mask r = 1 \<Longrightarrow> length (rg_descs r) = 2 \<Longrightarrow> unat (rg_producer r - rg_consumer r) \<le> 2 \<Longrightarrow> ring_ok r"
  unfolding ring_ok_def by (intro conjI exI [of _ 1]) (simp_all add: mask_eq_exp_minus_1)

lemma two_frames_ok: "socket_ok two_frames" "ring_frames two_frames = {#0, 1#}"
  by (simp add: socket_ok_def two_frames_def empty_ring_def ring_ok_2)
    (simp add: ring_frames_def two_frames_def empty_ring_def queued_def ring_index_def addr_chunk_def upt_rec)

text \<open>The worker passes the top of its loop, then the kernel takes a frame from the fill ring.\<close>

definition sample_env :: worker_env where
  "sample_env = \<lparr>we_hmac = sample_hmac, we_seal = sample_seal, we_fx_hash = \<lambda>_. 0, we_local_mac = sample_local_mac\<rparr>"

definition sample_input :: worker_input where
  "sample_input = \<lparr>wi_shutdown = False, wi_now = 0, wi_now_ms = 0, wi_readable = True, wi_config = sample_table 0\<rparr>"

definition started :: "(adopted_socket, xdp_desc) worker" where
  "started = worker_new adopted_ops two_frames 0 (\<lambda>_. tracker_new)"

definition after_two_steps :: "(adopted_socket, xdp_desc) worker" where
  "after_two_steps = started\<lparr>wk_pc := AtComplete,
     wk_xsk := two_frames\<lparr>sk_fill := \<lparr>rg_producer = 2, rg_consumer = 1, rg_descs = [0, 8], rg_size = 2, rg_mask = 1\<rparr>\<rparr>\<rparr>"

lemma two_steps: "(system_step sample_env)\<^sup>*\<^sup>* (started, {#}) (after_two_steps, {#0#})"
proof -
  have "system_step sample_env (started, {#}) (started\<lparr>wk_pc := AtComplete\<rparr>, {#})"
    by (rule by_worker [where inp = sample_input])
      (simp add: started_def worker_new_def worker_step_def sample_input_def phase_refill_def)
  moreover have "kernel_step (two_frames, {#}) (two_frames\<lparr>sk_fill := \<lparr>rg_producer = 2, rg_consumer = 1, rg_descs = [0, 8],
      rg_size = 2, rg_mask = 1\<rparr>\<rparr>, add_mset (addr_chunk two_frames 0) {#})"
    by (rule take_fill) (simp add: two_frames_def consume_def ring_index_def Let_def)
  then have "system_step sample_env (started\<lparr>wk_pc := AtComplete\<rparr>, {#}) (after_two_steps, {#0#})"
    using by_kernel [of "started\<lparr>wk_pc := AtComplete\<rparr>" "{#}" _ _ sample_env]
    by (fastforce simp: after_two_steps_def started_def worker_new_def addr_chunk_def)
  ultimately show ?thesis by (meson rtranclp.rtrancl_into_rtrancl rtranclp.rtrancl_refl)
qed

theorem frames_conserved_witness:
  "ring_frames (wk_xsk after_two_steps) + mset (map (desc_chunk (wk_xsk after_two_steps)) (held after_two_steps)) + {#0#} = {#0, 1#}"
  using frames_conserved [OF two_frames_ok(1) two_steps [unfolded started_def]] two_frames_ok(2) by simp

theorem every_packet_counted_witness: "snapshot_balanced (aggregate (map wk_stats [after_two_steps]))"
proof -
  have "snapshot_balanced snapshot_default"
    by (simp add: snapshot_balanced_def snapshot_default_def cid_unroutable_def sum_list_replicate)
  moreover have "\<exists>env xsk now trackers k k'. socket_ok xsk \<and>
      (system_step env)\<^sup>*\<^sup>* (worker_new adopted_ops xsk now trackers, k) (after_two_steps, k')"
    using two_steps two_frames_ok(1) unfolding started_def by blast
  moreover have "between_batches after_two_steps" by (simp add: between_batches_def after_two_steps_def)
  ultimately show ?thesis using every_packet_counted [of "[after_two_steps]" snapshot_default] by auto
qed

text \<open>A frame in a slightly larger chunk, routed by the live table.\<close>

definition routed_frame :: bytes where
  "routed_frame = sample_udp_frame (sample_quic 0x40)"

definition routed_data :: adopted_frame where
  "routed_data = \<lparr>fr_buf = routed_frame @ [0, 0], fr_len = of_nat (length routed_frame)\<rparr>"

theorem packet_pipeline_witness:
  "\<exists>a data' conn' stats' p'. frame_action sample_env (sample_input\<lparr>wi_config := live_table\<rparr>) (\<lambda>_. tracker_new) routed_data (conn_new 0)
     batch_stats_new 0 = Some (a, data', conn', stats', p') \<and> frame_ok data' \<and> conn_ok conn'"
proof -
  have len: "length routed_frame < 100"
    by (simp add: routed_frame_def sample_udp_frame_def sample_eth_def sample_ipv4_def sample_quic_def)
  then have fit: "unat (of_nat (length routed_frame) :: u32) = length routed_frame" by (intro unat_of_nat_u32) simp
  have "frame_ok routed_data" "contents routed_data = Some routed_frame"
    using len by (simp_all add: frame_ok_def contents_def routed_data_def fit)
  moreover have "env_ok xor_cipher live_table (conn_new 0) sample_local_mac" by (rule live_env)
  ultimately show ?thesis
    using packet_pipeline [of xor_cipher "sample_input\<lparr>wi_config := live_table\<rparr>" "conn_new 0" sample_env routed_data
        routed_frame "\<lambda>_. tracker_new" batch_stats_new 0] sample_hmac_ok sample_seal_ok parse_frame_sample_udp
    by (fastforce simp: sample_env_def sample_input_def routed_frame_def)
qed

end
