(* ===== verification/Xdp_Filter.thy ===== *)
theory Xdp_Filter
  imports Packet
begin

text \<open>
  The XDP program of \<open>pesigitg-ebpf/src/main.rs\<close>, which decides in the kernel which frames the daemon gets
  to see. Its functions return \<open>Result<_, ()>\<close>; here \<open>None\<close> is the error, which the program answers with
  \<open>XDP_ABORTED\<close>. The eBPF maps are arguments: the monitored ports, and the redirect through the socket map,
  whose failure is \<open>None\<close>.
\<close>

section \<open>Operations\<close>

text \<open>\<open>*ptr_at::<u8>\<close> and \<open>u16::from_be(*ptr_at::<u16>)\<close>.\<close>

definition ptr_at :: "bytes \<Rightarrow> nat \<Rightarrow> nat \<Rightarrow> bytes option" where
  "ptr_at ctx offset len = (if offset + len > length ctx then None else Some (take len (drop offset ctx)))"

definition read_u8 :: "bytes \<Rightarrow> nat \<Rightarrow> u8 option" where
  "read_u8 ctx offset = map_option hd (ptr_at ctx offset 1)"

definition read_be16 :: "bytes \<Rightarrow> nat \<Rightarrow> u16 option" where
  "read_be16 ctx offset = map_option from_be (ptr_at ctx offset 2)"

definition xdp_parse_ipv4 :: "bytes \<Rightarrow> u16 option option" where
  "xdp_parse_ipv4 ctx = do {
     iph_byte0 \<leftarrow> read_u8 ctx ETH_HDR_LEN;
     let ihl = unat (iph_byte0 AND 0x0F) * 4;
     if ihl < IPV4_MIN_HDR_LEN then None
     else do {
       protocol \<leftarrow> read_u8 ctx (ETH_HDR_LEN + 9);
       if protocol = IPPROTO_UDP then do {
         let udp_offset = ETH_HDR_LEN + ihl;
         dst_port \<leftarrow> read_be16 ctx (udp_offset + 2);
         Some (Some dst_port)
       }
       else if protocol = IPPROTO_ICMP then do {
         let icmp_offset = ETH_HDR_LEN + ihl;
         icmp_type \<leftarrow> read_u8 ctx icmp_offset;
         if icmp_type \<noteq> ICMP_DEST_UNREACH \<and> icmp_type \<noteq> ICMP_TIME_EXCEEDED then Some None
         else do {
           let inner_ip_offset = icmp_offset + ICMP_HDR_LEN;
           inner_byte0 \<leftarrow> read_u8 ctx inner_ip_offset;
           let inner_ihl = unat (inner_byte0 AND 0x0F) * 4;
           if inner_ihl < IPV4_MIN_HDR_LEN then Some None
           else do {
             inner_proto \<leftarrow> read_u8 ctx (inner_ip_offset + 9);
             if inner_proto \<noteq> IPPROTO_UDP then Some None
             else do {
               let inner_udp_offset = inner_ip_offset + inner_ihl;
               src_port \<leftarrow> read_be16 ctx inner_udp_offset;
               Some (Some src_port)
             }
           }
         }
       }
       else Some None
     }
   }"

text \<open>The two extension header loops, with at most \<open>n\<close> more iterations; \<open>stop\<close> is where a loop breaks.\<close>

fun xdp_walk :: "(u8 \<Rightarrow> bool) \<Rightarrow> bytes \<Rightarrow> nat \<Rightarrow> u8 \<Rightarrow> nat \<Rightarrow> (u8 \<times> nat) option option" where
  "xdp_walk stop ctx 0 next_hdr offset = Some (Some (next_hdr, offset))"
| "xdp_walk stop ctx (Suc n) next_hdr offset =
     (if stop next_hdr then Some (Some (next_hdr, offset))
      else if next_hdr = IPPROTO_FRAGMENT then do {
        nh \<leftarrow> read_u8 ctx offset;
        xdp_walk stop ctx n nh (offset + 8)
      }
      else if next_hdr = IPPROTO_HOPOPTS \<or> next_hdr = IPPROTO_ROUTING \<or> next_hdr = IPPROTO_DSTOPTS then do {
        nh \<leftarrow> read_u8 ctx offset;
        len \<leftarrow> read_u8 ctx (offset + 1);
        let ext_len = unat len AND 0x1F;
        xdp_walk stop ctx n nh (offset + (ext_len + 1) * 8)
      }
      else Some None)"

definition xdp_parse_ipv6 :: "bytes \<Rightarrow> u16 option option" where
  "xdp_parse_ipv6 ctx = do {
     next_hdr \<leftarrow> read_u8 ctx (ETH_HDR_LEN + 6);
     opt_bind
       (xdp_walk (\<lambda>p. p = IPPROTO_UDP \<or> p = IPPROTO_ICMPV6) ctx MAX_IPV6_EXT_HDRS next_hdr (ETH_HDR_LEN + IPV6_HDR_LEN))
       (\<lambda>(next_hdr, offset).
          if next_hdr = IPPROTO_UDP then do {
            dst_port \<leftarrow> read_be16 ctx (offset + 2);
            Some (Some dst_port)
          }
          else if next_hdr = IPPROTO_ICMPV6 then do {
            icmp_type \<leftarrow> read_u8 ctx offset;
            if icmp_type \<noteq> ICMPV6_DEST_UNREACH \<and> icmp_type \<noteq> ICMPV6_PACKET_TOO_BIG \<and>
               icmp_type \<noteq> ICMPV6_TIME_EXCEEDED then Some None
            else do {
              let inner_ip_offset = offset + ICMP_HDR_LEN;
              inner_next_hdr \<leftarrow> read_u8 ctx (inner_ip_offset + 6);
              opt_bind
                (xdp_walk (\<lambda>p. p = IPPROTO_UDP) ctx MAX_IPV6_EXT_HDRS inner_next_hdr (inner_ip_offset + IPV6_HDR_LEN))
                (\<lambda>(inner_next_hdr, inner_offset).
                   if inner_next_hdr \<noteq> IPPROTO_UDP then Some None
                   else do {
                     src_port \<leftarrow> read_be16 ctx inner_offset;
                     Some (Some src_port)
                   })
            }
          }
          else Some None)
   }"

datatype xdp_action = XDP_ABORTED | XDP_PASS | XDP_REDIRECT

definition try_pesigitg :: "(u16 \<Rightarrow> bool) \<Rightarrow> (u32 \<Rightarrow> xdp_action option) \<Rightarrow> u32 \<Rightarrow> bytes \<Rightarrow> xdp_action option" where
  "try_pesigitg PORTS redirect rx_queue_index ctx = do {
     eth_proto \<leftarrow> read_be16 ctx 12;
     port \<leftarrow> (if eth_proto = ETH_P_IP then xdp_parse_ipv4 ctx
              else if eth_proto = ETH_P_IPV6 then xdp_parse_ipv6 ctx
              else Some None);
     case port of
       None \<Rightarrow> Some XDP_PASS
     | Some dst_port \<Rightarrow> if \<not> PORTS dst_port then Some XDP_PASS else redirect rx_queue_index
   }"

definition pesigitg :: "(u16 \<Rightarrow> bool) \<Rightarrow> (u32 \<Rightarrow> xdp_action option) \<Rightarrow> u32 \<Rightarrow> bytes \<Rightarrow> xdp_action" where
  "pesigitg PORTS redirect rx_queue_index ctx =
     (case try_pesigitg PORTS redirect rx_queue_index ctx of Some action \<Rightarrow> action | None \<Rightarrow> XDP_ABORTED)"

section \<open>Agreement with the daemon's parser\<close>

text \<open>
  The filter masks the length of an extension header to five bits, the daemon does not. \<open>short_hdrs\<close> says
  that no header on the way is longer than that.
\<close>

fun short_hdrs :: "(u8 \<Rightarrow> bool) \<Rightarrow> bytes \<Rightarrow> nat \<Rightarrow> u8 \<Rightarrow> nat \<Rightarrow> bool" where
  "short_hdrs stop frame 0 next_hdr offset = True"
| "short_hdrs stop frame (Suc n) next_hdr offset =
     (if stop next_hdr then True
      else if next_hdr = IPPROTO_FRAGMENT then short_hdrs stop frame n (frame ! offset) (offset + 8)
      else if next_hdr = IPPROTO_HOPOPTS \<or> next_hdr = IPPROTO_ROUTING \<or> next_hdr = IPPROTO_DSTOPTS then
        frame ! (offset + 1) < 32 \<and>
        short_hdrs stop frame n (frame ! offset) (offset + (unat (frame ! (offset + 1)) + 1) * 8)
      else True)"

definition headers_short :: "bytes \<Rightarrow> bool" where
  "headers_short frame \<longleftrightarrow>
     be16 (frame ! 12) (frame ! 13) = ETH_P_IPV6 \<longrightarrow>
     short_hdrs (\<lambda>p. p = IPPROTO_UDP \<or> p = IPPROTO_ICMPV6) frame MAX_IPV6_EXT_HDRS (frame ! 20) 54 \<and>
     (\<forall>offset. walk_ext_hdrs (\<lambda>p. p = IPPROTO_UDP \<or> p = IPPROTO_ICMPV6) frame MAX_IPV6_EXT_HDRS (frame ! 20) 54 =
         Some (Some (IPPROTO_ICMPV6, offset)) \<longrightarrow>
       short_hdrs (\<lambda>p. p = IPPROTO_UDP) frame MAX_IPV6_EXT_HDRS (frame ! (offset + 14)) (offset + 48))"

text \<open>The port by which the daemon sees a frame: where it goes, or where the packet of an ICMP error came from.\<close>

definition service_port :: "parsed_frame \<Rightarrow> u16" where
  "service_port p = (case pf_l4 p of Udp _ _ _ dst_port \<Rightarrow> dst_port | Icmp _ flow \<Rightarrow> fk_dst_port flow)"

lemma read_u8_in [simp]: "offset < length ctx \<Longrightarrow> read_u8 ctx offset = Some (ctx ! offset)"
  by (simp add: read_u8_def ptr_at_def hd_drop_conv_nth take_Suc_conv_app_nth hd_append)

lemma read_be16_in: "offset + 1 < length ctx \<Longrightarrow> read_be16 ctx offset = Some (be16 (ctx ! offset) (ctx ! (offset + 1)))"
proof -
  assume "offset + 1 < length ctx"
  then have "take 2 (drop offset ctx) = [ctx ! offset, ctx ! (offset + 1)]"
    by (simp add: numeral_2_eq_2 take_Suc_conv_app_nth)
  with \<open>offset + 1 < length ctx\<close> show ?thesis by (simp add: read_be16_def ptr_at_def be16_def)
qed

lemma be16_at_read: "be16_at frame i = Some w \<Longrightarrow> read_be16 frame i = Some w"
  by (auto simp: be16_at_def read_be16_in)

lemma mask_small: "b < 32 \<Longrightarrow> unat (b :: byte) AND 0x1F = unat b"
proof -
  assume "b < 32"
  then have "unat b < 2 ^ 5" by (simp add: word_less_nat_alt)
  moreover have "(0x1F :: nat) = mask 5" by (simp add: mask_eq_exp_minus_1)
  ultimately show ?thesis by (simp only: take_bit_eq_mask [symmetric] take_bit_nat_eq_self)
qed

lemma xdp_walk_agrees:
  assumes "walk_ext_hdrs stop frame n next_hdr offset = Some (Some r)" "short_hdrs stop frame n next_hdr offset"
  shows "xdp_walk stop frame n next_hdr offset = Some (Some r)"
  using assms
proof (induction n arbitrary: next_hdr offset)
  case (Suc n)
  then show ?case by (auto simp: mask_small Let_def split: if_splits)
qed simp

lemma icmp_ipv4_parts:
  assumes "parse_frame_icmp_ipv4 frame m n s d = Some (Some p)"
  shows "14 + n + 8 + 20 \<le> length frame"
    and "frame ! (14 + n) = ICMP_DEST_UNREACH \<or> frame ! (14 + n) = ICMP_TIME_EXCEEDED"
    and "20 \<le> unat (frame ! (14 + n + 8) AND 0xF) * 4" and "frame ! (14 + n + 8 + 9) = IPPROTO_UDP"
    and "be16_at frame (14 + n + 8 + unat (frame ! (14 + n + 8) AND 0xF) * 4) = Some (service_port p)"
  using assms unfolding parse_frame_icmp_ipv4_def Let_def
  by (auto simp: service_port_def add.assoc split: if_split_asm)

lemma xdp_ipv4_agrees:
  assumes "parse_frame_ipv4 frame m = Some (Some p)"
  shows "xdp_parse_ipv4 frame = Some (Some (service_port p))"
proof -
  define ihl where "ihl = unat (frame ! 14 AND 0xF) * 4"
  have len: "34 \<le> length frame" using assms by (auto simp: parse_frame_ipv4_def split: if_split_asm)
  then have ihl: "20 \<le> ihl" using assms by (auto simp: parse_frame_ipv4_def ihl_def Let_def split: if_split_asm)
  then have ihl5: "5 \<le> unat (frame ! 14 AND 0xF)" by (simp add: ihl_def)
  show ?thesis
  proof (cases "frame ! 23 = IPPROTO_UDP")
    case True
    then have "be16_at frame (14 + ihl + 2) = Some (service_port p)"
      using assms len ihl
      by (auto simp: parse_frame_ipv4_def service_port_def Let_def ihl_def [symmetric] split: if_split_asm)
    then have "read_be16 frame (14 + ihl + 2) = Some (service_port p)" by (rule be16_at_read)
    with True len ihl5 show ?thesis by (simp add: xdp_parse_ipv4_def Let_def ihl_def [symmetric] not_less [symmetric])
  next
    case False
    then obtain s d where icmp: "parse_frame_icmp_ipv4 frame m ihl s d = Some (Some p)" "frame ! 23 = IPPROTO_ICMP"
      using assms len ihl by (auto simp: parse_frame_ipv4_def Let_def ihl_def [symmetric] split: if_split_asm)
    note parts = icmp_ipv4_parts [OF icmp(1)]
    define k where "k = unat (frame ! (14 + ihl + 8) AND 0xF) * 4"
    have "read_be16 frame (14 + ihl + 8 + k) = Some (service_port p)"
      using parts(5) unfolding k_def by (rule be16_at_read)
    moreover have "5 \<le> unat (frame ! (14 + ihl + 8) AND 0xF)" using parts(3) by simp
    ultimately show ?thesis
      using icmp(2) False parts(1,2,4) len ihl5
      by (auto simp: xdp_parse_ipv4_def Let_def ihl_def [symmetric] k_def)
  qed
qed

lemma xdp_ipv6_agrees:
  assumes "parse_frame_ipv6 frame m = Some (Some p)" "headers_short frame" "be16 (frame ! 12) (frame ! 13) = ETH_P_IPV6"
  shows "xdp_parse_ipv6 frame = Some (Some (service_port p))"
proof -
  let ?outer = "\<lambda>p. p = IPPROTO_UDP \<or> p = IPPROTO_ICMPV6"
  have len: "54 \<le> length frame" using assms(1) by (auto simp: parse_frame_ipv6_def split: if_splits)
  from assms(1) obtain nh offset where walk: "walk_ext_hdrs ?outer frame 6 (frame ! 20) 54 = Some (Some (nh, offset))"
    by (auto simp: parse_frame_ipv6_def split: if_splits)
  then have xwalk: "xdp_walk ?outer frame 6 (frame ! 20) 54 = Some (Some (nh, offset))"
    using assms(2,3) by (intro xdp_walk_agrees) (simp_all add: headers_short_def)
  show ?thesis
  proof (cases "nh = IPPROTO_ICMPV6")
    case False
    with assms(1) walk xwalk len show ?thesis
      by (auto simp: parse_frame_ipv6_def xdp_parse_ipv6_def service_port_def Let_def read_be16_in split: if_splits)
  next
    case True
    with assms(1) walk len obtain s d where icmp: "parse_frame_icmpv6 frame m (offset - 14) s d offset = Some (Some p)"
      by (auto simp: parse_frame_ipv6_def Let_def split: if_splits)
    have ilen: "offset + 48 \<le> length frame" using icmp by (auto simp: parse_frame_icmpv6_def Let_def split: if_splits)
    from icmp obtain inh ioff where iwalk:
      "walk_ext_hdrs (\<lambda>p. p = IPPROTO_UDP) frame 6 (frame ! (offset + 14)) (offset + 48) = Some (Some (inh, ioff))"
      by (auto simp: parse_frame_icmpv6_def Let_def add.assoc split: if_splits)
    then have "xdp_walk (\<lambda>p. p = IPPROTO_UDP) frame 6 (frame ! (offset + 14)) (offset + 48) = Some (Some (inh, ioff))"
      using assms(2,3) walk True by (intro xdp_walk_agrees) (simp_all add: headers_short_def)
    with icmp iwalk ilen xwalk True len show ?thesis
      by (auto simp: parse_frame_icmpv6_def xdp_parse_ipv6_def service_port_def Let_def add.assoc read_be16_in split: if_splits)
  qed
qed

lemma filter_agrees:
  assumes "parse_frame frame = Some (Some p)" "headers_short frame" "redirect queue = Some XDP_REDIRECT"
  shows "pesigitg PORTS redirect queue frame = (if PORTS (service_port p) then XDP_REDIRECT else XDP_PASS)"
proof -
  have len: "14 \<le> length frame" and proto: "read_be16 frame 12 = Some (be16 (frame ! 12) (frame ! 13))"
    using assms(1) by (auto simp: parse_frame_def read_be16_in split: if_splits)
  have "be16_at frame 12 = Some (be16 (frame ! 12) (frame ! 13))" using len by (simp add: be16_at_def)
  with assms(1) len have "be16 (frame ! 12) (frame ! 13) = ETH_P_IP \<and> xdp_parse_ipv4 frame = Some (Some (service_port p)) \<or>
      be16 (frame ! 12) (frame ! 13) = ETH_P_IPV6 \<and> xdp_parse_ipv6 frame = Some (Some (service_port p))"
    using xdp_ipv4_agrees xdp_ipv6_agrees [OF _ assms(2)] by (auto simp: parse_frame_def split: if_splits)
  with proto assms(3) show ?thesis by (auto simp: pesigitg_def try_pesigitg_def)
qed

text \<open>
  C13. The kernel filter and the daemon agree on which service a frame belongs to. If the daemon parses a
  frame, and no IPv6 extension header on the way is longer than 256 bytes, the filter finds the same port:
  the destination of a UDP packet, or the source of the packet echoed in an ICMP error. So the frame
  reaches the socket of its queue exactly if this port is monitored, and is passed to the kernel otherwise.
\<close>

theorem xdp_filter_agrees:
  assumes "parse_frame frame = Some (Some p)" "headers_short frame" "redirect queue = Some XDP_REDIRECT"
  shows "pesigitg PORTS redirect queue frame = (if PORTS (service_port p) then XDP_REDIRECT else XDP_PASS)"
  using assms by (rule filter_agrees)

text \<open>A UDP packet to port 443 is for the socket if this port is monitored, and not if only another one is.\<close>

lemma sample_udp_short: "headers_short (sample_udp_frame quic)"
  by (simp add: headers_short_def sample_udp_frame_def sample_eth_def be16_def from_be_def)

theorem xdp_filter_agrees_witness:
  "pesigitg (\<lambda>port. port = 443) (\<lambda>_. Some XDP_REDIRECT) 0 (sample_udp_frame [1]) = XDP_REDIRECT \<and>
   pesigitg (\<lambda>port. port = 8443) (\<lambda>_. Some XDP_REDIRECT) 0 (sample_udp_frame [1]) = XDP_PASS"
  using xdp_filter_agrees [OF parse_frame_sample_udp [of "[1]"] sample_udp_short, of "\<lambda>_. Some XDP_REDIRECT" 0]
  by (simp add: service_port_def)

end
