(* ===== verification/Rust_Text.thy ===== *)
theory Rust_Text
  imports Common
begin

text \<open>
  The parts of the Rust standard library that the daemon uses on text and paths beyond those of \<open>Common\<close>:
  decimal output, \<open>str::lines\<close>, \<open>split_once\<close>, \<open>strip_prefix\<close> and \<open>strip_suffix\<close>, and \<open>Path::parent\<close> and
  \<open>Path::join\<close> on Unix paths. A string is the list of its UTF-8 bytes.
\<close>

section \<open>Operations\<close>

fun dec :: "nat \<Rightarrow> string" where
  "dec n = (if n < 10 then [char_of (48 + n)] else dec (n div 10) @ [char_of (48 + n mod 10)])"

declare dec.simps [simp del]

text \<open>\<open>{:?}\<close> of a vector of integers.\<close>

definition debug_list :: "string list \<Rightarrow> string" where
  "debug_list xs = ''['' @ join '', '' xs @ '']''"

fun split_once :: "char \<Rightarrow> string \<Rightarrow> (string \<times> string) option" where
  "split_once c [] = None"
| "split_once c (x # xs) =
     (if x = c then Some ([], xs) else map_option (\<lambda>(a, b). (x # a, b)) (split_once c xs))"

definition strip_prefix :: "string \<Rightarrow> string \<Rightarrow> string option" where
  "strip_prefix p s = (if prefix p s then Some (drop (length p) s) else None)"

definition strip_suffix :: "string \<Rightarrow> string \<Rightarrow> string option" where
  "strip_suffix p s = (if suffix p s then Some (take (length s - length p) s) else None)"

text \<open>A line ends with a newline, before which one carriage return is dropped; the last line may have none.\<close>

definition newline :: char where "newline = char_of (10 :: nat)"
definition carriage_return :: char where "carriage_return = char_of (13 :: nat)"

definition lines :: "string \<Rightarrow> string list" where
  "lines s =
     (let parts = split_on newline s;
          chop = (\<lambda>l. case strip_suffix [carriage_return] l of Some l' \<Rightarrow> l' | None \<Rightarrow> l)
      in map chop (butlast parts) @ (if last parts = [] then [] else [last parts]))"

text \<open>
  \<open>Path::parent\<close> drops the last component and the separators and dots in front of it. The body of a path
  begins behind its root or its leading dot; the root and the empty path have no parent.
\<close>

definition is_relative :: "string \<Rightarrow> bool" where
  "is_relative p \<longleftrightarrow> \<not> prefix ''/'' p"

definition before_body :: "string \<Rightarrow> nat" where
  "before_body p = (if prefix ''/'' p \<or> p = ''.'' \<or> prefix ''./'' p then 1 else 0)"

definition last_component :: "string \<Rightarrow> string" where
  "last_component p = rev (takeWhile (\<lambda>c. c \<noteq> CHR ''/'') (rev (drop (before_body p) p)))"

definition drop_component :: "string \<Rightarrow> string" where
  "drop_component p =
     (let extra = (if CHR ''/'' \<in> set (drop (before_body p) p) then 1 else 0)
      in take (length p - (length (last_component p) + extra)) p)"

definition empty_component :: "string \<Rightarrow> bool" where
  "empty_component c \<longleftrightarrow> c = [] \<or> c = ''.''"

function trim_right :: "string \<Rightarrow> string" where
  "trim_right p =
     (if length p > before_body p \<and> empty_component (last_component p) then trim_right (drop_component p) else p)"
  by pat_completeness auto

termination
proof (relation "measure length")
  fix p assume p: "length p > before_body p \<and> empty_component (last_component p)"
  have "last_component p \<noteq> [] \<or> CHR ''/'' \<in> set (drop (before_body p) p)"
  proof (cases "last (drop (before_body p) p) = CHR ''/''")
    case True
    with p show ?thesis by (metis last_in_set drop_eq_Nil not_le)
  next
    case False
    with p show ?thesis by (simp add: last_component_def takeWhile_eq_Nil_iff hd_rev)
  qed
  moreover have "0 < length p" using p by linarith
  ultimately show "(drop_component p, p) \<in> measure length"
    by (auto simp: drop_component_def Let_def intro!: diff_less)
qed simp

declare trim_right.simps [simp del]

definition path_parent :: "string \<Rightarrow> string option" where
  "path_parent p =
     (let q = trim_right p
      in if length q > before_body q then Some (trim_right (drop_component q))
         else if q = ''.'' then Some [] else None)"

definition path_join :: "string \<Rightarrow> string \<Rightarrow> string" where
  "path_join base p =
     (if \<not> is_relative p then p
      else if base = [] \<or> last base = CHR ''/'' then base @ p
      else base @ ''/'' @ p)"

section \<open>Numbers in decimal\<close>

definition digit :: "char \<Rightarrow> bool" where
  "digit c \<longleftrightarrow> (of_char c :: nat) \<in> {48..57}"

lemma to_digit_dec: "d < 10 \<Longrightarrow> to_digit 10 (char_of (48 + d)) = Some d"
  by (simp add: to_digit_def Let_def)

lemma dec_nonempty [simp]: "dec n \<noteq> []"
  by (subst dec.simps) simp

lemma dec_digits: "c \<in> set (dec n) \<Longrightarrow> digit c"
proof (induction n rule: dec.induct)
  case (1 n)
  have "n mod 10 < 10" by simp
  then have "(of_char (char_of (48 + n mod 10) :: char) :: nat) = 48 + n mod 10" by simp
  with 1 show ?case
    by (subst (asm) dec.simps) (auto simp: digit_def split: if_splits)
qed

lemma parse_digits_append:
  "parse_digits radix acc (a @ b) = Option.bind (parse_digits radix acc a) (\<lambda>v. parse_digits radix v b)"
  by (induction a arbitrary: acc) (auto split: option.splits)

lemma parse_digits_dec: "parse_digits 10 0 (dec n) = Some n"
proof (induction n rule: dec.induct)
  case (1 n)
  show ?case
  proof (cases "n < 10")
    case True
    then show ?thesis by (subst dec.simps) (simp add: to_digit_dec)
  next
    case False
    then show ?thesis
      by (subst dec.simps) (simp add: parse_digits_append 1 to_digit_dec)
  qed
qed

text \<open>Parsing the decimal form of a number gives it back exactly if it fits.\<close>

lemma from_str_radix_dec: "from_str_radix bits 10 (dec n) = (if n < 2 ^ bits then Some n else None)"
proof -
  obtain c cs where d: "dec n = c # cs" by (cases "dec n") auto
  then have "digit c" using dec_digits [of c n] by simp
  then have "c \<noteq> CHR ''+''" by (auto simp: digit_def)
  with d show ?thesis using parse_digits_dec [of n] by (simp add: from_str_radix_def)
qed

lemma dec_inject [simp]: "dec m = dec n \<longleftrightarrow> m = n"
  by (metis parse_digits_dec option.inject)

section \<open>Trimming and splitting\<close>

text \<open>ASCII characters that are visible; none of them begins or ends a white space character.\<close>

definition graphic :: "char \<Rightarrow> bool" where
  "graphic c \<longleftrightarrow> (of_char c :: nat) \<in> {33..126}"

lemma whitespace_not_graphic:
  assumes "w \<in> set whitespace"
  shows "\<not> graphic (hd w)" "\<not> graphic (last w)"
proof -
  have "list_all (\<lambda>w. \<not> graphic (hd w) \<and> \<not> graphic (last w)) whitespace"
    by (simp add: whitespace_def upt_rec graphic_def)
  with assms show "\<not> graphic (hd w)" "\<not> graphic (last w)" by (auto simp: list_all_iff)
qed

text \<open>Text that begins and ends visibly.\<close>

definition tidy :: "string \<Rightarrow> bool" where
  "tidy s \<longleftrightarrow> s \<noteq> [] \<and> graphic (hd s) \<and> graphic (last s)"

lemma strip_all_tidy: "tidy s \<Longrightarrow> strip_all whitespace s = s"
  by (rule strip_all_stop) (metis tidy_def whitespace_not_graphic(1) not_prefix_hd)

lemma strip_all_rev_tidy: "tidy s \<Longrightarrow> strip_all (map rev whitespace) (rev s) = rev s"
proof (rule strip_all_stop)
  fix w assume s: "tidy s" and w: "w \<in> set (map rev whitespace)" "w \<noteq> []"
  then obtain v where "v \<in> set whitespace" "w = rev v" by auto
  with s w show "\<not> prefix w (rev s)"
    by (metis tidy_def whitespace_not_graphic(2) not_prefix_hd hd_rev rev_is_Nil_conv)
qed

lemma strip_all_one:
  assumes "\<And>w. w \<in> set ws \<Longrightarrow> w \<noteq> [] \<Longrightarrow> hd w = c \<Longrightarrow> w = [c]" "[c] \<in> set ws"
  shows "strip_all ws (c # s) = strip_all ws s"
proof -
  obtain w where w: "find (\<lambda>w. w \<noteq> [] \<and> prefix w (c # s)) ws = Some w"
    using assms(2) by (cases "find (\<lambda>w. w \<noteq> [] \<and> prefix w (c # s)) ws") (auto simp: find_None_iff)
  then have "w \<in> set ws" "w \<noteq> []" "prefix w (c # s)" by (auto simp: find_Some_iff)
  moreover from this(2,3) have "hd w = c" by (cases w) auto
  ultimately have "w = [c]" by (intro assms(1))
  with w have "strip_one ws (c # s) = Some s" by (simp add: strip_one_def)
  then show ?thesis by (subst strip_all.simps) simp
qed

lemma space_alone:
  "list_all (\<lambda>w. (hd w = CHR '' '' \<or> last w = CHR '' '') \<longrightarrow> w = '' '') whitespace" "'' '' \<in> set whitespace"
proof -
  have "char_of (32 :: nat) = CHR '' ''" by (simp add: char_of_eq_iff)
  then show "'' '' \<in> set whitespace" by (simp add: whitespace_def)
qed (simp add: whitespace_def upt_rec char_of_eq_iff)

lemma strip_all_space: "strip_all whitespace (CHR '' '' # s) = strip_all whitespace s"
  using space_alone(1) by (intro strip_all_one space_alone(2)) (simp add: list_all_iff)

lemma strip_all_rev_space: "strip_all (map rev whitespace) (CHR '' '' # s) = strip_all (map rev whitespace) s"
proof (rule strip_all_one)
  fix w assume w: "w \<in> set (map rev whitespace)" "w \<noteq> []" "hd w = CHR '' ''"
  then obtain v where "v \<in> set whitespace" "w = rev v" by auto
  with w space_alone(1) show "w = '' ''" by (auto simp: list_all_iff hd_rev)
next
  show "'' '' \<in> set (map rev whitespace)" using imageI [OF space_alone(2), of rev] by simp
qed

lemma trim_tidy [simp]:
  assumes "tidy s"
  shows "trim s = s" "trim (CHR '' '' # s) = s" "trim (s @ '' '') = s"
proof -
  show "trim s = s" "trim (CHR '' '' # s) = s"
    using strip_all_rev_tidy [OF assms] by (simp_all add: trim_def strip_all_space strip_all_tidy assms)
  have "strip_all whitespace (s @ '' '') = s @ '' ''"
    using assms by (intro strip_all_stop not_prefix_hd) (auto simp: tidy_def dest: whitespace_not_graphic(1))
  then show "trim (s @ '' '') = s"
    using strip_all_rev_tidy [OF assms] by (simp add: trim_def strip_all_rev_space)
qed

lemma tidy_dec [simp]: "tidy (dec n)"
  using dec_digits [OF hd_in_set [OF dec_nonempty [of n]]] dec_digits [OF last_in_set [OF dec_nonempty [of n]]]
  by (auto simp: tidy_def digit_def graphic_def)

lemma split_once_app: "c \<notin> set a \<Longrightarrow> split_once c (a @ c # b) = Some (a, b)"
  by (induction a) auto

lemma split_once_None: "c \<notin> set s \<Longrightarrow> split_once c s = None"
  by (induction s) auto

lemma strip_prefix_app [simp]: "strip_prefix p (p @ s) = Some s"
  by (simp add: strip_prefix_def)

lemma strip_suffix_app [simp]: "strip_suffix p (s @ p) = Some s"
  by (simp add: strip_suffix_def suffix_def)

lemma split_on_nonempty: "split_on c s \<noteq> []"
  by (induction s) (auto split: list.splits)

lemma lines_Nil [simp]: "lines [] = []"
  by (simp add: lines_def)

lemma lines_Cons:
  assumes "newline \<notin> set l" "l = [] \<or> last l \<noteq> carriage_return"
  shows "lines (l @ newline # s) = l # lines s"
proof -
  have "strip_suffix [carriage_return] l = None"
    using assms(2) by (auto simp: strip_suffix_def suffix_def)
  then show ?thesis
    using split_on_nonempty [of newline s] by (simp add: lines_def Let_def split_on_app assms(1))
qed

end
