(* ===== verification/Threads.thy ===== *)
theory Threads
  imports Rust_Text
begin

text \<open>
  The plan of the worker threads of \<open>pesigitg-daemon/src/threading.rs\<close>: how many workers there are, and on
  which CPU core each is pinned. What sysfs says about the machine is an argument: the node directories
  with their CPU lists, and the CPU directories with their lists of thread siblings, each \<open>None\<close> if it
  cannot be read. A CPU id is a \<open>usize\<close>, a node id an \<open>i32\<close>; both stay below their bounds here, so they are
  natural numbers and integers.
\<close>

section \<open>CPU lists\<close>

text \<open>\<open>str::parse::<usize>\<close> on a 64-bit machine, and \<open>parse::<i32>\<close>, which also accepts a minus sign.\<close>

definition parse_usize :: "string \<Rightarrow> nat option" where
  "parse_usize s = from_str_radix 64 10 s"

definition parse_i32 :: "string \<Rightarrow> int option" where
  "parse_i32 s =
     (if s \<noteq> [] \<and> hd s = CHR ''-'' then
        (case parse_digits 10 0 (tl s) of
           Some n \<Rightarrow> if tl s \<noteq> [] \<and> n \<le> 2 ^ 31 then Some (- int n) else None
         | None \<Rightarrow> None)
      else map_option int (from_str_radix 31 10 s))"

definition parse_cpu_part :: "string \<Rightarrow> nat list" where
  "parse_cpu_part part =
     (let part = trim part in
      if part = [] then []
      else case split_once (CHR ''-'') part of
        Some (lo, hi) \<Rightarrow>
          (case (parse_usize lo, parse_usize hi) of (Some lo, Some hi) \<Rightarrow> [lo..<Suc hi] | _ \<Rightarrow> [])
      | None \<Rightarrow> (case parse_usize part of Some cpu \<Rightarrow> [cpu] | None \<Rightarrow> []))"

definition parse_cpulist :: "string \<Rightarrow> nat list" where
  "parse_cpulist s = concat (map parse_cpu_part (split_on (CHR '','') s))"

definition build_cpu_numa_map :: "(int \<times> string) list \<Rightarrow> nat \<rightharpoonup> int" where
  "build_cpu_numa_map entries =
     foldl (\<lambda>m (node, cpulist). foldl (\<lambda>m cpu. m(cpu \<mapsto> node)) m (parse_cpulist cpulist)) Map.empty entries"

text \<open>The directory entries as pairs of a name and the text of the file in it, if it can be read.\<close>

definition read_cpu_numa_map_from :: "(string \<times> string option) list option \<Rightarrow> nat \<rightharpoonup> int" where
  "read_cpu_numa_map_from dir =
     (case dir of
        None \<Rightarrow> Map.empty
      | Some entries \<Rightarrow> build_cpu_numa_map (List.map_filter (\<lambda>(name, cpulist).
          Option.bind (strip_prefix ''node'' name) (\<lambda>rest.
          Option.bind (parse_i32 rest) (\<lambda>node.
          map_option (\<lambda>s. (node, trim s)) cpulist))) entries))"

definition is_smt_primary :: "nat \<Rightarrow> string \<Rightarrow> bool" where
  "is_smt_primary cpu siblings_list =
     (case parse_cpulist siblings_list of [] \<Rightarrow> False | c # cs \<Rightarrow> Min (set (c # cs)) = cpu)"

definition read_smt_primaries_from :: "(string \<times> string option) list option \<Rightarrow> nat set" where
  "read_smt_primaries_from dir =
     (case dir of
        None \<Rightarrow> {}
      | Some entries \<Rightarrow> set (List.map_filter (\<lambda>(name, siblings).
          Option.bind (strip_prefix ''cpu'' name) (\<lambda>rest.
          Option.bind (parse_usize rest) (\<lambda>cpu.
          Option.bind siblings (\<lambda>s. if is_smt_primary cpu (trim s) then Some cpu else None)))) entries))"

section \<open>The plan\<close>

definition order_primaries_first :: "(nat \<times> int \<times> bool) list \<Rightarrow> (nat \<times> int) list" where
  "order_primaries_first cpus =
     map (\<lambda>(cpu, numa, _). (cpu, numa))
       (filter (\<lambda>(_, _, is_primary). is_primary) cpus @ filter (\<lambda>(_, _, is_primary). \<not> is_primary) cpus)"

fun split_local :: "int \<Rightarrow> (nat \<times> int) list \<Rightarrow> nat list \<times> nat list \<Rightarrow> nat list \<times> nat list" where
  "split_local nic_numa [] acc = acc"
| "split_local nic_numa ((cpu, numa) # rest) (local, remote) =
     split_local nic_numa rest (if numa = nic_numa then (local @ [cpu], remote) else (local, remote @ [cpu]))"

definition pick_numa_local_cores :: "int \<Rightarrow> (nat \<times> int) list \<Rightarrow> nat \<Rightarrow> nat list" where
  "pick_numa_local_cores nic_numa cpus queue_count =
     (let (local, remote) = split_local nic_numa cpus ([], []) in take queue_count (local @ remote))"

record machine =
  mc_num_cores :: nat
  mc_numa_node :: "string option"
  mc_nodes :: "(string \<times> string option) list option"
  mc_cpus :: "(string \<times> string option) list option"

definition nic_numa :: "machine \<Rightarrow> int" where
  "nic_numa mc = (case Option.bind (mc_numa_node mc) (\<lambda>s. parse_i32 (trim s)) of Some n \<Rightarrow> n | None \<Rightarrow> 0)"

definition cpus_with_smt :: "machine \<Rightarrow> (nat \<times> int \<times> bool) list" where
  "cpus_with_smt mc =
     (let numa_map = read_cpu_numa_map_from (mc_nodes mc);
          primaries = read_smt_primaries_from (mc_cpus mc)
      in map (\<lambda>cpu. (cpu, (case numa_map cpu of Some n \<Rightarrow> n | None \<Rightarrow> 0), primaries = {} \<or> cpu \<in> primaries))
           [0..<mc_num_cores mc])"

definition select_cores :: "machine \<Rightarrow> nat \<Rightarrow> nat list" where
  "select_cores mc queue_count =
     pick_numa_local_cores (nic_numa mc) (order_primaries_first (cpus_with_smt mc)) queue_count"

definition resolve_thread_count :: "nat \<Rightarrow> nat \<Rightarrow> nat \<Rightarrow> nat" where
  "resolve_thread_count hw_queues requested available_cores =
     min (min requested hw_queues) (available_cores mod 2 ^ 32)"

definition non_zero_worker_count :: "nat \<Rightarrow> nat \<Rightarrow> nat \<Rightarrow> string + nat" where
  "non_zero_worker_count hw_queues requested available_cores =
     (let count = resolve_thread_count hw_queues requested available_cores in
      if count = 0 then Inl ''no workers to spawn'' else Inr count)"

record thread_config =
  tc_queue_id :: nat
  tc_core_id :: nat

text \<open>\<open>hw\<close> is the answer of the driver to the question for its queues.\<close>

definition plan_threads :: "machine \<Rightarrow> string + nat \<Rightarrow> nat option \<Rightarrow> (string + thread_config list) run" where
  "plan_threads mc hw max_threads =
     (let hw_queues = (case hw of Inr n \<Rightarrow> n | Inl _ \<Rightarrow> 1);
          requested = (case max_threads of Some n \<Rightarrow> n | None \<Rightarrow> hw_queues)
      in case non_zero_worker_count hw_queues requested (mc_num_cores mc) of
           Inl e \<Rightarrow> ret (Inl e)
         | Inr count \<Rightarrow> do {
             let numa_cores = select_cores mc count;
             plan \<leftarrow> foldM (\<lambda>plan i. do {
                 core \<leftarrow> idx numa_cores i;
                 ret (plan @ [\<lparr>tc_queue_id = i, tc_core_id = core\<rparr>])
               }) [] [0..<count];
             ret (Inr plan)
           })"

section \<open>Reading CPU lists\<close>

text \<open>A list as the kernel prints it, of single CPUs and ranges, is read back.\<close>

definition cpu_range :: "nat \<times> nat \<Rightarrow> string" where
  "cpu_range r = (case r of (lo, hi) \<Rightarrow> if lo = hi then dec lo else dec lo @ ''-'' @ dec hi)"

lemma parse_cpu_range:
  assumes "lo < 2 ^ 64" "hi < 2 ^ 64"
  shows "parse_cpu_part (cpu_range (lo, hi)) = [lo..<Suc hi]"
proof (cases "lo = hi")
  case True
  have "split_once (CHR ''-'') (dec lo) = None"
    using dec_digits by (intro split_once_None) (force simp: digit_def)
  with True assms show ?thesis
    by (simp add: parse_cpu_part_def cpu_range_def Let_def parse_usize_def from_str_radix_dec)
next
  case False
  have "CHR ''-'' \<notin> set (dec lo)" using dec_digits by (force simp: digit_def)
  then have "split_once (CHR ''-'') (dec lo @ CHR ''-'' # dec hi) = Some (dec lo, dec hi)" by (rule split_once_app)
  moreover have "tidy (dec lo @ CHR ''-'' # dec hi)" using tidy_dec [of lo] tidy_dec [of hi] by (simp add: tidy_def)
  ultimately show ?thesis
    using False assms by (simp add: parse_cpu_part_def cpu_range_def Let_def parse_usize_def from_str_radix_dec)
qed

lemma parse_cpulist_ranges:
  assumes "\<forall>(lo, hi) \<in> set ranges. lo < 2 ^ 64 \<and> hi < 2 ^ 64" "ranges \<noteq> []"
  shows "parse_cpulist (join '','' (map cpu_range ranges)) = concat (map (\<lambda>(lo, hi). [lo..<Suc hi]) ranges)"
proof -
  have "CHR '','' \<notin> set (cpu_range r)" for r
    by (cases r) (auto simp: cpu_range_def digit_def dest!: dec_digits)
  then have "split_on (CHR '','') (join '','' (map cpu_range ranges)) = map cpu_range ranges"
    using assms(2) by (intro split_on_join) auto
  moreover have "map (parse_cpu_part \<circ> cpu_range) ranges = map (\<lambda>(lo, hi). [lo..<Suc hi]) ranges"
    using assms(1) parse_cpu_range by (intro map_cong) (auto simp: case_prod_beta)
  ultimately show ?thesis by (simp add: parse_cpulist_def del: map_eq_conv upt_Suc)
qed

section \<open>The order of the cores\<close>

text \<open>Whether a core is on the node of the interface, and whether it is the first thread of its physical core.\<close>

definition on_node :: "machine \<Rightarrow> nat \<Rightarrow> bool" where
  "on_node mc cpu \<longleftrightarrow> (case read_cpu_numa_map_from (mc_nodes mc) cpu of Some n \<Rightarrow> n | None \<Rightarrow> 0) = nic_numa mc"

definition primary :: "machine \<Rightarrow> nat \<Rightarrow> bool" where
  "primary mc cpu \<longleftrightarrow> read_smt_primaries_from (mc_cpus mc) = {} \<or> cpu \<in> read_smt_primaries_from (mc_cpus mc)"

definition core_order :: "machine \<Rightarrow> nat list" where
  "core_order mc =
     (let cores = (\<lambda>P. filter P [0..<mc_num_cores mc]) in
      cores (\<lambda>c. on_node mc c \<and> primary mc c) @ cores (\<lambda>c. on_node mc c \<and> \<not> primary mc c) @
      cores (\<lambda>c. \<not> on_node mc c \<and> primary mc c) @ cores (\<lambda>c. \<not> on_node mc c \<and> \<not> primary mc c))"

lemma split_local_eq:
  "split_local nic cpus (l, r) =
     (l @ map fst (filter (\<lambda>(_, numa). numa = nic) cpus), r @ map fst (filter (\<lambda>(_, numa). numa \<noteq> nic) cpus))"
  by (induction nic cpus "(l, r)" arbitrary: l r rule: split_local.induct) auto

lemma select_cores_eq: "select_cores mc count = take count (core_order mc)"
proof -
  have "map fst (filter (\<lambda>(_, numa). P numa) (order_primaries_first (cpus_with_smt mc))) =
      filter (\<lambda>c. primary mc c \<and> P (case read_cpu_numa_map_from (mc_nodes mc) c of Some n \<Rightarrow> n | None \<Rightarrow> 0)) [0..<mc_num_cores mc] @
      filter (\<lambda>c. \<not> primary mc c \<and> P (case read_cpu_numa_map_from (mc_nodes mc) c of Some n \<Rightarrow> n | None \<Rightarrow> 0)) [0..<mc_num_cores mc]" for P
    by (simp add: order_primaries_first_def cpus_with_smt_def Let_def filter_map comp_def case_prod_beta primary_def conj_commute)
  from this [of "\<lambda>n. n = nic_numa mc"] this [of "\<lambda>n. n \<noteq> nic_numa mc"] show ?thesis
    by (simp add: select_cores_def pick_numa_local_cores_def split_local_eq core_order_def Let_def on_node_def conj_commute)
qed

lemma core_order_all: "distinct (core_order mc)" "set (core_order mc) = {0..<mc_num_cores mc}" "length (core_order mc) = mc_num_cores mc"
proof -
  show d: "distinct (core_order mc)" by (auto simp: core_order_def Let_def)
  show s: "set (core_order mc) = {0..<mc_num_cores mc}" by (auto simp: core_order_def Let_def)
  show "length (core_order mc) = mc_num_cores mc" using distinct_card [OF d] s by simp
qed

text \<open>A prefix of a list that reaches behind a first part contains this part.\<close>

lemma take_covers: "x \<in> set (take k (a @ b)) \<Longrightarrow> x \<notin> set a \<Longrightarrow> set a \<subseteq> set (take k (a @ b))"
  by (cases "k \<le> length a") (auto dest: in_set_takeD)

lemma local_cores_first:
  assumes "c \<in> set (take k (core_order mc))" "\<not> on_node mc c" "c' < mc_num_cores mc" "on_node mc c'"
  shows "c' \<in> set (take k (core_order mc))"
proof -
  let ?cores = "\<lambda>P. filter P [0..<mc_num_cores mc]"
  let ?l = "?cores (\<lambda>c. on_node mc c \<and> primary mc c) @ ?cores (\<lambda>c. on_node mc c \<and> \<not> primary mc c)"
    and ?r = "?cores (\<lambda>c. \<not> on_node mc c \<and> primary mc c) @ ?cores (\<lambda>c. \<not> on_node mc c \<and> \<not> primary mc c)"
  have order: "core_order mc = ?l @ ?r" by (simp add: core_order_def Let_def)
  with take_covers [of c k ?l ?r] assms show ?thesis unfolding order by auto
qed

lemma primaries_first:
  assumes "c \<in> set (take k (core_order mc))" "\<not> primary mc c" "c' < mc_num_cores mc" "primary mc c'" "on_node mc c' = on_node mc c"
  shows "c' \<in> set (take k (core_order mc))"
proof -
  let ?cores = "\<lambda>P. filter P [0..<mc_num_cores mc]"
  let ?ls = "?cores (\<lambda>c. on_node mc c \<and> \<not> primary mc c)" and ?rs = "?cores (\<lambda>c. \<not> on_node mc c \<and> \<not> primary mc c)"
  let ?lp = "?cores (\<lambda>c. on_node mc c \<and> primary mc c)" and ?rp = "?cores (\<lambda>c. \<not> on_node mc c \<and> primary mc c)"
  have order: "core_order mc = ?lp @ (?ls @ ?rp @ ?rs)" "core_order mc = (?lp @ ?ls @ ?rp) @ ?rs"
    by (simp_all add: core_order_def Let_def)
  show ?thesis
  proof (cases "on_node mc c")
    case True
    with assms take_covers [of c k ?lp "?ls @ ?rp @ ?rs"] show ?thesis unfolding order(1) by auto
  next
    case False
    with assms take_covers [of c k "?lp @ ?ls @ ?rp" ?rs] show ?thesis unfolding order(2) by auto
  qed
qed

lemma foldM_plan:
  "count \<le> length cores \<Longrightarrow>
   foldM (\<lambda>plan i. do { core \<leftarrow> idx cores i; ret (plan @ [\<lparr>tc_queue_id = i, tc_core_id = core\<rparr>]) }) [] [0..<count] =
     Some (map (\<lambda>i. \<lparr>tc_queue_id = i, tc_core_id = cores ! i\<rparr>) [0..<count])"
  by (induction count) (simp_all add: foldM_append)

section \<open>Properties\<close>

text \<open>
  C34. The plan of the worker threads. Planning never panics. There is one worker for each queue from zero up
  to the least of the hardware queues, the requested number and the cores, and an error exactly if that is
  zero. Every worker has a core of its own; a core on a remote node is used only if all cores on the node
  of the interface are, and a second thread of a physical core only if all first threads with the same
  distance to the interface are.
\<close>

theorem plan_threads_spec:
  fixes mc :: machine and hw :: "string + nat" and max_threads :: "nat option"
  assumes "mc_num_cores mc < 2 ^ 32"
  defines "queues \<equiv> (case hw of Inr n \<Rightarrow> n | Inl _ \<Rightarrow> 1)"
  defines "count \<equiv> Min {queues, (case max_threads of Some n \<Rightarrow> n | None \<Rightarrow> queues), mc_num_cores mc}"
  shows "\<exists>r. plan_threads mc hw max_threads = Some r \<and> (case r of Inl _ \<Rightarrow> count = 0
    | Inr plan \<Rightarrow> let cores = set (map tc_core_id plan) in
        0 < count \<and> map tc_queue_id plan = [0..<count] \<and>
        distinct (map tc_core_id plan) \<and> cores \<subseteq> {0..<mc_num_cores mc} \<and>
        ((\<exists>c \<in> cores. \<not> on_node mc c) \<longrightarrow> (\<forall>c < mc_num_cores mc. on_node mc c \<longrightarrow> c \<in> cores)) \<and>
        (\<forall>c \<in> cores. \<not> primary mc c \<longrightarrow>
          (\<forall>c' < mc_num_cores mc. primary mc c' \<longrightarrow> on_node mc c' = on_node mc c \<longrightarrow> c' \<in> cores)))"
proof -
  have count: "resolve_thread_count queues (case max_threads of Some n \<Rightarrow> n | None \<Rightarrow> queues) (mc_num_cores mc) = count"
    using assms(1) by (simp add: resolve_thread_count_def count_def min.commute)
  have le: "count \<le> mc_num_cores mc" by (simp add: count_def)
  let ?cores = "take count (core_order mc)"
  define plan where "plan = map (\<lambda>i. \<lparr>tc_queue_id = i, tc_core_id = ?cores ! i\<rparr>) [0..<count]"
  have len: "length ?cores = count" using le core_order_all(3) by simp
  have maps: "map tc_core_id plan = ?cores" "map tc_queue_id plan = [0..<count]"
    using map_nth [of ?cores] len by (simp_all add: comp_def plan_def)
  have run: "plan_threads mc hw max_threads = Some (if count = 0 then Inl ''no workers to spawn'' else Inr plan)"
    using count foldM_plan [OF eq_refl [OF len [symmetric]]]
    by (simp add: plan_threads_def non_zero_worker_count_def Let_def queues_def [symmetric] select_cores_eq plan_def)
  have "set ?cores \<subseteq> {0..<mc_num_cores mc}" using core_order_all(2) in_set_takeD by fastforce
  moreover have "distinct ?cores" using core_order_all(1) by simp
  moreover have "(\<exists>c \<in> set ?cores. \<not> on_node mc c) \<longrightarrow> (\<forall>c < mc_num_cores mc. on_node mc c \<longrightarrow> c \<in> set ?cores)"
    using local_cores_first by blast
  moreover have "\<forall>c \<in> set ?cores. \<not> primary mc c \<longrightarrow>
      (\<forall>c' < mc_num_cores mc. primary mc c' \<longrightarrow> on_node mc c' = on_node mc c \<longrightarrow> c' \<in> set ?cores)"
    using primaries_first by blast
  ultimately show ?thesis
    unfolding run by (cases "count = 0") (simp_all only: maps Let_def option.inject if_True if_False ex_simps
      simp_thms sum.case neq0_conv [symmetric])
qed

definition sample_machine :: machine where
  "sample_machine = \<lparr>mc_num_cores = 4, mc_numa_node = None, mc_nodes = None, mc_cpus = None\<rparr>"

theorem plan_threads_spec_witness: "\<exists>plan. plan_threads sample_machine (Inr 8) (Some 2) = Some (Inr plan) \<and> map tc_queue_id plan = [0, 1]"
proof -
  have n: "mc_num_cores sample_machine = 4" by (simp add: sample_machine_def)
  then have "mc_num_cores sample_machine < 2 ^ 32" by simp
  note spec = plan_threads_spec [OF this, of "Inr 8" "Some 2"]
  show ?thesis
    by (rule exE [OF spec], erule conjE, rename_tac r, case_tac r) (simp_all add: n Let_def upt_rec)
qed

end
