(* ===== verification/Fd_Store.thy ===== *)
theory Fd_Store
  imports Rust_Text
begin

text \<open>
  The hand-over of sockets across a restart, \<open>pesigitg-daemon/src/fdstore.rs\<close>: the outgoing daemon gives
  systemd two file descriptors for each queue under names it makes up, and the next one sorts what it gets
  back into pairs. A file descriptor is a number; the store of the service manager is the list of named
  descriptors that the one process sends and the next receives, in any order.
\<close>

section \<open>Names\<close>

type_synonym fd = nat

datatype fd_kind = Sock | Umem

definition SOCK_SUFFIX :: string where "SOCK_SUFFIX = ''-sock''"
definition UMEM_SUFFIX :: string where "UMEM_SUFFIX = ''-umem''"
definition NAME_PREFIX :: string where "NAME_PREFIX = ''pesigitg-q''"

definition sock_name :: "u32 \<Rightarrow> string" where
  "sock_name queue_id = NAME_PREFIX @ dec (unat queue_id) @ SOCK_SUFFIX"

definition umem_name :: "u32 \<Rightarrow> string" where
  "umem_name queue_id = NAME_PREFIX @ dec (unat queue_id) @ UMEM_SUFFIX"

definition parse_name :: "string \<Rightarrow> (u32 \<times> fd_kind) option" where
  "parse_name name =
     (case strip_prefix NAME_PREFIX name of
        None \<Rightarrow> None
      | Some body \<Rightarrow>
          (case strip_suffix SOCK_SUFFIX body of
             Some qid \<Rightarrow> map_option (\<lambda>q. (of_nat q, Sock)) (from_str_radix 32 10 qid)
           | None \<Rightarrow>
               (case strip_suffix UMEM_SUFFIX body of
                  Some qid \<Rightarrow> map_option (\<lambda>q. (of_nat q, Umem)) (from_str_radix 32 10 qid)
                | None \<Rightarrow> None)))"

section \<open>Receiving and sending\<close>

text \<open>Sorting the received descriptors by kind; a later one for the same queue replaces an earlier one.\<close>

fun sort_fd :: "(u32 \<rightharpoonup> fd) \<times> (u32 \<rightharpoonup> fd) \<Rightarrow> fd \<times> string \<Rightarrow> (u32 \<rightharpoonup> fd) \<times> (u32 \<rightharpoonup> fd)" where
  "sort_fd (socks, umems) (raw_fd, name) =
     (case parse_name name of
        Some (qid, Sock) \<Rightarrow> (socks(qid \<mapsto> raw_fd), umems)
      | Some (qid, Umem) \<Rightarrow> (socks, umems(qid \<mapsto> raw_fd))
      | None \<Rightarrow> (socks, umems))"

definition inherit_from_systemd :: "(fd \<times> string) list \<Rightarrow> u32 \<rightharpoonup> fd \<times> fd" where
  "inherit_from_systemd entries =
     (let (socks, umems) = foldl sort_fd (Map.empty, Map.empty) entries
      in (\<lambda>qid. case (socks qid, umems qid) of (Some sock, Some umem) \<Rightarrow> Some (sock, umem) | _ \<Rightarrow> None))"

text \<open>
  Sending: \<open>notify\<close> is the answer of the service manager to each message. The result carries what has
  arrived in its store, also when a message fails on the way.
\<close>

definition send_one :: "(fd \<times> string \<Rightarrow> string option) \<Rightarrow> u32 \<Rightarrow> fd \<Rightarrow> fd \<Rightarrow> (fd \<times> string) list \<times> string option" where
  "send_one notify queue_id sock umem =
     (case notify (sock, sock_name queue_id) of
        Some e \<Rightarrow> ([], Some e)
      | None \<Rightarrow>
          (case notify (umem, umem_name queue_id) of
             Some e \<Rightarrow> ([(sock, sock_name queue_id)], Some e)
           | None \<Rightarrow> ([(sock, sock_name queue_id), (umem, umem_name queue_id)], None)))"

fun export_loop ::
  "(fd \<times> string \<Rightarrow> string option) \<Rightarrow> nat \<Rightarrow> (u32 \<times> fd \<times> fd) list \<Rightarrow> (fd \<times> string) list \<times> (string + nat)" where
  "export_loop notify exported [] = ([], Inr exported)"
| "export_loop notify exported ((qid, sock, umem) # rest) =
     (case send_one notify qid sock umem of
        (sent, Some e) \<Rightarrow> (sent, Inl e)
      | (sent, None) \<Rightarrow>
          (case export_loop notify (exported + 1) rest of (sent', r) \<Rightarrow> (sent @ sent', r)))"

definition export_to_systemd ::
  "bool \<Rightarrow> (fd \<times> string \<Rightarrow> string option) \<Rightarrow> (u32 \<times> fd \<times> fd) list \<Rightarrow> (fd \<times> string) list \<times> (string + nat)" where
  "export_to_systemd notify_socket notify fds =
     (if \<not> notify_socket then ([], Inr 0) else export_loop notify 0 fds)"

section \<open>Names are unambiguous\<close>

lemma parse_sock_name: "parse_name (sock_name q) = Some (q, Sock)"
proof -
  have "unat q < 2 ^ 32" using unsigned_less [of q, where 'a = nat] by simp
  then show ?thesis by (simp add: parse_name_def sock_name_def from_str_radix_dec)
qed

lemma parse_umem_name: "parse_name (umem_name q) = Some (q, Umem)"
proof -
  have "unat q < 2 ^ 32" using unsigned_less [of q, where 'a = nat] by simp
  moreover have "strip_suffix SOCK_SUFFIX (dec (unat q) @ UMEM_SUFFIX) = None"
    by (auto simp: strip_suffix_def suffix_def SOCK_SUFFIX_def UMEM_SUFFIX_def append_eq_append_conv2)
  ultimately show ?thesis by (simp add: parse_name_def umem_name_def from_str_radix_dec)
qed

text \<open>What the sorting keeps of a list of descriptors: for each name, the last one.\<close>

definition last_fd :: "(u32 \<times> fd_kind) \<Rightarrow> (fd \<times> string) list \<Rightarrow> fd option" where
  "last_fd k entries = map_of (rev (List.map_filter (\<lambda>(f, n). map_option (\<lambda>k. (k, f)) (parse_name n)) entries)) k"

lemma foldl_sort_fd:
  "foldl sort_fd (Map.empty, Map.empty) entries = (\<lambda>q. last_fd (q, Sock) entries, \<lambda>q. last_fd (q, Umem) entries)"
proof (induction entries rule: rev_induct)
  case (snoc e entries)
  obtain f n where e: "e = (f, n)" by fastforce
  show ?case
    by (cases "parse_name n"; cases "snd (the (parse_name n))")
      (auto simp: snoc e last_fd_def List.map_filter_def fun_eq_iff)
qed (simp add: last_fd_def List.map_filter_def)

text \<open>If a name has one descriptor only, the order of the descriptors does not matter.\<close>

lemma last_fd_iff:
  assumes "\<And>f n f' n'. (f, n) \<in> set entries \<Longrightarrow> (f', n') \<in> set entries \<Longrightarrow>
    parse_name n = Some k \<Longrightarrow> parse_name n' = Some k \<Longrightarrow> f = f'"
  shows "last_fd k entries = Some f \<longleftrightarrow> (\<exists>n. (f, n) \<in> set entries \<and> parse_name n = Some k)"
proof -
  let ?kvs = "List.map_filter (\<lambda>(f, n). map_option (\<lambda>k. (k, f)) (parse_name n)) entries"
  have mem: "(k, f) \<in> set ?kvs \<longleftrightarrow> (\<exists>n. (f, n) \<in> set entries \<and> parse_name n = Some k)" for f
    by (force simp: List.map_filter_def image_iff)
  have sound: "(k, f) \<in> set ?kvs" if "last_fd k entries = Some f" for f
    using map_of_SomeD [OF that [unfolded last_fd_def]] by simp
  show ?thesis
  proof
    assume "last_fd k entries = Some f"
    then show "\<exists>n. (f, n) \<in> set entries \<and> parse_name n = Some k" using sound mem by simp
  next
    assume ex: "\<exists>n. (f, n) \<in> set entries \<and> parse_name n = Some k"
    then have "(k, f) \<in> set (rev ?kvs)" using mem by simp
    then obtain f' where f': "last_fd k entries = Some f'" using weak_map_of_SomeI unfolding last_fd_def by fast
    then have "\<exists>n. (f', n) \<in> set entries \<and> parse_name n = Some k" using sound mem by simp
    with ex assms have "f = f'" by blast
    with f' show "last_fd k entries = Some f" by simp
  qed
qed

section \<open>The hand-over\<close>

text \<open>The messages of an export in their order: the socket of a queue, then its memory.\<close>

definition messages :: "(u32 \<times> fd \<times> fd) list \<Rightarrow> (fd \<times> string) list" where
  "messages fds = concat (map (\<lambda>(q, sock, umem). [(sock, sock_name q), (umem, umem_name q)]) fds)"

lemma messages_Cons: "messages ((q, s, u) # fds) = (s, sock_name q) # (u, umem_name q) # messages fds"
  by (simp add: messages_def)

abbreviation accepted :: "(fd \<times> string \<Rightarrow> string option) \<Rightarrow> fd \<times> string \<Rightarrow> bool" where
  "accepted notify m \<equiv> notify m = None"

lemma export_loop_eq:
  "export_loop notify n fds =
    (takeWhile (accepted notify) (messages fds),
     case dropWhile (accepted notify) (messages fds) of [] \<Rightarrow> Inr (n + length fds) | m # _ \<Rightarrow> Inl (the (notify m)))"
proof (induction fds arbitrary: n)
  case (Cons e fds)
  obtain q s u where e: "e = (q, s, u)" by (cases e)
  show ?case
    by (cases "notify (s, sock_name q)"; cases "notify (u, umem_name q)"; cases "dropWhile (accepted notify) (messages fds)")
      (use Cons.IH in \<open>simp_all add: e messages_Cons send_one_def cong: list.case_cong\<close>)
qed (simp add: messages_def)

definition fd_name :: "fd_kind \<Rightarrow> u32 \<Rightarrow> string" where
  "fd_name kind q = (case kind of Sock \<Rightarrow> sock_name q | Umem \<Rightarrow> umem_name q)"

lemma parse_fd_name: "parse_name (fd_name kind q) = Some (q, kind)"
  by (cases kind) (simp_all add: fd_name_def parse_sock_name parse_umem_name)

lemma messages_names:
  assumes "(f, n) \<in> set (messages fds)" "parse_name n = Some (q, kind)"
  shows "n = fd_name kind q" "\<exists>s u. (q, s, u) \<in> set fds \<and> f = (case kind of Sock \<Rightarrow> s | Umem \<Rightarrow> u)"
  using assms by (auto simp: messages_def fd_name_def parse_sock_name parse_umem_name)

text \<open>
  Whatever part of the messages is in the store, and whatever else it holds under foreign names: a pair is
  recovered exactly if both of its messages are there.
\<close>

lemma inherit_iff:
  assumes "distinct (map fst fds)" and sent: "set sent \<subseteq> set (messages fds)"
    and entries: "set entries = set sent \<union> others" and others: "\<forall>(f, n) \<in> others. parse_name n = None"
  shows "inherit_from_systemd entries q = Some (s, u) \<longleftrightarrow>
    (q, s, u) \<in> set fds \<and> (s, sock_name q) \<in> set sent \<and> (u, umem_name q) \<in> set sent"
proof -
  note one = eq_key_imp_eq_value [OF assms(1)]
  have known: "(f, n) \<in> set sent" if "(f, n) \<in> set entries" "parse_name n = Some k" for f n k
    using that others unfolding entries by fastforce
  have last: "last_fd (q, kind) entries = Some f \<longleftrightarrow> (f, fd_name kind q) \<in> set sent" for f kind
  proof (subst last_fd_iff)
    fix a n a' n'
    assume in_entries: "(a, n) \<in> set entries" "(a', n') \<in> set entries"
      and names: "parse_name n = Some (q, kind)" "parse_name n' = Some (q, kind)"
    have "(a, n) \<in> set (messages fds)" "(a', n') \<in> set (messages fds)"
      using known [OF in_entries(1) names(1)] known [OF in_entries(2) names(2)] sent by auto
    from messages_names(2) [OF this(1) names(1)] messages_names(2) [OF this(2) names(2)]
    show "a = a'" by (auto dest: one)
  next
    show "(\<exists>n. (f, n) \<in> set entries \<and> parse_name n = Some (q, kind)) \<longleftrightarrow> (f, fd_name kind q) \<in> set sent" (is "?l \<longleftrightarrow> ?r")
    proof
      assume ?l
      then obtain n where n: "(f, n) \<in> set entries" "parse_name n = Some (q, kind)" by blast
      have m: "(f, n) \<in> set sent" by (rule known [OF n])
      with messages_names(1) [OF subsetD [OF sent m] n(2)] show ?r by simp
    next
      assume ?r
      then show ?l using parse_fd_name [of kind q] by (auto simp: entries)
    qed
  qed
  have "(q, s, u) \<in> set fds" if "(s, sock_name q) \<in> set sent" "(u, umem_name q) \<in> set sent"
    using messages_names(2) [OF subsetD [OF sent that(1)] parse_sock_name] messages_names(2) [OF subsetD [OF sent that(2)] parse_umem_name]
    by (auto dest: one)
  moreover have "inherit_from_systemd entries q = Some (s, u) \<longleftrightarrow>
      last_fd (q, Sock) entries = Some s \<and> last_fd (q, Umem) entries = Some u"
    by (auto simp: inherit_from_systemd_def foldl_sort_fd split: option.splits)
  ultimately show ?thesis using last [of Sock s] last [of Umem u] by (auto simp: fd_name_def)
qed

section \<open>Properties\<close>

text \<open>
  C32. The sockets survive the restart. When the outgoing daemon exports the descriptors of its queues under
  systemd, the messages arrive up to the first one that is refused: the socket and then the memory of each
  queue in turn. The export reports the number of queues if every message is accepted, and the error of the
  refused one otherwise. The next daemon recovers a pair under a queue exactly if it was exported for that
  queue and both of its messages have arrived, whatever the order in which the service manager returns the
  descriptors and whatever else it holds under foreign names.
\<close>

theorem fd_handoff:
  assumes "distinct (map fst fds)"
  shows "\<exists>sent r. export_to_systemd True notify fds = (sent, r) \<and>
    sent = takeWhile (\<lambda>m. notify m = None) (messages fds) \<and>
    r = (case dropWhile (\<lambda>m. notify m = None) (messages fds) of [] \<Rightarrow> Inr (length fds) | m # _ \<Rightarrow> Inl (the (notify m))) \<and>
    (\<forall>entries others q s u. set entries = set sent \<union> others \<longrightarrow> (\<forall>(f, n) \<in> others. parse_name n = None) \<longrightarrow>
       (inherit_from_systemd entries q = Some (s, u) \<longleftrightarrow>
          (q, s, u) \<in> set fds \<and> (s, sock_name q) \<in> set sent \<and> (u, umem_name q) \<in> set sent))"
proof -
  have "set (takeWhile (\<lambda>m. notify m = None) (messages fds)) \<subseteq> set (messages fds)" by (auto dest: set_takeWhileD)
  moreover have "export_loop notify 0 fds = (takeWhile (\<lambda>m. notify m = None) (messages fds),
      case dropWhile (\<lambda>m. notify m = None) (messages fds) of [] \<Rightarrow> Inr (length fds) | m # _ \<Rightarrow> Inl (the (notify m)))"
    using export_loop_eq [of notify 0 fds] unfolding add_0 .
  ultimately show ?thesis using inherit_iff [OF assms] by (simp add: export_to_systemd_def)
qed

text \<open>Of two queues, the memory of the second one is refused; its socket alone does not make a pair.\<close>

theorem fd_handoff_witness:
  "export_to_systemd True (\<lambda>(f, _). if f = 10 then Some ''refused'' else None) [(1, 7, 8), (2, 9, 10)] =
     ([(7, sock_name 1), (8, umem_name 1), (9, sock_name 2)], Inl ''refused'') \<and>
   inherit_from_systemd [(9, sock_name 2), (8, umem_name 1), (7, sock_name 1)] 1 = Some (7, 8) \<and>
   inherit_from_systemd [(9, sock_name 2), (8, umem_name 1), (7, sock_name 1)] 2 = None"
proof -
  let ?fds = "[(1, 7, 8), (2, 9, 10)] :: (u32 \<times> fd \<times> fd) list" and ?notify = "\<lambda>(f, _). if f = 10 then Some ''refused'' else None"
  let ?sent = "[(7, sock_name 1), (8, umem_name 1), (9, sock_name 2)]" and ?entries = "[(9, sock_name 2), (8, umem_name 1), (7, sock_name 1)]"
  have "distinct (map fst ?fds)" by simp
  from fd_handoff [OF this, of ?notify] obtain sent r where exported: "export_to_systemd True ?notify ?fds = (sent, r)"
    and sent: "sent = takeWhile (\<lambda>m. ?notify m = None) (messages ?fds)"
    and r: "r = (case dropWhile (\<lambda>m. ?notify m = None) (messages ?fds) of [] \<Rightarrow> Inr (length ?fds) | m # _ \<Rightarrow> Inl (the (?notify m)))"
    and found: "\<forall>entries others q s u. set entries = set sent \<union> others \<longrightarrow> (\<forall>(f, n) \<in> others. parse_name n = None) \<longrightarrow>
      (inherit_from_systemd entries q = Some (s, u) \<longleftrightarrow>
        (q, s, u) \<in> set ?fds \<and> (s, sock_name q) \<in> set sent \<and> (u, umem_name q) \<in> set sent)" by blast
  have sent': "sent = ?sent" and r': "r = Inl ''refused''" by (simp_all add: sent r messages_def)
  have "set ?entries = set sent \<union> {}" by (auto simp: sent')
  from found [rule_format, OF this] have inherit: "inherit_from_systemd ?entries q = Some (s, u) \<longleftrightarrow>
      (q, s, u) \<in> set ?fds \<and> (s, sock_name q) \<in> set ?sent \<and> (u, umem_name q) \<in> set ?sent" for q s u
    by (simp add: sent')
  have "inherit_from_systemd ?entries 2 \<noteq> Some (s, u)" for s u using inherit [of 2 s u] by auto
  then have "inherit_from_systemd ?entries 2 = None" by (cases "inherit_from_systemd ?entries 2") auto
  with exported inherit [of 1 7 8] show ?thesis by (simp add: sent' r')
qed

end
