(* ===== verification/Ebpf_Pins.thy ===== *)
theory Ebpf_Pins
  imports Xdp_Filter Fd_Store
begin

text \<open>
  Loading the XDP program, \<open>pesigitg-daemon/src/ebpf.rs\<close>: a daemon adopts the program and the maps that a
  predecessor left pinned in bpffs, or loads and pins them anew, and reconciles the map of ports with the
  configured ones. What the kernel keeps for one interface is explicit: the pins, the contents of the two
  maps and the attached program. Every call of the \<open>aya\<close> library may fail with an error that an argument
  gives.
\<close>

section \<open>The kernel's side\<close>

definition PIN_ROOT :: string where "PIN_ROOT = ''/sys/fs/bpf/pesigitg''"
definition LINK_PIN_NAME :: string where "LINK_PIN_NAME = ''link''"
definition XSKS_MAP_NAME :: string where "XSKS_MAP_NAME = ''XSKS''"
definition PORTS_MAP_NAME :: string where "PORTS_MAP_NAME = ''PORTS''"
definition MAX_PORTS :: nat where "MAX_PORTS = 64"

text \<open>
  The names pinned in the directory of the interface and whether the directory exists; the keys of \<open>PORTS\<close> and the
  entries of \<open>XSKS\<close>; the attached program, by a number that is new for every attachment, and whether a process
  holds the link open.
\<close>

record bpf_kernel =
  bk_pins :: "string set"
  bk_dir :: bool
  bk_ports :: "u16 set"
  bk_xsks :: "u32 \<Rightarrow> fd option"
  bk_link :: "nat option"
  bk_held :: bool
  bk_next :: nat

datatype bpf_call = CreateDir | LoadObject | FindProgram | LoadProgram | Attach | TakeLink | PinLink | TakeMap string
  | OpenPin string | WrapMap string | RemoveKey u16 | InsertKey u16 | SetSocket u32 | RemoveFile string

type_synonym bpf_errors = "bpf_call \<Rightarrow> string option"

text \<open>A link that is neither pinned nor held is closed, which detaches the program.\<close>

definition bk_settle :: "bpf_kernel \<Rightarrow> bpf_kernel" where
  "bk_settle k = (if LINK_PIN_NAME \<in> bk_pins k \<or> bk_held k then k else k\<lparr>bk_link := None\<rparr>)"

text \<open>\<open>fs::remove_file\<close> on a pin: an error leaves the pin, and a missing file is no error that counts.\<close>

definition bk_unpin :: "bpf_errors \<Rightarrow> bpf_kernel \<Rightarrow> string \<Rightarrow> bpf_kernel" where
  "bk_unpin err k name = (if err (RemoveFile name) \<noteq> None then k else bk_settle (k\<lparr>bk_pins := bk_pins k - {name}\<rparr>))"

text \<open>\<open>EbpfLoader::load\<close> with a pin path: a map that is pinned there is reused, otherwise it is created and pinned.\<close>

definition bk_load :: "bpf_kernel \<Rightarrow> bpf_kernel" where
  "bk_load k = k\<lparr>bk_pins := bk_pins k \<union> {XSKS_MAP_NAME, PORTS_MAP_NAME},
     bk_ports := (if PORTS_MAP_NAME \<in> bk_pins k then bk_ports k else {}),
     bk_xsks := (if XSKS_MAP_NAME \<in> bk_pins k then bk_xsks k else (\<lambda>_. None))\<rparr>"

section \<open>\<open>ebpf.rs\<close>\<close>

definition pin_root_for :: "string \<Rightarrow> string" where
  "pin_root_for iface = path_join PIN_ROOT iface"

record ebpf_handle =
  eh_pin_root :: string
  eh_handoff :: bool

definition register_xsk :: "bpf_errors \<Rightarrow> u32 \<Rightarrow> fd \<Rightarrow> bpf_kernel \<Rightarrow> (string + unit) \<times> bpf_kernel" where
  "register_xsk err queue_id socket_fd k =
     (case err (WrapMap XSKS_MAP_NAME) of
        Some e \<Rightarrow> (Inl e, k)
      | None \<Rightarrow>
          (case err (SetSocket queue_id) of
             Some e \<Rightarrow> (Inl e, k)
           | None \<Rightarrow> (Inr (), k\<lparr>bk_xsks := (bk_xsks k)(queue_id := Some socket_fd)\<rparr>)))"

definition set_handoff :: "ebpf_handle \<Rightarrow> ebpf_handle" where
  "set_handoff h = h\<lparr>eh_handoff := True\<rparr>"

text \<open>\<open>Drop\<close>, followed by closing the link; removing the directory works if it is empty.\<close>

definition ebpf_drop :: "bpf_errors \<Rightarrow> ebpf_handle \<Rightarrow> bpf_kernel \<Rightarrow> bpf_kernel" where
  "ebpf_drop err h k =
     bk_settle ((if eh_handoff h then k
       else let k = foldl (bk_unpin err) k [LINK_PIN_NAME, XSKS_MAP_NAME, PORTS_MAP_NAME]
            in if bk_pins k = {} then k\<lparr>bk_dir := False\<rparr> else k)\<lparr>bk_held := False\<rparr>)"

text \<open>
  The end of a daemon. Its AF_XDP sockets are closed when its workers stop, except for those whose
  descriptors, \<open>kept\<close>, the service manager holds, and the kernel empties the slots of \<open>XSKS\<close> that refer to a closed
  socket. At last the handle is dropped, on \<open>SIGUSR2\<close> with the mark of a handoff.
\<close>

definition bk_release :: "fd set \<Rightarrow> bpf_kernel \<Rightarrow> bpf_kernel" where
  "bk_release kept k = k\<lparr>bk_xsks := (\<lambda>q. case bk_xsks k q of None \<Rightarrow> None | Some f \<Rightarrow> if f \<in> kept then Some f else None)\<rparr>"

definition handoff_shutdown :: "bpf_errors \<Rightarrow> fd set \<Rightarrow> ebpf_handle \<Rightarrow> bpf_kernel \<Rightarrow> bpf_kernel" where
  "handoff_shutdown err kept h k = ebpf_drop err (set_handoff h) (bk_release kept k)"

definition cold_shutdown :: "bpf_errors \<Rightarrow> ebpf_handle \<Rightarrow> bpf_kernel \<Rightarrow> bpf_kernel" where
  "cold_shutdown err h k = ebpf_drop err h (bk_release {} k)"

text \<open>
  The two loops of \<open>reconcile_ports\<close>. The kernel refuses a new key when the map is full. \<open>order\<close> is the order in
  which a \<open>HashSet\<close> is traversed, and \<open>readable\<close> says which keys the iterator over the map returns without an
  error.
\<close>

fun remove_ports :: "bpf_errors \<Rightarrow> u16 list \<Rightarrow> bpf_kernel \<Rightarrow> (string + unit) \<times> bpf_kernel" where
  "remove_ports err [] k = (Inr (), k)"
| "remove_ports err (port # ports) k =
     (case err (RemoveKey port) of
        Some e \<Rightarrow> (Inl e, k)
      | None \<Rightarrow> remove_ports err ports (k\<lparr>bk_ports := bk_ports k - {port}\<rparr>))"

fun insert_ports :: "bpf_errors \<Rightarrow> u16 list \<Rightarrow> bpf_kernel \<Rightarrow> (string + unit) \<times> bpf_kernel" where
  "insert_ports err [] k = (Inr (), k)"
| "insert_ports err (port # ports) k =
     (case err (InsertKey port) of
        Some e \<Rightarrow> (Inl e, k)
      | None \<Rightarrow>
          if port \<notin> bk_ports k \<and> MAX_PORTS \<le> card (bk_ports k) then (Inl ''E2BIG'', k)
          else insert_ports err ports (k\<lparr>bk_ports := insert port (bk_ports k)\<rparr>))"

definition reconcile_ports ::
  "bpf_errors \<Rightarrow> (u16 set \<Rightarrow> u16 list) \<Rightarrow> (u16 \<Rightarrow> bool) \<Rightarrow> u16 list \<Rightarrow> bpf_kernel \<Rightarrow> (string + unit) \<times> bpf_kernel" where
  "reconcile_ports err order readable configured k =
     (case err (WrapMap PORTS_MAP_NAME) of
        Some e \<Rightarrow> (Inl e, k)
      | None \<Rightarrow>
          (let configured_set = set configured;
               live = {p \<in> bk_ports k. readable p}
           in case remove_ports err (order (live - configured_set)) k of
                (Inl e, k) \<Rightarrow> (Inl e, k)
              | (Inr _, k) \<Rightarrow> insert_ports err (order (configured_set - live)) k))"

text \<open>A handle that exists when an error is returned is dropped.\<close>

definition with_ports ::
  "bpf_errors \<Rightarrow> (u16 set \<Rightarrow> u16 list) \<Rightarrow> (u16 \<Rightarrow> bool) \<Rightarrow> u16 list \<Rightarrow> ebpf_handle \<Rightarrow> bpf_kernel \<Rightarrow> (string + ebpf_handle) \<times> bpf_kernel" where
  "with_ports err order readable ports h k =
     (case reconcile_ports err order readable ports k of
        (Inl e, k) \<Rightarrow> (Inl e, ebpf_drop err h k)
      | (Inr _, k) \<Rightarrow> (Inr h, k))"

definition bpf_try :: "string option \<Rightarrow> bpf_kernel \<Rightarrow> (bpf_kernel \<Rightarrow> (string + 'a) \<times> bpf_kernel) \<Rightarrow> (string + 'a) \<times> bpf_kernel" where
  "bpf_try e k f = (case e of Some e \<Rightarrow> (Inl e, bk_settle (k\<lparr>bk_held := False\<rparr>)) | None \<Rightarrow> f k)"

definition adopt_ebpf ::
  "bpf_errors \<Rightarrow> (u16 set \<Rightarrow> u16 list) \<Rightarrow> (u16 \<Rightarrow> bool) \<Rightarrow> string \<Rightarrow> u16 list \<Rightarrow> bpf_kernel \<Rightarrow> (string + ebpf_handle) \<times> bpf_kernel" where
  "adopt_ebpf err order readable pin_root ports k =
     (let missing = (\<lambda>name. if name \<in> bk_pins k then err (OpenPin name) else Some ''ENOENT'')
      in bpf_try (missing LINK_PIN_NAME) k (\<lambda>k.
         bpf_try (missing XSKS_MAP_NAME) (k\<lparr>bk_held := True\<rparr>) (\<lambda>k.
         bpf_try (missing PORTS_MAP_NAME) k (\<lambda>k.
         with_ports err order readable ports \<lparr>eh_pin_root = pin_root, eh_handoff = False\<rparr> k))))"

definition clear_stale_pins :: "bpf_errors \<Rightarrow> bpf_kernel \<Rightarrow> bpf_kernel" where
  "clear_stale_pins err k = foldl (bk_unpin err) k [LINK_PIN_NAME, XSKS_MAP_NAME, PORTS_MAP_NAME]"

text \<open>The kernel refuses to attach a second program and to pin a second link under the same name.\<close>

definition cold_boot_ebpf ::
  "bpf_errors \<Rightarrow> (u16 set \<Rightarrow> u16 list) \<Rightarrow> (u16 \<Rightarrow> bool) \<Rightarrow> string \<Rightarrow> u16 list \<Rightarrow> bpf_kernel \<Rightarrow> (string + ebpf_handle) \<times> bpf_kernel" where
  "cold_boot_ebpf err order readable pin_root ports k =
     bpf_try (err CreateDir) k (\<lambda>k.
     bpf_try (err LoadObject) (k\<lparr>bk_dir := True\<rparr>) (\<lambda>k.
     bpf_try (err FindProgram) (bk_load k) (\<lambda>k.
     bpf_try (err LoadProgram) k (\<lambda>k.
     bpf_try (if bk_link k \<noteq> None then Some ''EBUSY'' else err Attach) k (\<lambda>k.
     bpf_try (err TakeLink) (k\<lparr>bk_link := Some (bk_next k), bk_held := True, bk_next := Suc (bk_next k)\<rparr>) (\<lambda>k.
     bpf_try (if LINK_PIN_NAME \<in> bk_pins k then Some ''EEXIST'' else err PinLink) k (\<lambda>k.
     bpf_try (err (TakeMap XSKS_MAP_NAME)) (k\<lparr>bk_pins := insert LINK_PIN_NAME (bk_pins k)\<rparr>) (\<lambda>k.
     bpf_try (err (TakeMap PORTS_MAP_NAME)) k (\<lambda>k.
     with_ports err order readable ports \<lparr>eh_pin_root = pin_root, eh_handoff = False\<rparr> k)))))))))"

definition load_ebpf ::
  "bpf_errors \<Rightarrow> (u16 set \<Rightarrow> u16 list) \<Rightarrow> (u16 \<Rightarrow> bool) \<Rightarrow> string \<Rightarrow> u16 list \<Rightarrow> bpf_kernel \<Rightarrow> (string + ebpf_handle) \<times> bpf_kernel" where
  "load_ebpf err order readable iface ports k =
     (let pin_root = pin_root_for iface in
      if LINK_PIN_NAME \<in> bk_pins k then
        (case adopt_ebpf err order readable pin_root ports k of
           (Inr h, k) \<Rightarrow> (Inr h, k)
         | (Inl _, k) \<Rightarrow> cold_boot_ebpf err order readable pin_root ports (clear_stale_pins err k))
      else cold_boot_ebpf err order readable pin_root ports k)"

section \<open>The map of ports\<close>

definition order_ok :: "(u16 set \<Rightarrow> u16 list) \<Rightarrow> bool" where
  "order_ok order \<longleftrightarrow> (\<forall>s. set (order s) = s \<and> distinct (order s))"

lemma remove_ports_result:
  assumes "remove_ports err ps k = (Inr u, k')"
  shows "k' = k\<lparr>bk_ports := bk_ports k - set ps\<rparr>"
  using assms
proof (induction ps arbitrary: k)
  case (Cons p ps)
  then have "remove_ports err ps (k\<lparr>bk_ports := bk_ports k - {p}\<rparr>) = (Inr u, k')" by (auto split: option.splits)
  moreover have "bk_ports k - {p} - set ps = bk_ports k - set (p # ps)" by auto
  ultimately show ?case using Cons.IH [of "k\<lparr>bk_ports := bk_ports k - {p}\<rparr>"] by simp
qed simp

lemma insert_ports_result:
  assumes "insert_ports err ps k = (Inr u, k')"
  shows "k' = k\<lparr>bk_ports := bk_ports k \<union> set ps\<rparr>"
  using assms
proof (induction ps arbitrary: k)
  case (Cons p ps)
  then have "insert_ports err ps (k\<lparr>bk_ports := insert p (bk_ports k)\<rparr>) = (Inr u, k')" by (auto split: option.splits if_splits)
  from Cons.IH [OF this] show ?case by simp
qed simp

lemma loops_keep:
  "bk_pins (snd (remove_ports err ps k)) = bk_pins k" "bk_pins (snd (insert_ports err ps k)) = bk_pins k"
  by (induction ps arbitrary: k) (auto split: option.splits)

lemma reconcile_result:
  assumes "reconcile_ports err order readable ports k = (Inr u, k')" "order_ok order"
  shows "k' = k\<lparr>bk_ports := set ports \<union> {p \<in> bk_ports k. \<not> readable p}\<rparr>"
proof -
  let ?live = "{p \<in> bk_ports k. readable p}"
  obtain u1 k1 where r: "remove_ports err (order (?live - set ports)) k = (Inr u1, k1)"
      and i: "insert_ports err (order (set ports - ?live)) k1 = (Inr u, k')"
    using assms(1) by (auto simp: reconcile_ports_def Let_def split: option.splits prod.splits sum.splits)
  have sets: "set (order s) = s" for s using assms(2) by (simp add: order_ok_def)
  have "k' = k\<lparr>bk_ports := (bk_ports k - (?live - set ports)) \<union> (set ports - ?live)\<rparr>"
    using remove_ports_result [OF r] insert_ports_result [OF i] by (simp add: sets)
  moreover have "(bk_ports k - (?live - set ports)) \<union> (set ports - ?live) = set ports \<union> {p \<in> bk_ports k. \<not> readable p}" by auto
  ultimately show ?thesis by simp
qed

section \<open>A loaded program\<close>

text \<open>
  All three pins exist, the program is attached and its link is held; and before a load, a pinned link belongs
  to an attached program, and an attached program is pinned because nobody holds it.
\<close>

definition bpf_loaded :: "bpf_kernel \<Rightarrow> bool" where
  "bpf_loaded k \<longleftrightarrow> {LINK_PIN_NAME, XSKS_MAP_NAME, PORTS_MAP_NAME} \<subseteq> bk_pins k \<and> bk_link k \<noteq> None \<and> bk_held k"

definition bpf_idle :: "bpf_kernel \<Rightarrow> bool" where
  "bpf_idle k \<longleftrightarrow> \<not> bk_held k \<and> (LINK_PIN_NAME \<in> bk_pins k \<longleftrightarrow> bk_link k \<noteq> None)"

lemmas pin_names = LINK_PIN_NAME_def XSKS_MAP_NAME_def PORTS_MAP_NAME_def

lemma with_ports_Inr:
  assumes "with_ports err order readable ports h k = (Inr h', k')" "order_ok order"
  shows "h' = h \<and> k' = k\<lparr>bk_ports := set ports \<union> {p \<in> bk_ports k. \<not> readable p}\<rparr>"
  using assms reconcile_result by (auto simp: with_ports_def split: prod.splits sum.splits)

lemma bpf_try_Inr: "bpf_try e k f = (Inr x, k') \<longleftrightarrow> e = None \<and> f k = (Inr x, k')"
  by (auto simp: bpf_try_def split: option.splits)

lemma adopt_ebpf_Inr:
  assumes "adopt_ebpf err order readable root ports k = (Inr h, k')" "order_ok order"
  shows "h = \<lparr>eh_pin_root = root, eh_handoff = False\<rparr>"
    "k' = k\<lparr>bk_held := True, bk_ports := set ports \<union> {p \<in> bk_ports k. \<not> readable p}\<rparr>"
    "{LINK_PIN_NAME, XSKS_MAP_NAME, PORTS_MAP_NAME} \<subseteq> bk_pins k"
  using assms by (auto simp: adopt_ebpf_def Let_def bpf_try_Inr split: if_splits dest!: with_ports_Inr)

lemma cold_boot_Inr:
  assumes "cold_boot_ebpf err order readable root ports k = (Inr h, k')" "order_ok order"
  shows "h = \<lparr>eh_pin_root = root, eh_handoff = False\<rparr>" "bpf_loaded k'" "bk_link k = None" "bk_link k' = Some (bk_next k)" "bk_dir k'"
    "bk_ports k' = set ports \<union> {p \<in> bk_ports (bk_load k). \<not> readable p}" "bk_xsks k' = bk_xsks (bk_load k)"
  using assms by (auto simp: cold_boot_ebpf_def bpf_try_Inr bk_load_def bpf_loaded_def split: if_splits dest!: with_ports_Inr)

lemma drop_cold:
  assumes "\<not> eh_handoff h" "\<forall>name. err (RemoveFile name) = None"
  shows "bk_link (ebpf_drop err h k) = None" "bk_pins (ebpf_drop err h k) = bk_pins k - {LINK_PIN_NAME, XSKS_MAP_NAME, PORTS_MAP_NAME}"
    "\<not> bk_held (ebpf_drop err h k)"
  using assms by (auto simp: ebpf_drop_def Let_def bk_unpin_def bk_settle_def)

lemma drop_handoff:
  assumes "bpf_loaded k"
  shows "ebpf_drop err (set_handoff h) k = k\<lparr>bk_held := False\<rparr>" "bpf_idle (ebpf_drop err (set_handoff h) k)"
  using assms by (auto simp: ebpf_drop_def set_handoff_def bk_settle_def bpf_loaded_def bpf_idle_def)

section \<open>When loading succeeds\<close>

definition no_bpf_errors :: "bpf_errors \<Rightarrow> bool" where
  "no_bpf_errors err \<longleftrightarrow> (\<forall>c. err c = None)"

lemma remove_ports_total: "no_bpf_errors err \<Longrightarrow> fst (remove_ports err ps k) = Inr ()"
  by (induction ps arbitrary: k) (simp_all add: no_bpf_errors_def)

lemma insert_ports_iff:
  assumes "no_bpf_errors err" "distinct ps" "set ps \<inter> bk_ports k = {}" "card (bk_ports k) \<le> MAX_PORTS"
  shows "fst (insert_ports err ps k) = Inr () \<longleftrightarrow> card (bk_ports k) + length ps \<le> MAX_PORTS"
  using assms(2-)
proof (induction ps arbitrary: k)
  case (Cons p ps)
  have none: "err (InsertKey p) = None" using assms(1) by (simp add: no_bpf_errors_def)
  have "card (insert p (bk_ports k)) = Suc (card (bk_ports k))" using Cons.prems(2) by simp
  then show ?case using Cons.prems Cons.IH [of "k\<lparr>bk_ports := insert p (bk_ports k)\<rparr>"] by (auto simp: none)
qed simp

lemma reconcile_iff:
  assumes "no_bpf_errors err" "order_ok order" "\<forall>p. readable p" "card (bk_ports k) \<le> MAX_PORTS"
  shows "fst (reconcile_ports err order readable ports k) = Inr () \<longleftrightarrow> card (set ports) \<le> MAX_PORTS"
proof -
  have sets: "set (order s) = s" "distinct (order s)" for s using assms(2) by (auto simp: order_ok_def)
  have lens: "length (order s) = card s" for s using sets distinct_card by metis
  obtain k1 where r: "remove_ports err (order (bk_ports k - set ports)) k = (Inr (), k1)"
    using remove_ports_total [OF assms(1)] by (metis prod.collapse)
  have k1: "bk_ports k1 = bk_ports k \<inter> set ports" using remove_ports_result [OF r] by (auto simp: sets)
  have "reconcile_ports err order readable ports k = insert_ports err (order (set ports - bk_ports k)) k1"
    using assms(1,3) r by (simp add: reconcile_ports_def no_bpf_errors_def Let_def)
  moreover have "card (bk_ports k1) \<le> MAX_PORTS" using assms(4) by (simp add: k1) (meson card_mono finite inf_le1 le_trans)
  moreover have "card (bk_ports k1) + card (set ports - bk_ports k) = card (set ports)"
  proof -
    have "set ports = (bk_ports k \<inter> set ports) \<union> (set ports - bk_ports k)" "(bk_ports k \<inter> set ports) \<inter> (set ports - bk_ports k) = {}" by auto
    then show ?thesis unfolding k1 using card_Un_disjoint [of "bk_ports k \<inter> set ports" "set ports - bk_ports k"] by simp
  qed
  ultimately show ?thesis
    using insert_ports_iff [OF assms(1) sets(2), of "set ports - bk_ports k" k1] by (auto simp: sets lens k1)
qed

lemma with_ports_iff:
  assumes "no_bpf_errors err" "order_ok order" "\<forall>p. readable p" "card (bk_ports k) \<le> MAX_PORTS"
  shows "(\<exists>h' k'. with_ports err order readable ports h k = (Inr h', k')) \<longleftrightarrow> card (set ports) \<le> MAX_PORTS"
  using reconcile_iff [OF assms, of ports]
  by (cases "reconcile_ports err order readable ports k") (auto simp: with_ports_def split: sum.splits)

lemma cold_boot_iff:
  assumes "no_bpf_errors err" "order_ok order" "\<forall>p. readable p" "card (bk_ports k) \<le> MAX_PORTS"
    and "LINK_PIN_NAME \<notin> bk_pins k" "bk_link k = None"
  shows "(\<exists>h k'. cold_boot_ebpf err order readable root ports k = (Inr h, k')) \<longleftrightarrow> card (set ports) \<le> MAX_PORTS"
proof -
  have none: "err c = None" for c using assms(1) by (simp add: no_bpf_errors_def)
  let ?k = "(bk_load (k\<lparr>bk_dir := True\<rparr>))\<lparr>bk_link := Some (bk_next k), bk_held := True, bk_next := Suc (bk_next k),
      bk_pins := insert LINK_PIN_NAME (bk_pins (bk_load k))\<rparr>"
  have "cold_boot_ebpf err order readable root ports k = with_ports err order readable ports \<lparr>eh_pin_root = root, eh_handoff = False\<rparr> ?k"
    using assms(5,6) by (simp add: cold_boot_ebpf_def bpf_try_def none bk_load_def pin_names)
  moreover have "card (bk_ports ?k) \<le> MAX_PORTS" using assms(4) by (simp add: bk_load_def)
  ultimately show ?thesis using with_ports_iff [OF assms(1-3), of ?k ports] by simp
qed

lemma loops_card:
  "card (bk_ports k) \<le> MAX_PORTS \<Longrightarrow> card (bk_ports (snd (remove_ports err ps k))) \<le> MAX_PORTS"
  "card (bk_ports k) \<le> MAX_PORTS \<Longrightarrow> card (bk_ports (snd (insert_ports err ps k))) \<le> MAX_PORTS"
proof (induction ps arbitrary: k)
  case (Cons p ps)
  {
    case 1
    moreover have "card (bk_ports k - {p}) \<le> card (bk_ports k)" by (simp add: card_mono)
    ultimately show ?case using Cons.IH(1) [of "k\<lparr>bk_ports := bk_ports k - {p}\<rparr>"] by (auto split: option.splits)
  next
    case 2
    then show ?case using Cons.IH(2) [of "k\<lparr>bk_ports := insert p (bk_ports k)\<rparr>"] by (auto simp: card_insert_if split: option.splits)
  }
qed simp_all

lemma settle_ports [simp]: "bk_ports (bk_settle k) = bk_ports k" "bk_held (bk_settle k) = bk_held k" "bk_pins (bk_settle k) = bk_pins k"
  by (simp_all add: bk_settle_def)

lemma unpin_ports [simp]: "bk_ports (bk_unpin err k name) = bk_ports k" "bk_held (bk_unpin err k name) = bk_held k"
  by (simp_all add: bk_unpin_def)

lemma drop_ports [simp]: "bk_ports (ebpf_drop err h k) = bk_ports k"
  by (simp add: ebpf_drop_def Let_def)

lemma reconcile_card:
  assumes "card (bk_ports k) \<le> MAX_PORTS"
  shows "card (bk_ports (snd (reconcile_ports err order readable ports k))) \<le> MAX_PORTS"
proof -
  let ?r = "remove_ports err (order ({p \<in> bk_ports k. readable p} - set ports)) k"
  have "card (bk_ports (snd ?r)) \<le> MAX_PORTS" using assms by (rule loops_card(1))
  moreover have "snd (reconcile_ports err order readable ports k) \<in>
      {k, snd ?r, snd (insert_ports err (order (set ports - {p \<in> bk_ports k. readable p})) (snd ?r))}"
    by (auto simp: reconcile_ports_def Let_def split: option.splits prod.splits sum.splits)
  ultimately show ?thesis using assms loops_card(2) by auto
qed

text \<open>A failed attempt to adopt leaves in the map only what was there and configured ports.\<close>

lemma loops_subset:
  "bk_ports (snd (remove_ports err ps k)) \<subseteq> bk_ports k" "bk_ports (snd (insert_ports err ps k)) \<subseteq> bk_ports k \<union> set ps"
proof (induction ps arbitrary: k)
  case (Cons p ps)
  {
    case 1
    show ?case using Cons.IH(1) [of "k\<lparr>bk_ports := bk_ports k - {p}\<rparr>"] by (auto split: option.splits)
  next
    case 2
    show ?case using Cons.IH(2) [of "k\<lparr>bk_ports := insert p (bk_ports k)\<rparr>"] by (auto split: option.splits)
  }
qed simp_all

lemma reconcile_subset:
  assumes "order_ok order"
  shows "bk_ports (snd (reconcile_ports err order readable ports k)) \<subseteq> bk_ports k \<union> set ports"
proof -
  let ?r = "remove_ports err (order ({p \<in> bk_ports k. readable p} - set ports)) k"
  let ?ps = "order (set ports - {p \<in> bk_ports k. readable p})"
  have "set ?ps \<subseteq> set ports" using assms by (auto simp: order_ok_def)
  then have "bk_ports (snd (insert_ports err ?ps (snd ?r))) \<subseteq> bk_ports k \<union> set ports" "bk_ports (snd ?r) \<subseteq> bk_ports k \<union> set ports"
    using loops_subset by (blast dest: subsetD)+
  moreover have "snd (reconcile_ports err order readable ports k) \<in> {k, snd ?r, snd (insert_ports err ?ps (snd ?r))}"
    by (auto simp: reconcile_ports_def Let_def split: option.splits prod.splits sum.splits)
  ultimately show ?thesis by auto
qed

lemma adopt_ebpf_subset:
  assumes "adopt_ebpf err order readable root ports k = (Inl e, k1)" "order_ok order"
  shows "bk_ports k1 \<subseteq> bk_ports k \<union> set ports"
proof -
  have "bk_ports k1 \<subseteq> bk_ports k0 \<union> set ports" if "with_ports err order readable ports h k0 = (Inl e, k1)" for h k0
    using that reconcile_subset [OF assms(2), of err readable ports k0]
    by (auto simp: with_ports_def split: prod.splits sum.splits)
  from this [of _ "k\<lparr>bk_held := True\<rparr>"] assms(1) show ?thesis
    by (fastforce simp: adopt_ebpf_def Let_def bpf_try_def split: option.splits if_splits)
qed

lemma load_ebpf_Inr:
  assumes "load_ebpf err order readable iface ports k = (Inr h, k')" "order_ok order" "bpf_idle k"
  shows "bpf_loaded k' \<and> set ports \<subseteq> bk_ports k' \<and> bk_ports k' \<subseteq> set ports \<union> {p \<in> bk_ports k. \<not> readable p}"
proof -
  let ?root = "pin_root_for iface"
  consider (adopt) "LINK_PIN_NAME \<in> bk_pins k" "adopt_ebpf err order readable ?root ports k = (Inr h, k')"
    | (cold) k1 where "cold_boot_ebpf err order readable ?root ports k1 = (Inr h, k')" "bk_ports k1 \<subseteq> bk_ports k \<union> set ports"
  proof (cases "LINK_PIN_NAME \<in> bk_pins k")
    case True
    obtain r k1 where r: "adopt_ebpf err order readable ?root ports k = (r, k1)" by fastforce
    show ?thesis
    proof (cases r)
      case (Inl e)
      have "bk_ports (clear_stale_pins err k1) \<subseteq> bk_ports k \<union> set ports"
        using adopt_ebpf_subset [OF r [unfolded Inl] assms(2)] by (simp add: clear_stale_pins_def)
      then show ?thesis using that(2) assms(1) True r Inl by (simp add: load_ebpf_def Let_def)
    next
      case (Inr h1)
      then show ?thesis using that(1) [OF True] assms(1) True r by (simp add: load_ebpf_def Let_def)
    qed
  qed (use that(2) [of k] assms(1) in \<open>auto simp: load_ebpf_def Let_def\<close>)
  then show ?thesis
  proof cases
    case adopt
    then show ?thesis using adopt_ebpf_Inr [OF adopt(2) assms(2)] assms(3) by (auto simp: bpf_loaded_def bpf_idle_def)
  next
    case cold
    then show ?thesis using cold_boot_Inr [OF cold(1) assms(2)] by (auto simp: bk_load_def split: if_splits)
  qed
qed

lemma adopt_ebpf_Inl:
  assumes "adopt_ebpf err order readable root ports k = (Inl e, k1)" "\<not> bk_held k" "card (bk_ports k) \<le> MAX_PORTS"
  shows "\<not> bk_held k1" "card (bk_ports k1) \<le> MAX_PORTS"
proof -
  have ports: "\<not> bk_held k1 \<and> card (bk_ports k1) \<le> MAX_PORTS"
    if "with_ports err order readable ports h k0 = (Inl e, k1)" "card (bk_ports k0) \<le> MAX_PORTS" for h k0
    using that(1) reconcile_card [OF that(2), of err order readable ports]
    by (auto simp: with_ports_def ebpf_drop_def Let_def split: prod.splits sum.splits)
  have "\<not> bk_held k1 \<and> card (bk_ports k1) \<le> MAX_PORTS"
    using assms ports [of _ "k\<lparr>bk_held := True\<rparr>"] by (auto simp: adopt_ebpf_def Let_def bpf_try_def split: option.splits if_splits)
  then show "\<not> bk_held k1" "card (bk_ports k1) \<le> MAX_PORTS" by simp_all
qed

lemma clear_stale_clean:
  assumes "no_bpf_errors err" "\<not> bk_held k"
  shows "LINK_PIN_NAME \<notin> bk_pins (clear_stale_pins err k)" "bk_link (clear_stale_pins err k) = None" "bk_ports (clear_stale_pins err k) = bk_ports k"
  using assms by (auto simp: clear_stale_pins_def bk_unpin_def bk_settle_def no_bpf_errors_def)

lemma load_ebpf_iff:
  assumes "no_bpf_errors err" "order_ok order" "\<forall>p. readable p" "card (bk_ports k) \<le> MAX_PORTS" "bpf_idle k"
  shows "(\<exists>h k'. load_ebpf err order readable iface ports k = (Inr h, k')) \<longleftrightarrow> card (set ports) \<le> MAX_PORTS"
proof (cases "LINK_PIN_NAME \<in> bk_pins k")
  case True
  show ?thesis
  proof (cases "adopt_ebpf err order readable (pin_root_for iface) ports k")
    case (Pair r k1)
    show ?thesis
    proof (cases r)
      case (Inl e)
      note failed = adopt_ebpf_Inl [OF Pair [unfolded Inl]]
      have idle: "\<not> bk_held k" using assms(5) by (simp add: bpf_idle_def)
      note clean = clear_stale_clean [OF assms(1) failed(1) [OF idle assms(4)]]
      from cold_boot_iff [OF assms(1-3), of "clear_stale_pins err k1" "pin_root_for iface" ports] show ?thesis
        using clean failed(2) [OF idle assms(4)] True Pair Inl by (simp add: load_ebpf_def Let_def)
    next
      case (Inr h)
      then have "\<exists>h' k'. with_ports err order readable ports \<lparr>eh_pin_root = pin_root_for iface, eh_handoff = False\<rparr> (k\<lparr>bk_held := True\<rparr>) = (Inr h', k')"
        using Pair by (auto simp: adopt_ebpf_def Let_def bpf_try_Inr split: if_splits)
      then have "card (set ports) \<le> MAX_PORTS" using with_ports_iff [OF assms(1-3), of "k\<lparr>bk_held := True\<rparr>"] assms(4) by auto
      with True Pair Inr show ?thesis by (simp add: load_ebpf_def Let_def)
    qed
  qed
next
  case False
  then show ?thesis using cold_boot_iff [OF assms(1-4), of "pin_root_for iface" ports] assms(5) by (simp add: load_ebpf_def Let_def bpf_idle_def)
qed

text \<open>A kernel without any pin, and one with an attached program for port 443 and one registered socket.\<close>

definition fresh_kernel :: bpf_kernel where
  "fresh_kernel = \<lparr>bk_pins = {}, bk_dir = False, bk_ports = {}, bk_xsks = (\<lambda>_. None), bk_link = None, bk_held = False, bk_next = 0\<rparr>"

definition loaded_kernel :: bpf_kernel where
  "loaded_kernel = \<lparr>bk_pins = {LINK_PIN_NAME, XSKS_MAP_NAME, PORTS_MAP_NAME}, bk_dir = True, bk_ports = {443},
     bk_xsks = (\<lambda>_. None)(0 := Some 9, 1 := Some 10), bk_link = Some 0, bk_held = True, bk_next = 1\<rparr>"

lemma order_ok_sorted: "order_ok sorted_list_of_set"
  by (simp add: order_ok_def)

section \<open>Properties\<close>

text \<open>
  C16. The ports the kernel filters for. Whether a load adopts a pinned program or starts a new one, and whatever the
  map held before: if it succeeds, the program is attached and pinned, and its map holds the configured ports
  and otherwise at most old keys that the iterator over the map failed to return. So a frame that the daemon
  parses, without long IPv6 extension headers and on a queue whose socket can be redirected to, reaches that
  socket if its service port is configured, and is passed on if it is not configured and no such old key. If
  no call fails and the iterator returns every key, loading succeeds exactly if at most 64 different ports
  are configured.
\<close>

theorem load_ebpf_ports:
  assumes "order_ok order" "bpf_idle k"
  shows "(load_ebpf err order readable iface ports k = (Inr h, k') \<longrightarrow>
      bpf_loaded k' \<and> set ports \<subseteq> bk_ports k' \<and> bk_ports k' \<subseteq> set ports \<union> {p \<in> bk_ports k. \<not> readable p} \<and>
      (parse_frame frame = Some (Some p) \<longrightarrow> headers_short frame \<longrightarrow> redirect queue = Some XDP_REDIRECT \<longrightarrow>
        (service_port p \<in> set ports \<longrightarrow> pesigitg (\<lambda>port. port \<in> bk_ports k') redirect queue frame = XDP_REDIRECT) \<and>
        (service_port p \<notin> set ports \<longrightarrow> readable (service_port p) \<longrightarrow>
           pesigitg (\<lambda>port. port \<in> bk_ports k') redirect queue frame = XDP_PASS))) \<and>
    (no_bpf_errors err \<longrightarrow> (\<forall>p. readable p) \<longrightarrow> card (bk_ports k) \<le> MAX_PORTS \<longrightarrow>
      (\<exists>h k'. load_ebpf err order readable iface ports k = (Inr h, k')) \<longleftrightarrow> card (set ports) \<le> MAX_PORTS)"
proof (intro conjI impI)
  assume "load_ebpf err order readable iface ports k = (Inr h, k')"
  note loaded = load_ebpf_Inr [OF this assms]
  then show "bpf_loaded k'" "set ports \<subseteq> bk_ports k'" "bk_ports k' \<subseteq> set ports \<union> {p \<in> bk_ports k. \<not> readable p}" by blast+
  assume "parse_frame frame = Some (Some p)" "headers_short frame" "redirect queue = Some XDP_REDIRECT"
  then have found: "pesigitg (\<lambda>port. port \<in> bk_ports k') redirect queue frame =
      (if service_port p \<in> bk_ports k' then XDP_REDIRECT else XDP_PASS)" by (rule filter_agrees)
  show "pesigitg (\<lambda>port. port \<in> bk_ports k') redirect queue frame = XDP_REDIRECT" if "service_port p \<in> set ports"
    using that loaded found by auto
  show "pesigitg (\<lambda>port. port \<in> bk_ports k') redirect queue frame = XDP_PASS" if "service_port p \<notin> set ports" "readable (service_port p)"
    using that loaded found by auto
qed (use load_ebpf_iff [OF _ assms(1) _ _ assms(2)] in blast)

theorem load_ebpf_ports_witness:
  "\<exists>h k'. load_ebpf (\<lambda>_. None) sorted_list_of_set (\<lambda>_. True) ''eth0'' [443, 8443] fresh_kernel = (Inr h, k') \<and>
     bpf_loaded k' \<and> bk_ports k' = {443, 8443} \<and>
     pesigitg (\<lambda>port. port \<in> bk_ports k') (\<lambda>_. Some XDP_REDIRECT) 0 (sample_udp_frame [1]) = XDP_REDIRECT"
proof -
  have idle: "bpf_idle fresh_kernel" "bk_ports fresh_kernel = {}" by (simp_all add: bpf_idle_def fresh_kernel_def)
  have "no_bpf_errors (\<lambda>_. None)" "card (set [443, 8443 :: u16]) \<le> MAX_PORTS"
    by (simp_all add: no_bpf_errors_def MAX_PORTS_def card_insert_if)
  then obtain h k' where load: "load_ebpf (\<lambda>_. None) sorted_list_of_set (\<lambda>_. True) ''eth0'' [443, 8443] fresh_kernel = (Inr h, k')"
    using conjunct2 [OF load_ebpf_ports [OF order_ok_sorted idle(1), of "\<lambda>_. None" "\<lambda>_. True" "''eth0''" "[443, 8443]"]] idle(2) by auto
  from load_ebpf_ports [OF order_ok_sorted idle(1), of "\<lambda>_. None" "\<lambda>_. True" "''eth0''" "[443, 8443]" h k' "sample_udp_frame [1]"
      _ "\<lambda>_. Some XDP_REDIRECT" 0] load parse_frame_sample_udp sample_udp_short
  have "bpf_loaded k' \<and> set [443, 8443] \<subseteq> bk_ports k' \<and> bk_ports k' \<subseteq> set [443, 8443] \<and>
      pesigitg (\<lambda>port. port \<in> bk_ports k') (\<lambda>_. Some XDP_REDIRECT) 0 (sample_udp_frame [1]) = XDP_REDIRECT"
    by (simp add: service_port_def)
  with load show ?thesis by auto
qed

text \<open>
  C15. Handing over and shutting down. Provided that no call fails and that the iterator over the map of ports returns
  every key: after a handoff the program of the daemon stays attached, and the next load adopts this very
  program with the new set of ports; of the slots for sockets, exactly those of sockets that the service
  manager kept open are still filled, and registering a socket fills the slot of its queue. After an ordinary
  shutdown the program is detached, and the next load attaches a new one with all slots empty.
\<close>

theorem handoff_keeps_program:
  assumes "order_ok order" "\<forall>p. readable p" "bpf_loaded k" "card (bk_ports k) \<le> MAX_PORTS" "no_bpf_errors err" "card (set ports) \<le> MAX_PORTS"
  shows "bk_link (handoff_shutdown err kept h k) = bk_link k \<and>
    (\<exists>h2 k2. load_ebpf err order readable iface ports (handoff_shutdown err kept h k) = (Inr h2, k2) \<and>
       bk_link k2 = bk_link k \<and> bk_ports k2 = set ports \<and>
       (\<forall>q f. bk_xsks k2 q = Some f \<longleftrightarrow> bk_xsks k q = Some f \<and> f \<in> kept) \<and>
       (\<exists>k3. register_xsk err q f k2 = (Inr (), k3) \<and> bk_xsks k3 = (bk_xsks k2)(q \<mapsto> f) \<and> bk_link k3 = bk_link k)) \<and>
    (\<not> eh_handoff h \<longrightarrow> bk_link (cold_shutdown err h k) = None \<and>
      (\<exists>h2 k2. load_ebpf err order readable iface ports (cold_shutdown err h k) = (Inr h2, k2) \<and>
         bk_link k2 = Some (bk_next (cold_shutdown err h k)) \<and> bk_xsks k2 = (\<lambda>_. None) \<and> bk_ports k2 = set ports))"
proof (intro conjI impI)
  have none: "err c = None" for c using assms(5) by (simp add: no_bpf_errors_def)
  have released: "bpf_loaded (bk_release kept k)" for kept using assms(3) by (simp add: bpf_loaded_def bk_release_def)
  note kept = drop_handoff [OF released [of kept], of err h]
  show "bk_link (handoff_shutdown err kept h k) = bk_link k" by (simp add: handoff_shutdown_def kept(1)) (simp add: bk_release_def)
  let ?k = "(bk_release kept k)\<lparr>bk_held := True\<rparr>" and ?h = "\<lparr>eh_pin_root = pin_root_for iface, eh_handoff = False\<rparr>"
  have pins: "LINK_PIN_NAME \<in> bk_pins k" "XSKS_MAP_NAME \<in> bk_pins k" "PORTS_MAP_NAME \<in> bk_pins k" using assms(3) by (simp_all add: bpf_loaded_def)
  obtain h2 k2 where w: "with_ports err order readable ports ?h ?k = (Inr h2, k2)"
    using with_ports_iff [OF assms(5,1,2), of ?k ports ?h] assms(4,6) by (auto simp: bk_release_def)
  have load: "load_ebpf err order readable iface ports (handoff_shutdown err kept h k) = (Inr h2, k2)"
    unfolding handoff_shutdown_def kept(1) using w pins by (simp add: load_ebpf_def Let_def adopt_ebpf_def bpf_try_def none bk_release_def)
  have k2: "k2 = ?k\<lparr>bk_ports := set ports\<rparr>" using with_ports_Inr [OF w assms(1)] assms(2) by simp
  have "register_xsk err q f k2 = (Inr (), k2\<lparr>bk_xsks := (bk_xsks k2)(q \<mapsto> f)\<rparr>)" by (simp add: register_xsk_def none)
  with load show "\<exists>h2 k2. load_ebpf err order readable iface ports (handoff_shutdown err kept h k) = (Inr h2, k2) \<and>
      bk_link k2 = bk_link k \<and> bk_ports k2 = set ports \<and> (\<forall>q f. bk_xsks k2 q = Some f \<longleftrightarrow> bk_xsks k q = Some f \<and> f \<in> kept) \<and>
      (\<exists>k3. register_xsk err q f k2 = (Inr (), k3) \<and> bk_xsks k3 = (bk_xsks k2)(q \<mapsto> f) \<and> bk_link k3 = bk_link k)"
    by (intro exI [of _ h2] exI [of _ k2]) (auto simp: k2 bk_release_def split: option.splits if_splits)
next
  assume cold: "\<not> eh_handoff h"
  have removed: "\<forall>name. err (RemoveFile name) = None" using assms(5) by (simp add: no_bpf_errors_def)
  let ?k = "cold_shutdown err h k"
  note gone = drop_cold [OF cold removed, of "bk_release {} k", folded cold_shutdown_def]
  show "bk_link ?k = None" by (rule gone(1))
  have idle: "bpf_idle ?k" using gone by (simp add: bpf_idle_def)
  have "bk_ports ?k = bk_ports k" by (simp add: cold_shutdown_def ebpf_drop_def Let_def bk_release_def)
  then obtain h2 k2 where load: "load_ebpf err order readable iface ports ?k = (Inr h2, k2)"
    using load_ebpf_iff [OF assms(5,1,2) _ idle, of iface ports] assms(4,6) by auto
  then have boot: "cold_boot_ebpf err order readable (pin_root_for iface) ports ?k = (Inr h2, k2)"
    using gone(2) by (simp add: load_ebpf_def Let_def)
  have "XSKS_MAP_NAME \<notin> bk_pins ?k" using gone(2) by simp
  then have "bk_xsks (bk_load ?k) = (\<lambda>_. None)" by (simp add: bk_load_def)
  with cold_boot_Inr [OF boot assms(1)] load assms(2) show "\<exists>h2 k2. load_ebpf err order readable iface ports ?k = (Inr h2, k2) \<and>
      bk_link k2 = Some (bk_next ?k) \<and> bk_xsks k2 = (\<lambda>_. None) \<and> bk_ports k2 = set ports" by auto
qed

theorem handoff_keeps_program_witness:
  "\<exists>h2 k2. load_ebpf (\<lambda>_. None) sorted_list_of_set (\<lambda>_. True) ''eth0'' [8443]
      (handoff_shutdown (\<lambda>_. None) {9} \<lparr>eh_pin_root = ''/sys/fs/bpf/pesigitg/eth0'', eh_handoff = False\<rparr> loaded_kernel) = (Inr h2, k2) \<and>
    bk_link k2 = Some 0 \<and> bk_xsks k2 0 = Some 9 \<and> bk_xsks k2 1 = None \<and> bk_ports k2 = {8443}"
proof -
  have "bpf_loaded loaded_kernel" "card (bk_ports loaded_kernel) \<le> MAX_PORTS" "card (set [8443 :: u16]) \<le> MAX_PORTS" "no_bpf_errors (\<lambda>_. None)"
    by (simp_all add: bpf_loaded_def loaded_kernel_def no_bpf_errors_def MAX_PORTS_def)
  from handoff_keeps_program [OF order_ok_sorted _ this(1,2,4,3), of "\<lambda>_. True" "{9}"
    "\<lparr>eh_pin_root = ''/sys/fs/bpf/pesigitg/eth0'', eh_handoff = False\<rparr>" "''eth0''" 1 12]
  obtain h2 k2 where k2: "load_ebpf (\<lambda>_. None) sorted_list_of_set (\<lambda>_. True) ''eth0'' [8443]
      (handoff_shutdown (\<lambda>_. None) {9} \<lparr>eh_pin_root = ''/sys/fs/bpf/pesigitg/eth0'', eh_handoff = False\<rparr> loaded_kernel) = (Inr h2, k2)"
      "bk_link k2 = bk_link loaded_kernel" "bk_ports k2 = set [8443]"
      "\<And>q f. bk_xsks k2 q = Some f \<longleftrightarrow> bk_xsks loaded_kernel q = Some f \<and> f \<in> {9}" by auto
  have "bk_xsks k2 1 \<noteq> Some f" for f using k2(4) [of 1 f] by (simp add: loaded_kernel_def)
  then have "bk_xsks k2 1 = None" by (cases "bk_xsks k2 1") auto
  moreover have "bk_xsks k2 0 = Some 9" using k2(4) [of 0 9] by (simp add: loaded_kernel_def)
  ultimately show ?thesis using k2(1-3) by (auto simp: loaded_kernel_def)
qed

end
