(* ===== verification/Daemon_Config.thy ===== *)
theory Daemon_Config
  imports Rust_Text
begin

text \<open>
  The daemon's own configuration: the file reader of \<open>pesigitg-daemon/src/config/daemon.rs\<close> and the merge of
  command line, file and defaults of \<open>args.rs\<close>. The file system is a parameter: the size of a file and its
  text, or an error message. The command line arrives parsed (\<open>parse_cli\<close> is a wrapper around the
  \<open>pico_args\<close> library). Warnings about unknown lines go to standard error and are left out.
\<close>

section \<open>Operations\<close>

definition DEFAULT_INTF :: string where "DEFAULT_INTF = ''eth0''"
definition DEFAULT_ROUTE_CONFIG :: string where "DEFAULT_ROUTE_CONFIG = ''/etc/pesigitg/lb.toml''"
definition MAX_CONFIG_SIZE :: nat where "MAX_CONFIG_SIZE = 1000000"

record file_config =
  fc_ports :: "u16 list"
  fc_interface :: string
  fc_queues :: nat
  fc_route_config :: "string option"
  fc_status_socket :: "string option"

datatype file_error = FileIo string | FileTooLarge nat | InvalidNumber string | QueuesOutOfRange nat

definition parse_uint :: "nat \<Rightarrow> string \<Rightarrow> file_error + nat" where
  "parse_uint bits s = (case from_str_radix bits 10 s of Some n \<Rightarrow> Inr n | None \<Rightarrow> Inl (InvalidNumber s))"

text \<open>Setting a key to a value, and one line of the file; \<open>path\<close> is the path of the file.\<close>

definition config_key :: "string \<Rightarrow> file_config \<Rightarrow> string \<Rightarrow> string \<Rightarrow> file_error + file_config" where
  "config_key path fc k v =
     (if k = ''port'' then
        (case parse_uint 16 v of
           Inl e \<Rightarrow> Inl e
         | Inr p \<Rightarrow> Inr (fc\<lparr>fc_ports := fc_ports fc @ [of_nat p]\<rparr>))
      else if k = ''interface'' then Inr (fc\<lparr>fc_interface := v\<rparr>)
      else if k = ''queues'' then
        (case parse_uint 32 v of
           Inl e \<Rightarrow> Inl e
         | Inr q \<Rightarrow> if q = 0 \<or> q > MAX_QUEUES then Inl (QueuesOutOfRange q) else Inr (fc\<lparr>fc_queues := q\<rparr>))
      else if k = ''route_config'' then
        Inr (fc\<lparr>fc_route_config := Some (if is_relative v
          then path_join (case path_parent path of Some d \<Rightarrow> d | None \<Rightarrow> path) v else v)\<rparr>)
      else if k = ''status_socket'' then Inr (if v \<noteq> [] then fc\<lparr>fc_status_socket := Some v\<rparr> else fc)
      else Inr fc)"

definition config_line :: "string \<Rightarrow> file_config \<Rightarrow> string \<Rightarrow> file_error + file_config" where
  "config_line path fc line =
     (let line = trim line in
      if line = [] \<or> hd line = CHR ''#'' then Inr fc
      else case split_once (CHR ''='') line of
        None \<Rightarrow> Inr fc
      | Some (k, v) \<Rightarrow> config_key path fc (trim k) (trim v))"

fun config_lines :: "string \<Rightarrow> file_config \<Rightarrow> string list \<Rightarrow> file_error + file_config" where
  "config_lines path fc [] = Inr fc"
| "config_lines path fc (line # rest) =
     (case config_line path fc line of Inl e \<Rightarrow> Inl e | Inr fc \<Rightarrow> config_lines path fc rest)"

definition file_config_default :: file_config where
  "file_config_default =
     \<lparr>fc_ports = [], fc_interface = DEFAULT_INTF, fc_queues = DEFAULT_QUEUES, fc_route_config = None,
      fc_status_socket = None\<rparr>"

definition file_config_from_file ::
  "(string \<Rightarrow> string + nat) \<Rightarrow> (string \<Rightarrow> string + string) \<Rightarrow> string \<Rightarrow> file_error + file_config" where
  "file_config_from_file metadata read_to_string path =
     (case metadata path of
        Inl e \<Rightarrow> Inl (FileIo e)
      | Inr len \<Rightarrow>
          if len > MAX_CONFIG_SIZE then Inl (FileTooLarge len)
          else case read_to_string path of
            Inl e \<Rightarrow> Inl (FileIo e)
          | Inr content \<Rightarrow> config_lines path file_config_default (lines content))"

record args =
  ar_ports :: "u16 list"
  ar_interface :: string
  ar_queues :: nat
  ar_config :: "string option"
  ar_routeconfig :: "string option"
  ar_status_socket :: "string option"
  ar_foreground :: bool

record cli_args =
  cli_ports :: "u16 list"
  cli_interface :: "string option"
  cli_queues :: "nat option"
  cli_config :: "string option"
  cli_status_socket :: "string option"
  cli_foreground :: bool

text \<open>\<open>Option::or\<close>.\<close>

fun or_else :: "'a option \<Rightarrow> 'a option \<Rightarrow> 'a option" where
  "or_else (Some x) _ = Some x"
| "or_else None y = y"

definition merge_args :: "cli_args \<Rightarrow> file_config option \<Rightarrow> file_error + args" where
  "merge_args cli file_config =
     (let queues = (case or_else (cli_queues cli) (map_option fc_queues file_config) of
          Some q \<Rightarrow> q | None \<Rightarrow> DEFAULT_QUEUES) in
      if queues = 0 \<or> queues > MAX_QUEUES then Inl (QueuesOutOfRange queues)
      else Inr \<lparr>
        ar_ports = (if cli_ports cli \<noteq> [] then cli_ports cli
                    else case file_config of Some fc \<Rightarrow> fc_ports fc | None \<Rightarrow> [DEFAULT_PORT]),
        ar_interface = (case or_else (cli_interface cli) (map_option fc_interface file_config) of
          Some i \<Rightarrow> i | None \<Rightarrow> DEFAULT_INTF),
        ar_queues = queues,
        ar_config = cli_config cli,
        ar_routeconfig = Option.bind file_config fc_route_config,
        ar_status_socket = or_else (cli_status_socket cli) (Option.bind file_config fc_status_socket),
        ar_foreground = cli_foreground cli\<rparr>)"

text \<open>The end of \<open>parse_args\<close>, and the port on which \<open>main\<close> probes the backends.\<close>

definition parse_args ::
  "(string \<Rightarrow> string + nat) \<Rightarrow> (string \<Rightarrow> string + string) \<Rightarrow> cli_args \<Rightarrow> file_error + args" where
  "parse_args metadata read_to_string cli =
     (case cli_config cli of
        None \<Rightarrow> merge_args cli None
      | Some path \<Rightarrow>
          (case file_config_from_file metadata read_to_string path of
             Inl e \<Rightarrow> Inl e
           | Inr fc \<Rightarrow> merge_args cli (Some fc)))"

definition probe_port :: "args \<Rightarrow> u16 run" where
  "probe_port args = idx (ar_ports args) 0"

section \<open>Reading a file\<close>

text \<open>The text of a line that sets a key, and of a whole configuration.\<close>

definition assign :: "string \<Rightarrow> string \<Rightarrow> string" where
  "assign key v = key @ '' = '' @ v"

definition config_text :: "file_config \<Rightarrow> string list" where
  "config_text fc =
     map (\<lambda>p. assign ''port'' (dec (unat p))) (fc_ports fc) @
     [assign ''interface'' (fc_interface fc), assign ''queues'' (dec (fc_queues fc))] @
     (case fc_route_config fc of Some p \<Rightarrow> [assign ''route_config'' p] | None \<Rightarrow> []) @
     (case fc_status_socket fc of Some p \<Rightarrow> [assign ''status_socket'' p] | None \<Rightarrow> [])"

definition writable :: "string \<Rightarrow> bool" where
  "writable v \<longleftrightarrow> tidy v \<and> newline \<notin> set v"

definition config_writable :: "file_config \<Rightarrow> bool" where
  "config_writable fc \<longleftrightarrow>
     writable (fc_interface fc) \<and> 0 < fc_queues fc \<and> fc_queues fc \<le> MAX_QUEUES \<and>
     (case fc_route_config fc of Some p \<Rightarrow> writable p \<and> \<not> is_relative p | None \<Rightarrow> True) \<and>
     (case fc_status_socket fc of Some p \<Rightarrow> writable p | None \<Rightarrow> True)"

lemma tidy_nonempty: "tidy v \<Longrightarrow> v \<noteq> []"
  by (simp add: tidy_def)

lemma digit_not_newline: "digit c \<Longrightarrow> c \<noteq> newline"
  by (auto simp: digit_def newline_def)

lemma writable_dec [simp]: "writable (dec n)"
  using dec_digits digit_not_newline by (auto simp: writable_def)

definition plain_key :: "string \<Rightarrow> bool" where
  "plain_key k \<longleftrightarrow> tidy k \<and> hd k \<noteq> CHR ''#'' \<and> CHR ''='' \<notin> set k \<and> newline \<notin> set k"

lemma plain_keys [simp]:
  "plain_key ''port''" "plain_key ''interface''" "plain_key ''queues''" "plain_key ''route_config''" "plain_key ''status_socket''"
  by (simp_all add: plain_key_def tidy_def graphic_def newline_def char_of_eq_iff)

lemma split_assign:
  assumes "plain_key key" "tidy v"
  shows "trim (assign key v) = assign key v" "assign key v \<noteq> []" "hd (assign key v) \<noteq> CHR ''#''"
    "split_once (CHR ''='') (assign key v) = Some (key @ '' '', CHR '' '' # v)"
proof -
  have "tidy (assign key v)" using assms by (simp add: tidy_def plain_key_def assign_def)
  then show "trim (assign key v) = assign key v" by simp
  show "assign key v \<noteq> []" by (simp add: assign_def)
  show "hd (assign key v) \<noteq> CHR ''#''" using assms by (simp add: tidy_def plain_key_def assign_def)
  show "split_once (CHR ''='') (assign key v) = Some (key @ '' '', CHR '' '' # v)"
    using assms split_once_app [of "CHR ''=''" "key @ '' ''" "CHR '' '' # v"] by (simp add: plain_key_def assign_def)
qed

lemma config_line_assign: "plain_key key \<Longrightarrow> tidy v \<Longrightarrow> config_line path fc (assign key v) = config_key path fc key v"
  by (simp add: config_line_def split_assign plain_key_def)

lemma config_line_port: "config_line path fc (assign ''port'' (dec (unat p))) = Inr (fc\<lparr>fc_ports := fc_ports fc @ [p]\<rparr>)"
proof -
  have "unat p < 65536" using unsigned_less [of p, where 'a = nat] by simp
  then show ?thesis by (simp add: config_line_assign config_key_def parse_uint_def from_str_radix_dec)
qed

lemma config_lines_append:
  "config_lines path fc (a @ b) = (case config_lines path fc a of Inl e \<Rightarrow> Inl e | Inr fc' \<Rightarrow> config_lines path fc' b)"
  by (induction a arbitrary: fc) (auto split: sum.splits)

lemma config_lines_ports:
  "config_lines path fc (map (\<lambda>p. assign ''port'' (dec (unat p))) ps) = Inr (fc\<lparr>fc_ports := fc_ports fc @ ps\<rparr>)"
  by (induction ps arbitrary: fc) (simp_all add: config_line_port)

definition setting :: "string \<Rightarrow> bool" where
  "setting l \<longleftrightarrow> (\<exists>key v. plain_key key \<and> writable v \<and> l = assign key v)"

lemma settingI: "plain_key key \<Longrightarrow> writable v \<Longrightarrow> setting (assign key v)"
  by (auto simp: setting_def)

lemma lines_assign:
  assumes "list_all setting ls"
  shows "lines (concat (map (\<lambda>l. l @ [newline]) ls)) = ls"
  using assms
proof (induction ls)
  case (Cons l ls)
  then obtain key v where l: "plain_key key" "writable v" "l = assign key v" by (auto simp: setting_def)
  have "newline \<noteq> CHR '' ''" "newline \<noteq> CHR ''=''" by (simp_all add: newline_def char_of_eq_iff)
  with l have "newline \<notin> set l" by (simp add: plain_key_def writable_def assign_def)
  moreover have "graphic (last l)" using l by (simp add: writable_def tidy_def assign_def)
  then have "last l \<noteq> carriage_return" by (auto simp: graphic_def carriage_return_def)
  ultimately show ?case using lines_Cons [of l "concat (map (\<lambda>l. l @ [newline]) ls)"] Cons by simp
qed simp

lemma config_lines_text:
  assumes "config_writable fc"
  shows "config_lines path file_config_default (config_text fc) = Inr fc"
proof -
  have "fc_queues fc < 4294967296" using assms by (simp add: config_writable_def)
  with assms show ?thesis
    unfolding config_text_def config_lines_append config_lines_ports config_writable_def writable_def
    by (cases fc) (auto simp: config_line_assign config_key_def parse_uint_def from_str_radix_dec file_config_default_def tidy_nonempty split: option.splits)
qed

text \<open>The lines that set a port.\<close>

definition sets_port :: "string \<Rightarrow> bool" where
  "sets_port line \<longleftrightarrow>
     trim line \<noteq> [] \<and> hd (trim line) \<noteq> CHR ''#'' \<and>
     (case split_once (CHR ''='') (trim line) of None \<Rightarrow> False | Some (k, _) \<Rightarrow> trim k = ''port'')"

lemma config_line_ports:
  assumes "config_line path fc line = Inr fc'"
  shows "length (fc_ports fc') = length (fc_ports fc) + (if sets_port line then 1 else 0)"
proof -
  have key: "length (fc_ports fc') = length (fc_ports fc) + (if k = ''port'' then 1 else 0)"
    if "config_key path fc k v = Inr fc'" for k v
    using that by (auto simp: config_key_def split: if_splits sum.splits)
  with assms show ?thesis
    unfolding config_line_def sets_port_def Let_def
    by (cases "split_once (CHR ''='') (trim line)") (auto split: if_splits)
qed

lemma config_lines_count_ports:
  "config_lines path fc ls = Inr fc' \<Longrightarrow> length (fc_ports fc') = length (fc_ports fc) + length (filter sets_port ls)"
  by (induction ls arbitrary: fc) (auto split: sum.splits dest: config_line_ports)

section \<open>Properties\<close>

text \<open>
  A configuration file is read back. For any configuration with visible names, absolute paths and a
  legal number of queues, written as one \<open>key = value\<close> line for each setting, reading the file gives the
  same configuration.
\<close>

lemma config_file_round_trip:
  assumes "config_writable fc" "metadata path = Inr len" "len \<le> MAX_CONFIG_SIZE"
    "read_to_string path = Inr (concat (map (\<lambda>l. l @ [newline]) (config_text fc)))"
  shows "file_config_from_file metadata read_to_string path = Inr fc"
proof -
  have "list_all setting (config_text fc)"
    using assms(1)
    by (simp add: config_text_def config_writable_def list_all_iff ball_Un settingI split: option.splits)
  then have "lines (concat (map (\<lambda>l. l @ [newline]) (config_text fc))) = config_text fc"
    by (rule lines_assign)
  with assms show ?thesis
    by (simp add: file_config_from_file_def config_lines_text)
qed

text \<open>
  C33. When start-up fails on the probe port. Accepted arguments always ask for 1 to 256 queues, and the port
  the health checker takes from them is missing exactly when no port was given on the command line and the
  configuration file that was given has no line that sets one; the daemon panics there.
\<close>

theorem probe_port_panics_iff:
  assumes "parse_args metadata read_to_string cli = Inr args"
  shows "1 \<le> ar_queues args \<and> ar_queues args \<le> 256 \<and>
    (probe_port args = None \<longleftrightarrow> cli_ports cli = [] \<and>
      (\<exists>path content. cli_config cli = Some path \<and> read_to_string path = Inr content \<and>
         (\<forall>line \<in> set (lines content). \<not> sets_port line)))"
proof (cases "cli_config cli")
  case None
  with assms show ?thesis
    by (auto simp: parse_args_def merge_args_def probe_port_def idx_def Let_def split: if_splits)
next
  case (Some path)
  with assms obtain fc where fc: "file_config_from_file metadata read_to_string path = Inr fc"
    and merged: "merge_args cli (Some fc) = Inr args"
    by (auto simp: parse_args_def split: sum.splits)
  from fc obtain content where content: "read_to_string path = Inr content"
      "config_lines path file_config_default (lines content) = Inr fc"
    by (auto simp: file_config_from_file_def split: sum.splits if_splits)
  have "length (fc_ports fc) = length (filter sets_port (lines content))"
    using config_lines_count_ports [OF content(2)] by (simp add: file_config_default_def)
  then have "fc_ports fc = [] \<longleftrightarrow> filter sets_port (lines content) = []"
    by (metis length_0_conv)
  then have "fc_ports fc = [] \<longleftrightarrow> (\<forall>line \<in> set (lines content). \<not> sets_port line)"
    by (simp add: filter_empty_conv)
  with merged Some content(1) show ?thesis
    by (auto simp: merge_args_def probe_port_def idx_def Let_def split: if_splits)
qed

section \<open>Witnesses\<close>

definition sample_file_config :: file_config where
  "sample_file_config =
     \<lparr>fc_ports = [443, 8443], fc_interface = ''eth1'', fc_queues = 4, fc_route_config = Some ''/etc/lb.toml'',
      fc_status_socket = None\<rparr>"

definition no_ports_cli :: cli_args where
  "no_ports_cli = \<lparr>cli_ports = [], cli_interface = None, cli_queues = Some 2, cli_config = Some ''/etc/d.conf'',
     cli_status_socket = None, cli_foreground = True\<rparr>"

theorem probe_port_panics_iff_witness:
  "\<exists>args. parse_args (\<lambda>_. Inr 0) (\<lambda>_. Inr []) no_ports_cli = Inr args \<and> probe_port args = None"
proof -
  obtain args where "parse_args (\<lambda>_. Inr 0) (\<lambda>_. Inr []) no_ports_cli = Inr args"
    by (simp add: parse_args_def no_ports_cli_def file_config_from_file_def merge_args_def Let_def)
  with probe_port_panics_iff [OF this] show ?thesis by (auto simp: no_ports_cli_def)
qed

end
