(* ===== verification/Neigh.thy ===== *)
theory Neigh
  imports Route
begin

text \<open>
  \<open>pesigitg-daemon/src/neigh.rs\<close>: the kernel's neighbour table, read from a netlink dump, and the MAC
  addresses of the servers filled in from it. The structures of the kernel interface are read in the byte
  order of a little-endian target. What the kernel answers to the dump request is a parameter: the list
  of the results of \<open>recv\<close>, an error or a chunk of bytes.
\<close>

section \<open>Operations\<close>

definition NLMSG_ERROR :: u16 where [simp]: "NLMSG_ERROR = 2"
definition NLMSG_DONE :: u16 where [simp]: "NLMSG_DONE = 3"
definition RTM_NEWNEIGH :: u16 where [simp]: "RTM_NEWNEIGH = 28"
definition RTM_GETNEIGH :: u16 where [simp]: "RTM_GETNEIGH = 30"
definition NLM_F_REQUEST :: u16 where [simp]: "NLM_F_REQUEST = 1"
definition NLM_F_DUMP :: u16 where [simp]: "NLM_F_DUMP = 0x300"
definition AF_UNSPEC :: u8 where [simp]: "AF_UNSPEC = 0"
definition AF_INET :: u8 where [simp]: "AF_INET = 2"
definition AF_INET6 :: u8 where [simp]: "AF_INET6 = 10"
definition NUD_VALID :: u16 where "NUD_VALID = 0x02 OR 0x04 OR 0x08 OR 0x10 OR 0x80"
definition NDA_DST :: u16 where [simp]: "NDA_DST = 1"
definition NDA_LLADDR :: u16 where [simp]: "NDA_LLADDR = 2"

text \<open>The sizes of \<open>nlmsghdr\<close>, \<open>ndmsg\<close> and \<open>nlattr\<close>.\<close>

definition nlmsghdr_size :: nat where [simp]: "nlmsghdr_size = 16"
definition ndmsg_size :: nat where [simp]: "ndmsg_size = 12"
definition nlattr_size :: nat where [simp]: "nlattr_size = 4"

text \<open>A field of \<open>n\<close> bytes at an offset, in little-endian order.\<close>

definition read_le :: "bytes \<Rightarrow> nat \<Rightarrow> nat \<Rightarrow> 'a::len word run" where
  "read_le buf offset n = do { field \<leftarrow> slice buf offset (offset + n); ret (from_be (rev field)) }"

definition to_le :: "nat \<Rightarrow> 'a::len word \<Rightarrow> bytes" where
  "to_le n w = rev (to_be n w)"

definition nlmsg_align :: "nat \<Rightarrow> nat" where
  "nlmsg_align len = (len + 3) div 4 * 4"

type_synonym neigh_table = "ip_addr \<rightharpoonup> bytes"

definition build_dump_request_bytes :: bytes where
  "build_dump_request_bytes =
     to_le 4 (of_nat (nlmsghdr_size + ndmsg_size) :: u32) @ to_le 2 RTM_GETNEIGH @ to_le 2 (NLM_F_REQUEST OR NLM_F_DUMP) @
     to_le 4 (1 :: u32) @ to_le 4 (0 :: u32) @ AF_UNSPEC # replicate 11 0"

text \<open>The attribute that is found at an offset, applied to the address and MAC read so far.\<close>

definition apply_attr :: "u8 \<Rightarrow> u16 \<Rightarrow> bytes \<Rightarrow> ip_addr option \<times> bytes option \<Rightarrow> ip_addr option \<times> bytes option" where
  "apply_attr family nla_type data found =
     (let (dst_ip, lladdr) = found; type = nla_type AND 0x3fff in
      if type = NDA_DST \<and> family = AF_INET \<and> length data = 4 then (Some (V4 data), lladdr)
      else if type = NDA_DST \<and> family = AF_INET6 \<and> length data = 16 then (Some (V6 data), lladdr)
      else if type = NDA_LLADDR \<and> length data = 6 then (dst_ip, Some data)
      else found)"

text \<open>The loop over the attributes of a message.\<close>

function parse_attrs :: "u8 \<Rightarrow> bytes \<Rightarrow> nat \<Rightarrow> ip_addr option \<times> bytes option \<Rightarrow> (ip_addr option \<times> bytes option) run" where
  "parse_attrs family buf attr_offset found =
     (if attr_offset + nlattr_size \<le> length buf then do {
        len \<leftarrow> read_le buf attr_offset 2;
        nla_type \<leftarrow> read_le buf (attr_offset + 2) 2;
        let nla_len = unat (len :: u16);
        if nla_len < nlattr_size \<or> attr_offset + nla_len > length buf then ret found
        else do {
          data \<leftarrow> slice buf (attr_offset + nlattr_size) (attr_offset + nla_len);
          parse_attrs family buf (attr_offset + nlmsg_align nla_len) (apply_attr family nla_type data found)
        }
      }
      else ret found)"
  by pat_completeness auto
termination
  by (relation "measure (\<lambda>(family, buf, attr_offset, found). length buf - attr_offset)") (auto simp: nlmsg_align_def)

declare parse_attrs.simps [simp del]

definition parse_neigh_msg :: "bytes \<Rightarrow> neigh_table \<Rightarrow> neigh_table run" where
  "parse_neigh_msg buf table =
     (let hdr_len = nlmsg_align nlmsghdr_size; ndm_len = ndmsg_size in
      if length buf < hdr_len + ndm_len then ret table
      else do {
        family \<leftarrow> idx buf hdr_len;
        ndm_state \<leftarrow> read_le buf (hdr_len + 8) 2;
        if ndm_state AND NUD_VALID = 0 then ret table
        else if family \<noteq> AF_INET \<and> family \<noteq> AF_INET6 then ret table
        else do {
          found \<leftarrow> parse_attrs family buf (hdr_len + nlmsg_align ndm_len) (None, None);
          ret (case found of (Some ip, Some mac) \<Rightarrow> table(ip \<mapsto> mac) | _ \<Rightarrow> table)
        }
      })"

datatype chunk_outcome = ChunkContinue | ChunkDone | ChunkError

function process_chunk_at :: "bytes \<Rightarrow> nat \<Rightarrow> neigh_table \<Rightarrow> (chunk_outcome \<times> neigh_table) run" where
  "process_chunk_at buf offset table =
     (if offset + nlmsghdr_size \<le> length buf then do {
        len \<leftarrow> read_le buf offset 4;
        nlmsg_type \<leftarrow> read_le buf (offset + 4) 2;
        let msg_len = unat (len :: u32);
        if msg_len < nlmsghdr_size \<or> offset + msg_len > length buf then ret (ChunkContinue, table)
        else if nlmsg_type = NLMSG_DONE then ret (ChunkDone, table)
        else if nlmsg_type = NLMSG_ERROR then ret (ChunkError, table)
        else do {
          table \<leftarrow> (if nlmsg_type = RTM_NEWNEIGH
            then do { msg \<leftarrow> slice buf offset (offset + msg_len); parse_neigh_msg msg table }
            else ret table);
          process_chunk_at buf (offset + nlmsg_align msg_len) table
        }
      }
      else ret (ChunkContinue, table))"
  by pat_completeness auto
termination
  by (relation "measure (\<lambda>(buf, offset, table). length buf - offset)") (auto simp: nlmsg_align_def)

declare process_chunk_at.simps [simp del]

definition process_chunk :: "bytes \<Rightarrow> neigh_table \<Rightarrow> (chunk_outcome \<times> neigh_table) run" where
  "process_chunk buf table = process_chunk_at buf 0 table"

text \<open>\<open>recv_neigh_entries\<close> on what the kernel delivers; a dump that ends without a final message keeps the
  caller waiting, which is the result \<open>None\<close> inside.\<close>

fun recv_neigh_entries :: "(string + bytes) list \<Rightarrow> neigh_table \<Rightarrow> (string + neigh_table) option run" where
  "recv_neigh_entries [] table = ret None"
| "recv_neigh_entries (Inl e # replies) table = ret (Some (Inl e))"
| "recv_neigh_entries (Inr chunk # replies) table = do {
     (outcome, table) \<leftarrow> process_chunk chunk table;
     case outcome of
       ChunkContinue \<Rightarrow> recv_neigh_entries replies table
     | ChunkDone \<Rightarrow> ret (Some (Inr table))
     | ChunkError \<Rightarrow> ret (Some (Inl ''EPROTO''))
   }"

text \<open>\<open>resolve_macs\<close>, with the result of \<open>query_neighbour_table\<close> as the parameter \<open>query\<close>.\<close>

definition resolve_server :: "neigh_table \<Rightarrow> server \<Rightarrow> server" where
  "resolve_server table server =
     (if srv_mac server \<noteq> None then server
      else case table (srv_address server) of
        Some mac \<Rightarrow> server\<lparr>srv_mac := Some mac\<rparr>
      | None \<Rightarrow> server)"

definition resolve_macs :: "string + neigh_table \<Rightarrow> server list \<Rightarrow> server list" where
  "resolve_macs query servers =
     (if length (filter (\<lambda>s. srv_mac s = None) servers) = 0 then servers
      else case query of Inl _ \<Rightarrow> servers | Inr table \<Rightarrow> map (resolve_server table) servers)"

section \<open>Reading never panics\<close>

lemma align_ge: "n \<le> nlmsg_align n" and align_add_4: "nlmsg_align (4 + n) = 4 + nlmsg_align n"
  unfolding nlmsg_align_def by presburger+

lemma read_le_total: "offset + n \<le> length buf \<Longrightarrow> \<exists>w. read_le buf offset n = Some w"
  by (simp add: read_le_def)

definition found_ok :: "ip_addr option \<times> bytes option \<Rightarrow> bool" where
  "found_ok found \<longleftrightarrow> (\<forall>ip. fst found = Some ip \<longrightarrow> ip_wf ip) \<and> (\<forall>mac. snd found = Some mac \<longrightarrow> mac_wf mac)"

definition neigh_ok :: "neigh_table \<Rightarrow> bool" where
  "neigh_ok table \<longleftrightarrow> (\<forall>ip mac. table ip = Some mac \<longrightarrow> ip_wf ip \<and> mac_wf mac)"

lemma apply_attr_ok: "found_ok found \<Longrightarrow> found_ok (apply_attr family t data found)"
  by (cases found) (auto simp: apply_attr_def found_ok_def mac_wf_def Let_def)

lemma parse_attrs_total:
  "found_ok found \<Longrightarrow> \<exists>found'. parse_attrs family buf off found = Some found' \<and> found_ok found'"
proof (induction family buf off found rule: parse_attrs.induct)
  case (1 family buf off found)
  show ?case
  proof (cases "off + 4 \<le> length buf")
    case True
    then have "read_le buf off 2 = Some (from_be (rev (take 2 (drop off buf))) :: u16)"
        "read_le buf (off + 2) 2 = Some (from_be (rev (take 2 (drop (off + 2) buf))) :: u16)"
      by (simp_all add: read_le_def)
    with 1 True show ?thesis
      by (cases found, subst parse_attrs.simps) (auto simp: Let_def apply_attr_ok)
  next
    case False
    with 1 show ?thesis by (subst parse_attrs.simps) simp
  qed
qed

lemma parse_neigh_msg_total:
  assumes "neigh_ok table"
  shows "\<exists>table'. parse_neigh_msg buf table = Some table' \<and> neigh_ok table'"
proof (cases "length buf < 28")
  case True
  with assms show ?thesis by (simp add: parse_neigh_msg_def nlmsg_align_def)
next
  case False
  have "found_ok (None, None)" by (simp add: found_ok_def)
  from parse_attrs_total [OF this, of "buf ! 16" buf 28] obtain ip mac
    where "parse_attrs (buf ! 16) buf 28 (None, None) = Some (ip, mac)" "found_ok (ip, mac)" by auto
  moreover have "read_le buf 24 2 = Some (from_be (rev (take 2 (drop 24 buf))) :: u16)" using False by (simp add: read_le_def)
  ultimately show ?thesis
    using assms False
    by (auto simp: parse_neigh_msg_def nlmsg_align_def Let_def neigh_ok_def found_ok_def split: option.splits)
qed

lemma process_chunk_at_total:
  "neigh_ok table \<Longrightarrow> \<exists>outcome table'. process_chunk_at buf off table = Some (outcome, table') \<and> neigh_ok table'"
proof (induction "length buf - off" arbitrary: off table rule: less_induct)
  case less
  show ?case
  proof (cases "off + 16 \<le> length buf")
    case True
    then have reads: "read_le buf off 4 = Some (from_be (rev (take 4 (drop off buf))) :: u32)"
        "read_le buf (off + 4) 2 = Some (from_be (rev (take 2 (drop (off + 4) buf))) :: u16)"
      by (simp_all add: read_le_def)
    define n :: nat where "n = unat (from_be (rev (take 4 (drop off buf))) :: u32)"
    define ty :: u16 where "ty = from_be (rev (take 2 (drop (off + 4) buf)))"
    from parse_neigh_msg_total [OF less.prems] obtain table'
      where t: "parse_neigh_msg (take n (drop off buf)) table = Some table'" "neigh_ok table'" by blast
    define next_table where "next_table = (if ty = 28 then table' else table)"
    have ok: "neigh_ok next_table" using t(2) less.prems by (simp add: next_table_def)
    have step: "process_chunk_at buf off table =
        (if n < 16 \<or> length buf < off + n then Some (ChunkContinue, table)
         else if ty = 3 then Some (ChunkDone, table) else if ty = 2 then Some (ChunkError, table)
         else process_chunk_at buf (off + nlmsg_align n) next_table)"
      using True reads t(1) by (subst process_chunk_at.simps) (simp add: Let_def n_def ty_def next_table_def)
    show ?thesis
    proof (cases "n < 16 \<or> length buf < off + n \<or> ty = 3 \<or> ty = 2")
      case True
      with step less.prems show ?thesis by auto
    next
      case rest: False
      then have "length buf - (off + nlmsg_align n) < length buf - off" using align_ge [of n] by (auto intro: diff_less_mono2)
      from less.hyps [OF this ok] step rest show ?thesis by simp
    qed
  next
    case False
    with less show ?thesis by (subst process_chunk_at.simps) simp
  qed
qed

section \<open>The format of a dump\<close>

text \<open>
  The messages of the kernel interface (netlink(7), rtnetlink(7)) with all their fields: a header, and as the
  body either an \<open>ndmsg\<close> with a list of attributes or bytes of another kind. The kernel writes them one after
  another, each message and each attribute padded to four bytes, and spreads a dump over as many datagrams
  as it likes.
\<close>

record nl_attr =
  na_type :: u16
  na_data :: bytes

record nd_msg =
  nd_family :: u8
  nd_ifindex :: u32
  nd_state :: u16
  nd_flags :: u8
  nd_type :: u8

datatype nl_body = NeighBody nd_msg "nl_attr list" | OtherBody bytes

record nl_msg =
  nm_type :: u16
  nm_flags :: u16
  nm_seq :: u32
  nm_pid :: u32
  nm_body :: nl_body

definition pad_of :: "nat \<Rightarrow> bytes" where
  "pad_of n = replicate (nlmsg_align n - n) 0"

definition wire_attr :: "nl_attr \<Rightarrow> bytes" where
  "wire_attr attr =
     to_le 2 (of_nat (nlattr_size + length (na_data attr)) :: u16) @ to_le 2 (na_type attr) @ na_data attr @
     pad_of (length (na_data attr))"

definition wire_nd :: "nd_msg \<Rightarrow> bytes" where
  "wire_nd nd =
     [nd_family nd, 0, 0, 0] @ to_le 4 (nd_ifindex nd) @ to_le 2 (nd_state nd) @ [nd_flags nd, nd_type nd]"

primrec wire_body :: "nl_body \<Rightarrow> bytes" where
  "wire_body (NeighBody nd attrs) = wire_nd nd @ concat (map wire_attr attrs)"
| "wire_body (OtherBody body) = body"

definition wire_head :: "nl_msg \<Rightarrow> bytes" where
  "wire_head m =
     to_le 4 (of_nat (nlmsghdr_size + length (wire_body (nm_body m))) :: u32) @ to_le 2 (nm_type m) @
     to_le 2 (nm_flags m) @ to_le 4 (nm_seq m) @ to_le 4 (nm_pid m)"

definition wire_msg :: "nl_msg \<Rightarrow> bytes" where
  "wire_msg m = wire_head m @ wire_body (nm_body m) @ pad_of (length (wire_body (nm_body m)))"

text \<open>A message is well-formed if its length fields can hold its lengths and its type fits its body.\<close>

definition msg_ok :: "nl_msg \<Rightarrow> bool" where
  "msg_ok m \<longleftrightarrow> nlmsghdr_size + length (wire_body (nm_body m)) < 2 ^ 32 \<and>
     (case nm_body m of
        NeighBody nd attrs \<Rightarrow> nm_type m = RTM_NEWNEIGH \<and> list_all (\<lambda>attr. nlattr_size + length (na_data attr) < 2 ^ 16) attrs
      | OtherBody _ \<Rightarrow> nm_type m \<noteq> RTM_NEWNEIGH)"

text \<open>
  The neighbour that a message announces: one in a usable state, with an address of its family and an
  Ethernet address. The upper two bits of an attribute type are flags.
\<close>

definition attr_ip :: "u8 \<Rightarrow> nl_attr \<Rightarrow> ip_addr option" where
  "attr_ip family attr =
     (if na_type attr AND 0x3fff \<noteq> NDA_DST then None
      else if family = AF_INET \<and> length (na_data attr) = 4 then Some (V4 (na_data attr))
      else if family = AF_INET6 \<and> length (na_data attr) = 16 then Some (V6 (na_data attr))
      else None)"

definition attr_mac :: "nl_attr \<Rightarrow> bytes option" where
  "attr_mac attr = (if na_type attr AND 0x3fff = NDA_LLADDR \<and> length (na_data attr) = 6 then Some (na_data attr) else None)"

definition last_some :: "('a \<Rightarrow> 'b option) \<Rightarrow> 'a list \<Rightarrow> 'b option" where
  "last_some f xs = (let ys = List.map_filter f xs in if ys = [] then None else Some (last ys))"

definition announced :: "nl_msg \<Rightarrow> (ip_addr \<times> bytes) option" where
  "announced m =
     (case nm_body m of
        NeighBody nd attrs \<Rightarrow>
          (if nd_state nd AND NUD_VALID = 0 then None
           else case (last_some (attr_ip (nd_family nd)) attrs, last_some attr_mac attrs) of
             (Some ip, Some mac) \<Rightarrow> Some (ip, mac)
           | _ \<Rightarrow> None)
      | OtherBody _ \<Rightarrow> None)"

section \<open>A dump is read back\<close>

lemma length_to_le [simp]: "length (to_le n w) = n"
  by (simp add: to_le_def)

lemma read_le_at:
  "LENGTH('a) = 8 * n \<Longrightarrow> off = length pre \<Longrightarrow> read_le (pre @ to_le n (w :: 'a::len word) @ rest) off n = Some w"
  by (simp add: read_le_def to_le_def from_be_to_be)

lemma length_wire [simp]:
  "length (wire_nd nd) = 12" "length (wire_head m) = 16"
  "length (wire_attr attr) = 4 + nlmsg_align (length (na_data attr))"
  "length (wire_msg m) = 16 + nlmsg_align (length (wire_body (nm_body m)))"
  using align_ge [of "length (na_data attr)"] align_ge [of "length (wire_body (nm_body m))"]
  by (simp_all add: wire_nd_def wire_head_def wire_attr_def wire_msg_def pad_of_def)

lemma align_add_16: "nlmsg_align (16 + n) = 16 + nlmsg_align n"
  unfolding nlmsg_align_def by presburger

lemma last_some_snoc: "last_some f (xs @ [x]) = (case f x of None \<Rightarrow> last_some f xs | y \<Rightarrow> y)"
  by (simp add: last_some_def List.map_filter_def Let_def split: option.splits)

lemma foldl_apply_attr:
  "foldl (\<lambda>found attr. apply_attr family (na_type attr) (na_data attr) found) (None, None) attrs =
    (last_some (attr_ip family) attrs, last_some attr_mac attrs)"
proof (induction attrs rule: rev_induct)
  case (snoc attr attrs)
  then show ?case
    by (cases "na_type attr AND 0x3fff = 1"; cases "na_type attr AND 0x3fff = 2")
      (auto simp: last_some_snoc attr_ip_def attr_mac_def apply_attr_def)
qed (simp add: last_some_def List.map_filter_def)

lemma parse_attr_step:
  assumes "off = length pre" "4 + length (na_data attr) < 2 ^ 16"
  shows "parse_attrs family (pre @ wire_attr attr @ rest) off found =
    parse_attrs family (pre @ wire_attr attr @ rest) (off + length (wire_attr attr))
      (apply_attr family (na_type attr) (na_data attr) found)"
proof -
  let ?n = "length (na_data attr)" and ?pad = "pad_of (length (na_data attr))"
  have len: "unat (of_nat (4 + ?n) :: u16) = 4 + ?n" using assms(2) by (intro unat_of_nat_u16) simp
  have "read_le (pre @ wire_attr attr @ rest) off 2 = Some (of_nat (4 + ?n) :: u16)"
    using read_le_at [of 2 off pre "of_nat (4 + ?n) :: u16" "to_le 2 (na_type attr) @ na_data attr @ ?pad @ rest"] assms(1)
    by (simp add: wire_attr_def)
  moreover have "read_le (pre @ wire_attr attr @ rest) (off + 2) 2 = Some (na_type attr)"
    using read_le_at [of 2 "off + 2" "pre @ to_le 2 (of_nat (4 + ?n) :: u16)" "na_type attr" "na_data attr @ ?pad @ rest"] assms(1)
    by (simp add: wire_attr_def)
  moreover have "slice (pre @ wire_attr attr @ rest) (off + 4) (off + (4 + ?n)) = Some (na_data attr)"
    using assms(1) by (simp add: wire_attr_def)
  moreover have "off + nlmsg_align (4 + ?n) = off + length (wire_attr attr)" by (simp add: align_add_4)
  moreover have "off + 4 \<le> length (pre @ wire_attr attr @ rest)" "off + (4 + ?n) \<le> length (pre @ wire_attr attr @ rest)"
    using assms(1) align_ge [of ?n] by simp_all
  ultimately show ?thesis
    using len by (subst parse_attrs.simps) (simp add: Let_def del: of_nat_add slice_eq_Some length_append length_wire)
qed

lemma parse_wire_attrs:
  assumes "list_all (\<lambda>attr. 4 + length (na_data attr) < 2 ^ 16) attrs"
  shows "parse_attrs family (pre @ concat (map wire_attr attrs)) (length pre) found =
    Some (foldl (\<lambda>found attr. apply_attr family (na_type attr) (na_data attr) found) found attrs)"
  using assms
proof (induction attrs arbitrary: pre found)
  case Nil
  then show ?case by (subst parse_attrs.simps) simp
next
  case (Cons attr attrs)
  from parse_attr_step [of "length pre" pre attr family "concat (map wire_attr attrs)" found]
    Cons.IH [of "pre @ wire_attr attr"] Cons.prems
  show ?case by (simp del: length_wire)
qed

lemma parse_wire_msg:
  assumes "msg_ok m" "nm_body m = NeighBody nd attrs"
  shows "parse_neigh_msg (wire_head m @ wire_body (nm_body m)) table =
    Some (case announced m of Some (ip, mac) \<Rightarrow> table(ip \<mapsto> mac) | None \<Rightarrow> table)"
proof -
  let ?msg = "wire_head m @ wire_nd nd @ concat (map wire_attr attrs)"
  have "list_all (\<lambda>attr. 4 + length (na_data attr) < 2 ^ 16) attrs" using assms by (simp add: msg_ok_def)
  from parse_wire_attrs [OF this, of "nd_family nd" "wire_head m @ wire_nd nd" "(None, None)"]
  have attrs: "parse_attrs (nd_family nd) ?msg 28 (None, None) =
      Some (last_some (attr_ip (nd_family nd)) attrs, last_some attr_mac attrs)" by (simp add: foldl_apply_attr)
  have family: "?msg ! 16 = nd_family nd" by (simp add: wire_nd_def nth_append)
  have state: "read_le ?msg 24 2 = Some (nd_state nd)"
    using read_le_at [of 2 24 "wire_head m @ [nd_family nd, 0, 0, 0] @ to_le 4 (nd_ifindex nd)" "nd_state nd"
        "[nd_flags nd, nd_type nd] @ concat (map wire_attr attrs)"]
    by (simp add: wire_nd_def)
  have no_ip: "last_some (attr_ip (nd_family nd)) attrs = None" if "nd_family nd \<noteq> 2" "nd_family nd \<noteq> 10"
    using that by (simp add: last_some_def List.map_filter_def attr_ip_def)
  show ?thesis
    using attrs family state no_ip
    by (simp add: parse_neigh_msg_def nlmsg_align_def Let_def announced_def assms(2) split: option.splits)
qed

lemma wire_length: "msg_ok m \<Longrightarrow> unat (of_nat (16 + length (wire_body (nm_body m))) :: u32) = 16 + length (wire_body (nm_body m))"
  by (simp add: unsigned_of_nat take_bit_nat_eq_self msg_ok_def del: of_nat_add)

lemma wire_reads:
  assumes "off = length pre"
  shows "read_le (pre @ wire_msg m @ rest) off 4 = Some (of_nat (16 + length (wire_body (nm_body m))) :: u32)"
    "read_le (pre @ wire_msg m @ rest) (off + 4) 2 = Some (nm_type m)"
    "slice (pre @ wire_msg m @ rest) off (off + (16 + length (wire_body (nm_body m)))) = Some (wire_head m @ wire_body (nm_body m))"
    "off + (16 + length (wire_body (nm_body m))) \<le> length (pre @ wire_msg m @ rest)"
proof -
  let ?len = "of_nat (16 + length (wire_body (nm_body m))) :: u32"
  let ?more = "to_le 2 (nm_flags m) @ to_le 4 (nm_seq m) @ to_le 4 (nm_pid m) @
    wire_body (nm_body m) @ pad_of (length (wire_body (nm_body m))) @ rest"
  show "read_le (pre @ wire_msg m @ rest) off 4 = Some ?len"
    using read_le_at [of 4 off pre ?len "to_le 2 (nm_type m) @ ?more"] assms by (simp add: wire_msg_def wire_head_def)
  show "read_le (pre @ wire_msg m @ rest) (off + 4) 2 = Some (nm_type m)"
    using read_le_at [of 2 "off + 4" "pre @ to_le 4 ?len" "nm_type m" ?more] assms by (simp add: wire_msg_def wire_head_def)
  show "slice (pre @ wire_msg m @ rest) off (off + (16 + length (wire_body (nm_body m)))) = Some (wire_head m @ wire_body (nm_body m))"
    using assms by (simp add: wire_msg_def)
  show "off + (16 + length (wire_body (nm_body m))) \<le> length (pre @ wire_msg m @ rest)"
    using assms align_ge [of "length (wire_body (nm_body m))"] by simp
qed

definition data_msg :: "nl_msg \<Rightarrow> bool" where
  "data_msg m \<longleftrightarrow> msg_ok m \<and> nm_type m \<noteq> NLMSG_DONE \<and> nm_type m \<noteq> NLMSG_ERROR"

lemma process_wire_msg:
  assumes "data_msg m" "off = length pre"
  shows "process_chunk_at (pre @ wire_msg m @ rest) off table =
    process_chunk_at (pre @ wire_msg m @ rest) (off + length (wire_msg m))
      (case announced m of Some (ip, mac) \<Rightarrow> table(ip \<mapsto> mac) | None \<Rightarrow> table)"
proof -
  have ok: "msg_ok m" and ty: "nm_type m \<noteq> 3" "nm_type m \<noteq> 2" using assms(1) by (simp_all add: data_msg_def)
  note reads = wire_reads [OF assms(2), of m rest] wire_length [OF ok]
  have off: "off + nlmsg_align (16 + length (wire_body (nm_body m))) = off + length (wire_msg m)" by (simp add: align_add_16)
  show ?thesis
  proof (cases "nm_body m")
    case (NeighBody nd attrs)
    then have "nm_type m = 28" using ok by (simp add: msg_ok_def)
    with parse_wire_msg [OF ok NeighBody, of table] reads off show ?thesis
      by (subst process_chunk_at.simps) (simp add: Let_def del: of_nat_add slice_eq_Some length_append length_wire)
  next
    case (OtherBody body)
    then have "nm_type m \<noteq> 28" "announced m = None" using ok by (simp_all add: msg_ok_def announced_def)
    with ty reads off show ?thesis
      by (subst process_chunk_at.simps) (simp add: Let_def del: of_nat_add slice_eq_Some length_append length_wire)
  qed
qed

lemma process_last_msg:
  assumes "msg_ok m" "nm_type m = NLMSG_DONE \<or> nm_type m = NLMSG_ERROR" "off = length pre"
  shows "process_chunk_at (pre @ wire_msg m @ rest) off table =
    Some (if nm_type m = NLMSG_DONE then ChunkDone else ChunkError, table)"
  using assms(2) wire_reads [OF assms(3), of m rest] wire_length [OF assms(1)]
  by (subst process_chunk_at.simps) (auto simp: Let_def simp del: of_nat_add slice_eq_Some length_append length_wire)

text \<open>The neighbours of a sequence of messages; of two with the same address the later one counts.\<close>

definition neighbours :: "nl_msg list \<Rightarrow> neigh_table" where
  "neighbours msgs = map_of (rev (List.map_filter announced msgs))"

lemma neighbours_simps:
  "neighbours [] = Map.empty"
  "table ++ neighbours (m # msgs) = (case announced m of Some (ip, mac) \<Rightarrow> table(ip \<mapsto> mac) | None \<Rightarrow> table) ++ neighbours msgs"
  "neighbours (msgs @ msgs') = neighbours msgs ++ neighbours msgs'"
  by (auto simp: neighbours_def List.map_filter_def split: option.splits)

lemma process_wire_msgs:
  assumes "list_all data_msg msgs"
  shows "process_chunk_at (pre @ concat (map wire_msg msgs) @ rest) (length pre) table =
    process_chunk_at (pre @ concat (map wire_msg msgs) @ rest) (length (pre @ concat (map wire_msg msgs))) (table ++ neighbours msgs)"
  using assms
proof (induction msgs arbitrary: pre table)
  case Nil
  then show ?case by (simp add: neighbours_simps)
next
  case (Cons m msgs)
  from process_wire_msg [of m "length pre" pre "concat (map wire_msg msgs) @ rest" table]
    Cons.IH [of "pre @ wire_msg m"] Cons.prems
  show ?case by (simp add: neighbours_simps(2) add.assoc del: length_wire)
qed

lemma process_datagram:
  assumes "list_all data_msg msgs"
  shows "process_chunk (concat (map wire_msg msgs)) table = Some (ChunkContinue, table ++ neighbours msgs)"
  using process_wire_msgs [OF assms, of "[]" "[]" table]
  by (simp add: process_chunk_def process_chunk_at.simps [of _ "length (concat (map wire_msg msgs))"] del: length_concat)

lemma process_last_datagram:
  assumes "list_all data_msg msgs" "msg_ok m" "nm_type m = NLMSG_DONE \<or> nm_type m = NLMSG_ERROR"
  shows "process_chunk (concat (map wire_msg msgs) @ wire_msg m @ rest) table =
    Some (if nm_type m = NLMSG_DONE then ChunkDone else ChunkError, table ++ neighbours msgs)"
  using process_wire_msgs [OF assms(1), of "[]" "wire_msg m @ rest" table] process_last_msg [OF assms(2,3) refl]
  by (simp add: process_chunk_def)

lemma recv_datagrams:
  assumes "list_all (list_all data_msg) datagrams"
  shows "recv_neigh_entries (map (\<lambda>msgs. Inr (concat (map wire_msg msgs))) datagrams @ replies) table =
    recv_neigh_entries replies (table ++ neighbours (concat datagrams))"
  using assms
  by (induction datagrams arbitrary: table) (simp_all add: process_datagram neighbours_simps del: map_add_def)

text \<open>
  C37. Reading a netlink chunk terminates without a panic on every byte string, and every neighbour that is
  in the table afterwards has a well-formed address and a six-byte MAC.
\<close>

theorem process_chunk_safe:
  assumes "neigh_ok table"
  shows "\<exists>outcome table'. process_chunk buf table = Some (outcome, table') \<and> neigh_ok table'"
  unfolding process_chunk_def by (rule process_chunk_at_total [OF assms])

text \<open>
  C36. A dump is read back. The kernel answers with any number of datagrams of well-formed netlink messages
  of any type that fit into the buffer of the reader, with any header fields and any attributes, and then with a datagram that contains the end
  message or an error message, whatever follows it. At the end message the reader returns the table of the
  neighbours that the messages of all the datagrams announce: those in a usable state that have an address
  of their family and an Ethernet address, a later one replacing an earlier one with the same address. At an
  error message it returns an error instead.
\<close>

theorem neigh_dump_round_trip:
  assumes "list_all (list_all data_msg) datagrams" "list_all data_msg msgs"
    and "msg_ok m" "nm_type m = NLMSG_DONE \<or> nm_type m = NLMSG_ERROR"
  shows "recv_neigh_entries
      (map (\<lambda>msgs. Inr (concat (map wire_msg msgs))) datagrams @ Inr (concat (map wire_msg msgs) @ wire_msg m @ rest) # replies) Map.empty =
    Some (Some (if nm_type m = NLMSG_DONE
      then Inr (map_of (rev (List.map_filter announced (concat datagrams @ msgs)))) else Inl ''EPROTO''))"
  using recv_datagrams [OF assms(1), of "Inr (concat (map wire_msg msgs) @ wire_msg m @ rest) # replies" Map.empty]
    process_last_datagram [OF assms(2-4), of rest "neighbours (concat datagrams)"] assms(4)
  unfolding neighbours_def [symmetric] by (auto simp: neighbours_simps)

theorem process_chunk_safe_witness:
  "\<exists>outcome table'. process_chunk [1, 2, 3] Map.empty = Some (outcome, table') \<and> neigh_ok table'"
  by (rule process_chunk_safe) (simp add: neigh_ok_def)

text \<open>
  Two datagrams: a neighbour with a cache-information attribute between its addresses, and one that cannot be
  reached any more; then the same address with a new MAC, and an end message with an error code in its body.
\<close>

theorem neigh_dump_round_trip_witness:
  "let neigh = (\<lambda>state attrs. \<lparr>nm_type = 28, nm_flags = 2, nm_seq = 1, nm_pid = 4711,
         nm_body = NeighBody \<lparr>nd_family = 2, nd_ifindex = 3, nd_state = state, nd_flags = 0, nd_type = 1\<rparr> attrs\<rparr>);
       dst = (\<lambda>n. \<lparr>na_type = 1, na_data = [10, 0, 1, n]\<rparr>); mac = (\<lambda>n. \<lparr>na_type = 2, na_data = [2, 0, 0, 0, 0, n]\<rparr>);
       first = [neigh 2 [dst 10, \<lparr>na_type = 3, na_data = replicate 16 7\<rparr>, mac 9], neigh 0x20 [dst 11, mac 8]];
       done = \<lparr>nm_type = 3, nm_flags = 2, nm_seq = 1, nm_pid = 4711, nm_body = OtherBody [0, 0, 0, 0]\<rparr> in
   recv_neigh_entries [Inr (concat (map wire_msg first)), Inr (wire_msg (neigh 4 [dst 10, mac 5]) @ wire_msg done)] Map.empty =
     Some (Some (Inr [V4 [10, 0, 1, 10] \<mapsto> [2, 0, 0, 0, 0, 5]]))"
proof -
  define neigh where "neigh state attrs = \<lparr>nm_type = 28, nm_flags = 2, nm_seq = 1, nm_pid = 4711,
    nm_body = NeighBody \<lparr>nd_family = 2, nd_ifindex = 3, nd_state = state, nd_flags = 0, nd_type = 1\<rparr> attrs\<rparr>" for state attrs
  define dst :: "u8 \<Rightarrow> nl_attr" where "dst n = \<lparr>na_type = 1, na_data = [10, 0, 1, n]\<rparr>" for n
  define mac :: "u8 \<Rightarrow> nl_attr" where "mac n = \<lparr>na_type = 2, na_data = [2, 0, 0, 0, 0, n]\<rparr>" for n
  define first where "first = [neigh 2 [dst 10, \<lparr>na_type = 3, na_data = replicate 16 7\<rparr>, mac 9], neigh 0x20 [dst 11, mac 8]]"
  define final where "final = \<lparr>nm_type = 3, nm_flags = 2, nm_seq = 1, nm_pid = 4711, nm_body = OtherBody [0, 0, 0, 0]\<rparr>"
  note defs = neigh_def dst_def mac_def first_def final_def
  have "list_all (list_all data_msg) [first]" "list_all data_msg [neigh 4 [dst 10, mac 5]]" "msg_ok final"
    by (simp_all add: data_msg_def msg_ok_def nlmsg_align_def defs)
  from neigh_dump_round_trip [OF this, of "[]" "[]"]
  have "recv_neigh_entries [Inr (concat (map wire_msg first)), Inr (wire_msg (neigh 4 [dst 10, mac 5]) @ wire_msg final)] Map.empty =
      Some (Some (Inr (map_of (rev (List.map_filter announced (first @ [neigh 4 [dst 10, mac 5]]))))))"
    by (simp add: final_def)
  also have "List.map_filter announced (first @ [neigh 4 [dst 10, mac 5]]) =
      [(V4 [10, 0, 1, 10], [2, 0, 0, 0, 0, 9]), (V4 [10, 0, 1, 10], [2, 0, 0, 0, 0, 5])]"
    by (simp add: List.map_filter_def announced_def last_some_def attr_ip_def attr_mac_def NUD_VALID_def defs)
  also have "map_of (rev [(V4 [10, 0, 1, 10], [2, 0, 0, 0, 0, 9]), (V4 [10, 0, 1, 10], [2, 0, 0, 0, 0, 5 :: u8])]) =
      [V4 [10, 0, 1, 10] \<mapsto> [2, 0, 0, 0, 0, 5]]" by (rule ext) simp
  finally show ?thesis unfolding Let_def defs .
qed

end
