(* ===== verification/Health.thy ===== *)
theory Health
  imports Config_Table
begin

text \<open>
  \<open>pesigitg-daemon/src/health.rs\<close>: the health state of the backends and the schedule of their probes. The
  QUIC handshake of a probe is third-party: \<open>probe\<close> gives, for the addresses that are due, the results that
  \<open>probe_all\<close> collects. A hash map is iterated in an unspecified order; the model takes the order of the
  list, and the results for distinct addresses do not depend on it.
\<close>

section \<open>Operations\<close>

definition FAILURE_THRESHOLD :: u32 where "FAILURE_THRESHOLD = 3"
definition PROBE_INTERVAL :: nat where "PROBE_INTERVAL = secs 5"
definition BACKOFF_SCHEDULE :: "nat list" where
  "BACKOFF_SCHEDULE = [secs 10, secs 30, secs 60, secs 300]"

record server_health =
  sh_consecutive_failures :: u32
  sh_healthy :: bool
  sh_next_probe_at :: instant
  sh_transitions :: u32
  sh_state_since :: instant
  sh_ever_healthy :: bool

type_synonym health_state = "ip_addr \<rightharpoonup> server_health"

definition server_health_new :: "instant \<Rightarrow> server_health" where
  "server_health_new now =
     \<lparr>sh_consecutive_failures = 0, sh_healthy = False, sh_next_probe_at = now, sh_transitions = 0,
      sh_state_since = now, sh_ever_healthy = False\<rparr>"

definition backoff_for :: "u32 \<Rightarrow> nat run" where
  "backoff_for failures =
     (if failures < FAILURE_THRESHOLD then ret PROBE_INTERVAL
      else let idx = unat (failures - FAILURE_THRESHOLD) in
           Prelude.idx BACKOFF_SCHEDULE (min idx (length BACKOFF_SCHEDULE - 1)))"

text \<open>One probe result applied to the state of its server, and whether the state flipped.\<close>

definition apply_probe :: "instant \<Rightarrow> server_health \<Rightarrow> bool \<Rightarrow> (server_health \<times> bool) run" where
  "apply_probe now s ok =
     (if ok then
        let s = s\<lparr>sh_consecutive_failures := 0, sh_next_probe_at := now + PROBE_INTERVAL\<rparr> in
        if \<not> sh_healthy s then
          ret (s\<lparr>sh_healthy := True, sh_state_since := now,
                 sh_transitions := (if sh_ever_healthy s then sh_transitions s + 1 else sh_transitions s),
                 sh_ever_healthy := True\<rparr>, True)
        else ret (s, False)
      else do {
        let s = s\<lparr>sh_consecutive_failures := sh_consecutive_failures s + 1\<rparr>;
        backoff \<leftarrow> backoff_for (sh_consecutive_failures s);
        let s = s\<lparr>sh_next_probe_at := now + backoff\<rparr>;
        if sh_healthy s \<and> sh_consecutive_failures s \<ge> FAILURE_THRESHOLD then
          ret (s\<lparr>sh_healthy := False, sh_state_since := now, sh_transitions := sh_transitions s + 1\<rparr>, True)
        else ret (s, False)
      })"

text \<open>\<open>for rc in config.configs_mut() { for server in &mut rc.servers { ... } }\<close>.\<close>

definition map_servers :: "(server \<Rightarrow> server) \<Rightarrow> config_table \<Rightarrow> config_table" where
  "map_servers f table =
     table\<lparr>ct_slots := map (map_option (\<lambda>rc. rc\<lparr>rc_servers := map f (rc_servers rc)\<rparr>)) (ct_slots table)\<rparr>"

definition mirror_server :: "health_state \<Rightarrow> server \<Rightarrow> server" where
  "mirror_server state server =
     (case state (srv_address server) of
        Some s \<Rightarrow> server\<lparr>srv_healthy := sh_healthy s, srv_transitions := sh_transitions s,
                  srv_state_since := Some (sh_state_since s)\<rparr>
      | None \<Rightarrow> server)"

fun probe_step :: "instant \<Rightarrow> health_state \<times> bool \<Rightarrow> ip_addr \<times> bool \<Rightarrow> (health_state \<times> bool) run" where
  "probe_step now (state, changed) (addr, ok) = do {
     s \<leftarrow> state addr;
     (s, flipped) \<leftarrow> apply_probe now s ok;
     ret (state(addr \<mapsto> s), changed \<or> flipped)
   }"

definition apply_probe_results ::
  "health_state \<Rightarrow> (ip_addr \<times> bool) list \<Rightarrow> instant \<Rightarrow> config_table \<Rightarrow> (bool \<times> health_state \<times> config_table) run" where
  "apply_probe_results state probes now config = do {
     (state, changed) \<leftarrow> foldM (probe_step now) (state, False) probes;
     ret (changed, state, map_servers (mirror_server state) config)
   }"

definition evict_removed :: "health_state \<Rightarrow> ip_addr set \<Rightarrow> health_state" where
  "evict_removed state current = state |` current"

definition reset_backoff :: "instant \<Rightarrow> health_state \<Rightarrow> health_state" where
  "reset_backoff now state = map_option (\<lambda>s. s\<lparr>sh_next_probe_at := now\<rparr>) \<circ> state"

definition ensure_tracked :: "instant \<Rightarrow> ip_addr list \<Rightarrow> health_state \<Rightarrow> health_state" where
  "ensure_tracked now addrs state =
     foldl (\<lambda>state addr. if state addr = None then state(addr \<mapsto> server_health_new now) else state) state addrs"

definition health_addrs :: "config_table \<Rightarrow> ip_addr list" where
  "health_addrs config = remdups (map srv_address (concat (map rc_servers (configs config))))"

definition health_due :: "instant \<Rightarrow> health_state \<Rightarrow> ip_addr list \<Rightarrow> ip_addr list" where
  "health_due now state addrs =
     filter (\<lambda>addr. case state addr of Some s \<Rightarrow> now \<ge> sh_next_probe_at s | None \<Rightarrow> False) addrs"

definition health_check ::
  "(ip_addr list \<Rightarrow> (ip_addr \<times> bool) list) \<Rightarrow> instant \<Rightarrow> health_state \<Rightarrow> config_table \<Rightarrow>
     (bool \<times> health_state \<times> config_table) run" where
  "health_check probe now state config =
     (let all_addrs = health_addrs config;
          state = ensure_tracked now all_addrs (evict_removed state (set all_addrs));
          due = health_due now state all_addrs in
      if due = [] then ret (False, state, config)
      else apply_probe_results state (probe due) now config)"

text \<open>What the prober promises: at most one result for each address it was given.\<close>

definition probe_ok :: "(ip_addr list \<Rightarrow> (ip_addr \<times> bool) list) \<Rightarrow> bool" where
  "probe_ok probe \<longleftrightarrow> (\<forall>addrs. distinct addrs \<longrightarrow> distinct (map fst (probe addrs)) \<and> fst ` set (probe addrs) \<subseteq> set addrs)"

section \<open>Backoff\<close>

lemma unat_ge_3: "(3 :: u32) \<le> f \<longleftrightarrow> 3 \<le> unat f"
  by (simp add: word_le_nat_alt)

lemma backoff_for_eq:
  "backoff_for f = Some (if unat f < 3 then secs 5 else if unat f = 3 then secs 10 else if unat f = 4 then secs 30
     else if unat f = 5 then secs 60 else secs 300)"
proof (cases "f < 3")
  case True
  then show ?thesis by (simp add: backoff_for_def FAILURE_THRESHOLD_def PROBE_INTERVAL_def word_less_nat_alt)
next
  case False
  then have ge: "3 \<le> f" by simp
  then have "unat (f - 3) = unat f - 3" using unat_sub [OF ge] by simp
  moreover have "unat f - 3 = 0 \<or> unat f - 3 = 1 \<or> unat f - 3 = 2 \<or> 3 \<le> unat f - 3" by linarith
  ultimately show ?thesis
    using False ge
    by (auto simp: backoff_for_def FAILURE_THRESHOLD_def BACKOFF_SCHEDULE_def Let_def unat_ge_3 word_less_nat_alt numeral_eq_Suc min_def
        split: if_splits)
qed

text \<open>The state after one result: it is defined, the flag tells a flip, and the next probe is 5 to 300 seconds away.\<close>

lemma apply_probe_total:
  obtains s' flipped where "apply_probe now s ok = Some (s', flipped)"
    "flipped \<longleftrightarrow> sh_healthy s' \<noteq> sh_healthy s" "ok \<Longrightarrow> sh_healthy s'"
    "now + secs 5 \<le> sh_next_probe_at s'" "sh_next_probe_at s' \<le> now + secs 300"
proof -
  have "\<exists>s' flipped. apply_probe now s ok = Some (s', flipped) \<and> (flipped \<longleftrightarrow> sh_healthy s' \<noteq> sh_healthy s) \<and>
      (ok \<longrightarrow> sh_healthy s') \<and> now + secs 5 \<le> sh_next_probe_at s' \<and> sh_next_probe_at s' \<le> now + secs 300"
    by (auto simp: apply_probe_def Let_def backoff_for_eq PROBE_INTERVAL_def secs_def)
  with that show thesis by blast
qed

section \<open>Hysteresis\<close>

text \<open>A history of probe results of one server, oldest first.\<close>

definition run_probes :: "server_health \<Rightarrow> (instant \<times> bool) list \<Rightarrow> server_health run" where
  "run_probes = foldM (\<lambda>s (now, ok). do { (s, _) \<leftarrow> apply_probe now s ok; ret s })"

definition trailing_failures :: "bool list \<Rightarrow> nat" where
  "trailing_failures results = length (takeWhile Not (rev results))"

lemma trailing_failures_simps [simp]:
  "trailing_failures [] = 0"
  "trailing_failures (rs @ [r]) = (if r then 0 else Suc (trailing_failures rs))"
  by (simp_all add: trailing_failures_def)

lemma trailing_failures_le: "trailing_failures rs \<le> length rs"
  using length_takeWhile_le [of Not "rev rs"] by (simp add: trailing_failures_def)

lemma run_probes_history:
  assumes "length hs < 2 ^ 32"
  shows "\<exists>s. run_probes (server_health_new t0) hs = Some s \<and>
    sh_consecutive_failures s = of_nat (trailing_failures (map snd hs)) \<and>
    (sh_ever_healthy s \<longleftrightarrow> True \<in> set (map snd hs)) \<and>
    (sh_healthy s \<longleftrightarrow> True \<in> set (map snd hs) \<and> trailing_failures (map snd hs) < 3)"
  using assms
proof (induction hs rule: rev_induct)
  case Nil
  then show ?case by (simp add: run_probes_def server_health_new_def)
next
  case (snoc h hs)
  obtain now ok where h: "h = (now, ok)" by (cases h)
  let ?n = "trailing_failures (map snd hs)"
  from snoc obtain s where s: "run_probes (server_health_new t0) hs = Some s" "sh_consecutive_failures s = of_nat ?n"
    "sh_ever_healthy s \<longleftrightarrow> True \<in> set (map snd hs)" "sh_healthy s \<longleftrightarrow> True \<in> set (map snd hs) \<and> ?n < 3" by auto
  have "Suc ?n < 2 ^ 32" using trailing_failures_le [of "map snd hs"] snoc.prems by simp
  then have "unat (of_nat ?n + 1 :: u32) = Suc ?n"
    using unat_of_nat_u32 [of "Suc ?n"] by (simp add: add.commute)
  then have "FAILURE_THRESHOLD \<le> of_nat ?n + 1 \<longleftrightarrow> 2 \<le> ?n" by (simp add: FAILURE_THRESHOLD_def unat_ge_3)
  with s show ?case
    by (auto simp: run_probes_def foldM_append h apply_probe_def Let_def backoff_for_eq)
qed

section \<open>A round of probes\<close>

text \<open>The state after a round, address by address, and the health flags that a round may flip.\<close>

definition probed :: "instant \<Rightarrow> server_health \<Rightarrow> bool \<Rightarrow> server_health" where
  "probed now s ok = (case apply_probe now s ok of Some (s', _) \<Rightarrow> s' | None \<Rightarrow> s)"

definition after_round :: "instant \<Rightarrow> (ip_addr \<times> bool) list \<Rightarrow> health_state \<Rightarrow> health_state" where
  "after_round now probes state addr =
     map_option (\<lambda>s. case map_of probes addr of None \<Rightarrow> s | Some ok \<Rightarrow> probed now s ok) (state addr)"

definition flags :: "health_state \<Rightarrow> ip_addr \<rightharpoonup> bool" where
  "flags state addr = map_option sh_healthy (state addr)"

lemma apply_probe_eq: "apply_probe now s ok = Some (probed now s ok, sh_healthy (probed now s ok) \<noteq> sh_healthy s)"
  by (rule apply_probe_total [of now s ok]) (auto simp: probed_def)

lemma probed_next: "now + secs 5 \<le> sh_next_probe_at (probed now s ok)" "sh_next_probe_at (probed now s ok) \<le> now + secs 300"
  by (rule apply_probe_total [of now s ok]; simp add: probed_def)+

lemma probed_ok: "sh_healthy (probed now s True)"
  by (rule apply_probe_total [of now s True]) (simp add: probed_def)

lemma apply_probes:
  assumes "distinct (map fst probes)" "fst ` set probes \<subseteq> dom state"
  shows "foldM (probe_step now) (state, c0) probes =
    Some (after_round now probes state, c0 \<or> flags (after_round now probes state) \<noteq> flags state)"
  using assms
proof (induction probes arbitrary: state c0)
  case Nil
  have "after_round now [] state = state" by (rule ext) (simp add: after_round_def option.map_ident)
  then show ?case by simp
next
  case (Cons p probes)
  obtain addr ok where p: "p = (addr, ok)" by (cases p)
  with Cons.prems obtain s where s: "state addr = Some s" by auto
  let ?state1 = "state(addr \<mapsto> probed now s ok)"
  have fresh: "map_of probes addr = None" using Cons.prems by (simp add: p map_of_eq_None_iff)
  have after: "after_round now probes ?state1 = after_round now (p # probes) state"
    by (rule ext) (simp add: after_round_def p s fresh)
  then have here: "after_round now (p # probes) state addr = Some (probed now s ok)"
    by (simp add: after_round_def p s)
  have "flags ?state1 = flags state" if "sh_healthy (probed now s ok) = sh_healthy s"
    using that s by (intro ext) (simp add: flags_def)
  moreover have "flags (after_round now (p # probes) state) addr \<noteq> flags state addr" if "sh_healthy (probed now s ok) \<noteq> sh_healthy s"
    using that here s by (simp add: flags_def)
  ultimately have flip: "sh_healthy (probed now s ok) \<noteq> sh_healthy s \<or> flags (after_round now (p # probes) state) \<noteq> flags ?state1 \<longleftrightarrow>
      flags (after_round now (p # probes) state) \<noteq> flags state"
    using here by (cases "sh_healthy (probed now s ok) = sh_healthy s") (simp, metis)
  from Cons.prems have "distinct (map fst probes)" "fst ` set probes \<subseteq> dom ?state1" by auto
  note ih = Cons.IH [OF this, of "c0 \<or> sh_healthy (probed now s ok) \<noteq> sh_healthy s"]
  have "probe_step now (state, c0) p = Some (?state1, c0 \<or> sh_healthy (probed now s ok) \<noteq> sh_healthy s)"
    by (simp add: p s apply_probe_eq)
  then have "foldM (probe_step now) (state, c0) (p # probes) =
      foldM (probe_step now) (?state1, c0 \<or> sh_healthy (probed now s ok) \<noteq> sh_healthy s) probes" by simp
  also note ih
  finally show ?case unfolding after disj_assoc flip .
qed

lemma ensure_tracked_eq:
  "ensure_tracked now addrs state addr =
     (if state addr = None \<and> addr \<in> set addrs then Some (server_health_new now) else state addr)"
proof (induction addrs arbitrary: state)
  case (Cons a addrs)
  then show ?case
    unfolding ensure_tracked_def foldl_Cons by (auto simp: ensure_tracked_def [symmetric])
qed (simp add: ensure_tracked_def)

text \<open>The state a check works on: exactly the configured addresses, new ones due at once.\<close>

definition tracked :: "instant \<Rightarrow> config_table \<Rightarrow> health_state \<Rightarrow> health_state" where
  "tracked now config state addr =
     (if addr \<in> set (health_addrs config)
      then Some (case state addr of Some s \<Rightarrow> s | None \<Rightarrow> server_health_new now) else None)"

lemma tracked_eq:
  "ensure_tracked now (health_addrs config) (evict_removed state (set (health_addrs config))) = tracked now config state"
  by (rule ext) (auto simp: ensure_tracked_eq evict_removed_def tracked_def restrict_map_def split: option.splits)

lemma dom_tracked: "dom (tracked now config state) = set (health_addrs config)"
  by (auto simp: tracked_def split: if_splits)

lemma health_check_eq:
  fixes now :: instant and config :: config_table and state :: health_state
  assumes "probe_ok probe"
  defines "st \<equiv> tracked now config state"
  defines "due \<equiv> health_due now st (health_addrs config)"
  shows "health_check probe now state config =
    (if due = [] then Some (False, st, config)
     else let st' = after_round now (probe due) st in Some (flags st' \<noteq> flags st, st', map_servers (mirror_server st') config))"
proof -
  have "distinct due" by (simp add: due_def health_due_def health_addrs_def)
  with assms(1) have probes: "distinct (map fst (probe due))" "fst ` set (probe due) \<subseteq> set due"
    by (simp_all add: probe_ok_def)
  have "set due \<subseteq> dom st" by (auto simp: due_def health_due_def st_def dom_tracked)
  with probes have "fst ` set (probe due) \<subseteq> dom st" by blast
  from apply_probes [OF probes(1) this] show ?thesis
    by (simp add: health_check_def tracked_eq apply_probe_results_def Let_def st_def [symmetric] due_def [symmetric])
qed

text \<open>No probe is scheduled more than 300 seconds after the last check.\<close>

definition schedule_ok :: "instant \<Rightarrow> health_state \<Rightarrow> bool" where
  "schedule_ok now state \<longleftrightarrow> (\<forall>addr s. state addr = Some s \<longrightarrow> sh_next_probe_at s \<le> now + secs 300)"

lemma health_check_schedule:
  assumes "probe_ok probe" "schedule_ok now state" "now \<le> now'" "health_check probe now' state config = Some (changed, state', config')"
  shows "schedule_ok now' state' \<and> dom state' = set (health_addrs config)"
proof -
  let ?st = "tracked now' config state"
  have st: "schedule_ok now' ?st"
    using assms(2,3) by (force simp: schedule_ok_def tracked_def server_health_new_def split: if_splits option.splits)
  have "schedule_ok now' (after_round now' probes ?st)" for probes
    using st probed_next(2) by (auto simp: schedule_ok_def after_round_def split: option.splits)
  moreover have "dom (after_round now' probes ?st) = set (health_addrs config)" for probes
    using dom_tracked [of now' config state] by (auto simp: after_round_def dom_def)
  moreover have "state' = ?st \<or> (\<exists>probes. state' = after_round now' probes ?st)"
    using assms(4) unfolding health_check_eq [OF assms(1)] by (auto simp: Let_def split: if_splits)
  ultimately show ?thesis using st dom_tracked by metis
qed

section \<open>Properties\<close>

text \<open>
  C23. Hysteresis of the health state. Whatever the history of probe results of a backend, it counts as
  healthy exactly when some probe has succeeded and fewer than three probes have failed since the last
  success; one success brings it back.
\<close>

theorem health_hysteresis:
  assumes "length hs < 2 ^ 32"
  shows "\<exists>s. run_probes (server_health_new t0) hs = Some s \<and>
    (sh_healthy s \<longleftrightarrow> True \<in> set (map snd hs) \<and> trailing_failures (map snd hs) < 3)"
  using run_probes_history [OF assms] by blast

text \<open>
  C24. Probing never stops: if no probe is scheduled more than 300 seconds after the last check, the same
  holds after the next check, which never panics and tracks exactly the configured addresses; and at every
  check at least 300 seconds later, every configured address is due, however long it has been failing.
\<close>

theorem probe_gap_bounded:
  assumes "probe_ok probe" "schedule_ok now state" "now \<le> now'"
  shows "\<exists>changed state' config'. health_check probe now' state config = Some (changed, state', config') \<and>
    schedule_ok now' state' \<and> dom state' = set (health_addrs config) \<and>
    (\<forall>now''. now' + secs 300 \<le> now'' \<longrightarrow>
      health_due now'' (tracked now'' config state') (health_addrs config) = health_addrs config)"
proof -
  obtain changed state' config' where r: "health_check probe now' state config = Some (changed, state', config')"
    unfolding health_check_eq [OF assms(1)] Let_def by (metis (full_types))
  note s = health_check_schedule [OF assms r]
  have "health_due now'' (tracked now'' config state') (health_addrs config) = health_addrs config"
    if "now' + secs 300 \<le> now''" for now''
    unfolding health_due_def filter_id_conv
  proof
    fix addr
    assume "addr \<in> set (health_addrs config)"
    then obtain h where h: "state' addr = Some h" "tracked now'' config state' addr = Some h"
      using s by (auto simp: tracked_def dom_def)
    then have "sh_next_probe_at h \<le> now' + secs 300" using s by (auto simp: schedule_ok_def)
    with h that show "case tracked now'' config state' addr of Some s \<Rightarrow> sh_next_probe_at s \<le> now'' | None \<Rightarrow> False" by simp
  qed
  with r s show ?thesis by blast
qed

theorem health_hysteresis_witness:
  "\<exists>s. run_probes (server_health_new 0) [(1, True), (2, False), (3, False)] = Some s \<and> sh_healthy s"
  using health_hysteresis [of "[(1, True), (2, False), (3, False)]" 0] by (simp add: trailing_failures_def)

theorem probe_gap_bounded_witness:
  "\<exists>changed state' config'. health_check (map (\<lambda>a. (a, True))) 5 Map.empty (sample_table 0) = Some (changed, state', config') \<and>
     dom state' = set (health_addrs (sample_table 0))"
proof -
  have "probe_ok (map (\<lambda>a. (a, True)))" by (auto simp: probe_ok_def comp_def)
  from probe_gap_bounded [OF this, of 0 Map.empty 5 "sample_table 0"] show ?thesis by (auto simp: schedule_ok_def)
qed

end
