(* ===== verification/Key_Age.thy ===== *)
theory Key_Age
  imports Config_Table
begin

text \<open>
  \<open>pesigitg-daemon/src/config/key_age.rs\<close>: one warning for each key that outlives its configured age. The
  log lines are the output of the model.
\<close>

section \<open>Operations\<close>

datatype key_warning = QlbKeyOld u8 nat u64 | RetryKeyOld nat u64

record key_age_warner =
  kw_qlb_warned_for :: "instant option list"
  kw_retry_warned_for :: "instant option"

definition warner_new :: key_age_warner where
  "warner_new = \<lparr>kw_qlb_warned_for = replicate 7 None, kw_retry_warned_for = None\<rparr>"

text \<open>The body of the loop over the configs.\<close>

fun check_config ::
  "config_table \<Rightarrow> instant \<Rightarrow> key_age_warner \<times> key_warning list \<Rightarrow> route_config \<Rightarrow>
     (key_age_warner \<times> key_warning list) run" where
  "check_config table now (self, log) cfg =
     (case rc_max_key_age_secs cfg of
        None \<Rightarrow> ret (self, log)
      | Some limit \<Rightarrow>
          case loaded_at table (rc_config_id cfg) of
            None \<Rightarrow> ret (self, log)
          | Some loaded \<Rightarrow>
              let age = as_secs (duration_since now loaded) in
              if age \<le> unat limit then ret (self, log)
              else do {
                let slot = unat (rc_config_id cfg);
                warned \<leftarrow> idx (kw_qlb_warned_for self) slot;
                if warned = Some loaded then ret (self, log)
                else do {
                  qlb \<leftarrow> set_idx (kw_qlb_warned_for self) slot (Some loaded);
                  ret (self\<lparr>kw_qlb_warned_for := qlb\<rparr>, log @ [QlbKeyOld (rc_config_id cfg) age limit])
                }
              })"

definition check_at ::
  "key_age_warner \<Rightarrow> config_table \<Rightarrow> instant \<Rightarrow> (key_age_warner \<times> key_warning list) run" where
  "check_at self table now = do {
     (self, log) \<leftarrow> foldM (check_config table now) (self, []) (configs table);
     case ct_retry table of
       None \<Rightarrow> ret (self, log)
     | Some retry \<Rightarrow>
         (case rt_max_key_age_secs retry of
            None \<Rightarrow> ret (self, log)
          | Some limit \<Rightarrow>
              let age = as_secs (duration_since now (rt_loaded_at retry)) in
              if age > unat limit \<and> kw_retry_warned_for self \<noteq> Some (rt_loaded_at retry)
              then ret (self\<lparr>kw_retry_warned_for := Some (rt_loaded_at retry)\<rparr>, log @ [RetryKeyOld age limit])
              else ret (self, log))
   }"

section \<open>Keys and their generations\<close>

text \<open>A key of the table, the instant its generation was loaded, and whether it is too old.\<close>

datatype key_ref = QlbKey u8 | RetryKey

fun generation :: "config_table \<Rightarrow> key_ref \<Rightarrow> instant option" where
  "generation table (QlbKey k) = (case get table k of None \<Rightarrow> None | Some _ \<Rightarrow> loaded_at table k)"
| "generation table RetryKey = map_option rt_loaded_at (ct_retry table)"

fun max_age :: "config_table \<Rightarrow> key_ref \<Rightarrow> u64 option" where
  "max_age table (QlbKey k) = Option.bind (get table k) rc_max_key_age_secs"
| "max_age table RetryKey = Option.bind (ct_retry table) rt_max_key_age_secs"

definition too_old :: "config_table \<Rightarrow> instant \<Rightarrow> key_ref \<Rightarrow> bool" where
  "too_old table now key \<longleftrightarrow>
     (\<exists>loaded limit. generation table key = Some loaded \<and> max_age table key = Some limit \<and>
        unat limit < as_secs (now - loaded))"

fun warned_for :: "key_age_warner \<Rightarrow> key_ref \<Rightarrow> instant option" where
  "warned_for w (QlbKey k) = (if unat k < 7 then kw_qlb_warned_for w ! unat k else None)"
| "warned_for w RetryKey = kw_retry_warned_for w"

fun warned_key :: "key_warning \<Rightarrow> key_ref" where
  "warned_key (QlbKeyOld k _ _) = QlbKey k"
| "warned_key (RetryKeyOld _ _) = RetryKey"

definition warnings_for :: "key_ref \<Rightarrow> key_warning list \<Rightarrow> nat" where
  "warnings_for key log = length (filter (\<lambda>w. warned_key w = key) log)"

definition warner_ok :: "key_age_warner \<Rightarrow> bool" where
  "warner_ok w \<longleftrightarrow> length (kw_qlb_warned_for w) = 7"

lemma warnings_for_simps [simp]:
  "warnings_for key [] = 0"
  "warnings_for key (xs @ ys) = warnings_for key xs + warnings_for key ys"
  "warnings_for key [w] = (if warned_key w = key then 1 else 0)"
  by (simp_all add: warnings_for_def)

lemma configs_indices:
  assumes "\<forall>i \<in> set is. \<forall>rc. f i = Some rc \<longrightarrow> unat (rc_config_id rc) = i"
  shows "map (\<lambda>rc. unat (rc_config_id rc)) (List.map_filter id (map f is)) = filter (\<lambda>i. f i \<noteq> None) is"
  using assms by (induction "is") (auto simp: map_filter_simps)

lemma table_wf_ids:
  assumes "table_wf aes_new t"
  shows "distinct (map rc_config_id (configs t))"
    and "\<And>rc. rc \<in> set (configs t) \<longleftrightarrow> get t (rc_config_id rc) = Some rc"
    and "\<And>rc. rc \<in> set (configs t) \<Longrightarrow> unat (rc_config_id rc) < 7"
proof -
  have len: "length (ct_slots t) = 7" and ids: "\<And>i rc. i < 7 \<Longrightarrow> ct_slots t ! i = Some rc \<Longrightarrow> unat (rc_config_id rc) = i"
    using assms by (auto simp: table_wf_def slot_wf_def)
  have slots: "ct_slots t = map ((!) (ct_slots t)) [0..<7]" using len by (metis map_nth)
  have "map (\<lambda>rc. unat (rc_config_id rc)) (configs t) = filter (\<lambda>i. ct_slots t ! i \<noteq> None) [0..<7]"
    unfolding configs_def by (subst slots, rule configs_indices) (auto simp: ids)
  then have "distinct (map (\<lambda>rc. unat (rc_config_id rc)) (configs t))" by simp
  then show "distinct (map rc_config_id (configs t))" by (auto simp: distinct_map inj_on_def)
  fix rc
  show mem: "rc \<in> set (configs t) \<longleftrightarrow> get t (rc_config_id rc) = Some rc"
    unfolding configs_mem unfolding in_set_conv_nth get_def nth_opt_def len using ids by auto
  show "unat (rc_config_id rc) < 7" if "rc \<in> set (configs t)"
    using that unfolding mem by (auto simp: get_def nth_opt_def len split: if_splits)
qed

section \<open>What one check does\<close>

lemma check_config_eq:
  assumes "warner_ok w" "get table (rc_config_id cfg) = Some cfg" "unat (rc_config_id cfg) < 7"
  shows "\<exists>w' log'. check_config table now (w, log) cfg = Some (w', log @ log') \<and> warner_ok w' \<and>
    (\<forall>key. warned_for w' key =
       (if key = QlbKey (rc_config_id cfg) \<and> too_old table now key then generation table key else warned_for w key)) \<and>
    (\<forall>key. warnings_for key log' =
       (if key = QlbKey (rc_config_id cfg) \<and> too_old table now key \<and> warned_for w key \<noteq> generation table key then 1 else 0))"
proof -
  have key: "warned_for (w\<lparr>kw_qlb_warned_for := (kw_qlb_warned_for w)[unat (rc_config_id cfg) := x]\<rparr>) key =
      (if key = QlbKey (rc_config_id cfg) then x else warned_for w key)" for key x
    using assms(1,3) by (cases key) (auto simp: warner_ok_def nth_list_update word_unat_eq_iff)
  have old: "too_old table now (QlbKey (rc_config_id cfg)) \<longleftrightarrow>
      (\<exists>loaded limit. loaded_at table (rc_config_id cfg) = Some loaded \<and> rc_max_key_age_secs cfg = Some limit \<and>
         unat limit < as_secs (now - loaded))"
    using assms(2) by (simp add: too_old_def)
  have gen: "generation table (QlbKey (rc_config_id cfg)) = loaded_at table (rc_config_id cfg)"
    using assms(2) by simp
  have len: "length (kw_qlb_warned_for w) = 7" using assms(1) by (simp add: warner_ok_def)
  have w: "warned_for w (QlbKey (rc_config_id cfg)) = kw_qlb_warned_for w ! unat (rc_config_id cfg)"
    using assms(3) by simp
  show ?thesis
  proof (cases "too_old table now (QlbKey (rc_config_id cfg))")
    case False
    then have "check_config table now (w, log) cfg = Some (w, log)"
      unfolding old by (auto simp: duration_since_def Let_def split: option.splits)
    with False assms(1) show ?thesis by (intro exI [of _ w] exI [of _ "[]"]) auto
  next
    case True
    then obtain loaded limit where l: "loaded_at table (rc_config_id cfg) = Some loaded"
        "rc_max_key_age_secs cfg = Some limit" "unat limit < as_secs (now - loaded)"
      unfolding old by auto
    show ?thesis
    proof (cases "kw_qlb_warned_for w ! unat (rc_config_id cfg) = Some loaded")
      case True
      then have "check_config table now (w, log) cfg = Some (w, log)"
        using l len assms(3) by (simp add: duration_since_def Let_def)
      with True assms(1) l(1) w show ?thesis unfolding gen [symmetric]
        by (intro exI [of _ w] exI [of _ "[]"]) (use gen l(1) in auto)
    next
      case False
      let ?w = "w\<lparr>kw_qlb_warned_for := (kw_qlb_warned_for w)[unat (rc_config_id cfg) := Some loaded]\<rparr>"
      let ?log = "[QlbKeyOld (rc_config_id cfg) (as_secs (now - loaded)) limit]"
      have "check_config table now (w, log) cfg = Some (?w, log @ ?log)"
        using l len assms(3) False by (simp add: duration_since_def Let_def)
      moreover have "warner_ok ?w" using len by (simp add: warner_ok_def)
      ultimately show ?thesis
        using False True l(1) w gen key by (intro exI [of _ ?w] exI [of _ ?log]) auto
    qed
  qed
qed

lemma check_configs_eq:
  assumes "warner_ok w" "distinct (map rc_config_id cfgs)"
    "\<forall>cfg \<in> set cfgs. get table (rc_config_id cfg) = Some cfg \<and> unat (rc_config_id cfg) < 7"
  shows "\<exists>w' log'. foldM (check_config table now) (w, log) cfgs = Some (w', log @ log') \<and> warner_ok w' \<and>
    (\<forall>key. warned_for w' key =
       (if key \<in> (QlbKey \<circ> rc_config_id) ` set cfgs \<and> too_old table now key then generation table key else warned_for w key)) \<and>
    (\<forall>key. warnings_for key log' =
       (if key \<in> (QlbKey \<circ> rc_config_id) ` set cfgs \<and> too_old table now key \<and> warned_for w key \<noteq> generation table key
        then 1 else 0))"
  using assms
proof (induction cfgs arbitrary: w log)
  case (Cons cfg cfgs)
  then obtain w1 log1 where one: "check_config table now (w, log) cfg = Some (w1, log @ log1)" "warner_ok w1"
      "\<And>key. warned_for w1 key =
         (if key = QlbKey (rc_config_id cfg) \<and> too_old table now key then generation table key else warned_for w key)"
      "\<And>key. warnings_for key log1 =
         (if key = QlbKey (rc_config_id cfg) \<and> too_old table now key \<and> warned_for w key \<noteq> generation table key then 1 else 0)"
    using check_config_eq [of w table cfg now log] by auto
  from Cons obtain w2 log2 where two: "foldM (check_config table now) (w1, log @ log1) cfgs = Some (w2, (log @ log1) @ log2)"
      "warner_ok w2"
      "\<And>key. warned_for w2 key =
         (if key \<in> (QlbKey \<circ> rc_config_id) ` set cfgs \<and> too_old table now key then generation table key else warned_for w1 key)"
      "\<And>key. warnings_for key log2 =
         (if key \<in> (QlbKey \<circ> rc_config_id) ` set cfgs \<and> too_old table now key \<and> warned_for w1 key \<noteq> generation table key
          then 1 else 0)"
    using one(2) Cons.IH [of w1 "log @ log1"] by auto
  have notin: "QlbKey (rc_config_id cfg) \<notin> (QlbKey \<circ> rc_config_id) ` set cfgs" using Cons.prems(2) by auto
  show ?case
  proof (intro exI [of _ w2] exI [of _ "log1 @ log2"] conjI allI)
    show "foldM (check_config table now) (w, log) (cfg # cfgs) = Some (w2, log @ log1 @ log2)"
      using one(1) two(1) by simp
    show "warner_ok w2" by fact
    fix key
    show "warned_for w2 key = (if key \<in> (QlbKey \<circ> rc_config_id) ` set (cfg # cfgs) \<and> too_old table now key
        then generation table key else warned_for w key)"
      unfolding two(3) one(3) by auto
    show "warnings_for key (log1 @ log2) = (if key \<in> (QlbKey \<circ> rc_config_id) ` set (cfg # cfgs) \<and> too_old table now key \<and>
        warned_for w key \<noteq> generation table key then 1 else 0)"
      unfolding warnings_for_simps two(4) one(4) one(3) using notin by auto
  qed
qed auto

text \<open>A check warns for exactly the keys that are too old and not yet warned for, and marks them.\<close>

lemma check_at_eq:
  assumes "table_wf aes_new table" "warner_ok w"
  shows "\<exists>w' log. check_at w table now = Some (w', log) \<and> warner_ok w' \<and>
    (\<forall>key. warned_for w' key = (if too_old table now key then generation table key else warned_for w key)) \<and>
    (\<forall>key. warnings_for key log = (if too_old table now key \<and> warned_for w key \<noteq> generation table key then 1 else 0))"
proof -
  note ids = table_wf_ids [OF assms(1)]
  from check_configs_eq [OF assms(2) ids(1), of table now "[]"] ids(2,3)
  obtain w1 log1 where one: "foldM (check_config table now) (w, []) (configs table) = Some (w1, log1)" "warner_ok w1"
      "\<And>key. warned_for w1 key = (if key \<in> (QlbKey \<circ> rc_config_id) ` set (configs table) \<and> too_old table now key
         then generation table key else warned_for w key)"
      "\<And>key. warnings_for key log1 = (if key \<in> (QlbKey \<circ> rc_config_id) ` set (configs table) \<and> too_old table now key \<and>
         warned_for w key \<noteq> generation table key then 1 else 0)"
    by auto
  have get_id: "rc_config_id rc = k" if "get table k = Some rc" for k rc
    using that assms(1) by (auto simp: get_def nth_opt_def table_wf_def slot_wf_def word_unat_eq_iff split: if_splits)
  have qlb: "QlbKey k \<in> (QlbKey \<circ> rc_config_id) ` set (configs table)" if old: "too_old table now (QlbKey k)" for k
  proof -
    obtain rc where "get table k = Some rc" using old by (cases "get table k") (auto simp: too_old_def)
    then have "rc \<in> set (configs table)" "rc_config_id rc = k" using get_id ids(2) by simp_all
    then show ?thesis by (auto simp: image_iff)
  qed
  have retry: "RetryKey \<notin> (QlbKey \<circ> rc_config_id) ` set (configs table)" by auto
  let ?due = "too_old table now RetryKey \<and> warned_for w RetryKey \<noteq> generation table RetryKey"
  define w2 where "w2 = (if ?due then w1\<lparr>kw_retry_warned_for := generation table RetryKey\<rparr> else w1)"
  obtain log2 where log2: "\<And>key. warnings_for key log2 = (if key = RetryKey \<and> ?due then 1 else 0)"
      "check_at w table now = Some (w2, log1 @ log2)"
  proof (cases ?due)
    case True
    then obtain rt limit where rt: "ct_retry table = Some rt" "rt_max_key_age_secs rt = Some limit"
        "unat limit < as_secs (now - rt_loaded_at rt)"
      by (auto simp: too_old_def split: option.splits Option.bind_splits)
    with True one(1) one(3) [of RetryKey] retry
    have "check_at w table now = Some (w2, log1 @ [RetryKeyOld (as_secs (now - rt_loaded_at rt)) limit])"
      by (auto simp: check_at_def w2_def duration_since_def Let_def)
    with True show ?thesis by (intro that [of "[RetryKeyOld (as_secs (now - rt_loaded_at rt)) limit]"]) auto
  next
    case False
    with one(1) one(3) [of RetryKey] retry
    have "check_at w table now = Some (w2, log1 @ [])"
      unfolding check_at_def w2_def
      by (auto simp: too_old_def duration_since_def Let_def split: option.splits)
    with False show ?thesis by (intro that [of "[]"]) auto
  qed
  show ?thesis
  proof (intro exI [of _ w2] exI [of _ "log1 @ log2"] conjI allI)
    show "check_at w table now = Some (w2, log1 @ log2)" by fact
    show "warner_ok w2" using one(2) by (simp add: w2_def warner_ok_def)
    fix key
    have "warned_for w2 key = (if key = RetryKey \<and> ?due then generation table key else warned_for w1 key)"
      by (cases key) (auto simp: w2_def)
    with one(3) [of key] retry qlb
    show "warned_for w2 key = (if too_old table now key then generation table key else warned_for w key)"
      by (cases key) auto
    show "warnings_for key (log1 @ log2) =
        (if too_old table now key \<and> warned_for w key \<noteq> generation table key then 1 else 0)"
      unfolding warnings_for_simps one(4) log2(1) using retry qlb by (cases key) auto
  qed
qed

section \<open>A run of checks\<close>

text \<open>The ticks of the main loop: the table in force and the time of each.\<close>

fun check_run ::
  "key_age_warner \<Rightarrow> (config_table \<times> instant) list \<Rightarrow> (key_age_warner \<times> key_warning list) run" where
  "check_run w [] = ret (w, [])"
| "check_run w ((table, now) # ticks) = do {
     (w, log) \<leftarrow> check_at w table now;
     (w, rest) \<leftarrow> check_run w ticks;
     ret (w, log @ rest)
   }"

lemma check_run_total:
  assumes "warner_ok w" "\<forall>(table, now) \<in> set ticks. table_wf aes_new table"
  shows "\<exists>w' log. check_run w ticks = Some (w', log)"
  using assms
proof (induction ticks arbitrary: w)
  case (Cons tick ticks)
  obtain table now where tick: "tick = (table, now)" by (cases tick)
  with Cons.prems check_at_eq [of aes_new table w now] obtain w1 log1
    where "check_at w table now = Some (w1, log1)" "warner_ok w1" by auto
  with Cons.IH [of w1] Cons.prems tick show ?case by auto
qed simp

lemma check_run_same_generation:
  assumes "warner_ok w" "\<forall>(table, now) \<in> set ticks. table_wf aes_new table \<and> generation table key = Some loaded"
    "check_run w ticks = Some (w', log)"
  shows "warnings_for key log =
    (if warned_for w key \<noteq> Some loaded \<and> (\<exists>(table, now) \<in> set ticks. too_old table now key) then 1 else 0)"
  using assms
proof (induction ticks arbitrary: w log)
  case (Cons tick ticks)
  obtain table now where tick: "tick = (table, now)" by (cases tick)
  have gen: "generation table key = Some loaded" and wf: "table_wf aes_new table" using Cons.prems tick by auto
  from check_at_eq [OF wf Cons.prems(1), of now] obtain w1 log1 where
      one: "check_at w table now = Some (w1, log1)" "warner_ok w1"
        "warned_for w1 key = (if too_old table now key then Some loaded else warned_for w key)"
        "warnings_for key log1 = (if too_old table now key \<and> warned_for w key \<noteq> Some loaded then 1 else 0)"
    using gen by metis
  from Cons.prems(3) one(1) tick obtain rest where
      rest: "check_run w1 ticks = Some (w', rest)" "log = log1 @ rest" by auto
  have "warnings_for key rest =
      (if warned_for w1 key \<noteq> Some loaded \<and> (\<exists>(table, now) \<in> set ticks. too_old table now key) then 1 else 0)"
    using Cons.IH [OF one(2) _ rest(1)] Cons.prems(2) by simp
  with one rest(2) tick show ?case by auto
qed simp

text \<open>
  One warning for each key generation. Over any run of checks of well-formed tables in which a key (of
  a config id, or the retry token key) keeps its load instant, the checks never panic, and the warnings
  for this key number exactly one if some check finds it older than its configured maximum, and zero
  otherwise.
\<close>

lemma key_warning_once:
  assumes "\<forall>(table, now) \<in> set ticks. table_wf aes_new table \<and> generation table key = Some loaded"
  shows "\<exists>w log. check_run warner_new ticks = Some (w, log) \<and>
    warnings_for key log = (if \<exists>(table, now) \<in> set ticks. too_old table now key then 1 else 0)"
proof -
  have new: "warner_ok warner_new" "warned_for warner_new key = None"
    by (simp_all add: warner_ok_def warner_new_def, cases key, simp_all)
  moreover have "\<forall>(table, now) \<in> set ticks. table_wf aes_new table" using assms by auto
  ultimately obtain w log where "check_run warner_new ticks = Some (w, log)" using check_run_total by blast
  with check_run_same_generation [OF new(1) assms] new(2) show ?thesis by auto
qed

definition aged_table :: config_table where
  "aged_table = (sample_table 0)\<lparr>ct_retry := Some (sample_retry\<lparr>rt_loaded_at := 0, rt_max_key_age_secs := Some 60\<rparr>)\<rparr>"

end
