(* ===== verification/Daemon.thy ===== *)
theory Daemon
  imports Daemon_Config Neigh Health Key_Age Stats Routing
begin

text \<open>
  The main thread: the reload of \<open>pesigitg-daemon/src/config/mod.rs\<close> and the start-up and the loop of
  \<open>main.rs\<close>. The route table is shared with the workers through an \<open>ArcSwap\<close>, which a worker reads once for
  each batch; here it is a field of the state. What an iteration reads from outside is its input: the
  pending signals, the counters of the workers, the neighbour tables, the probe results, clocks and the
  queues whose worker has exited. What it logs or tells systemd is a list of events; the plumbing of the
  signal thread, the XDP program and the sockets is left out.
\<close>

section \<open>The route table\<close>

text \<open>\<open>for config in rc.configs_mut() { neigh::resolve_macs(&mut config.servers) }\<close>; each call queries the kernel.\<close>

definition resolve_configs :: "(nat \<Rightarrow> string + neigh_table) \<Rightarrow> config_table \<Rightarrow> config_table" where
  "resolve_configs query rc =
     rc\<lparr>ct_slots := map (\<lambda>(i, slot). map_option (\<lambda>c. c\<lparr>rc_servers := resolve_macs (query i) (rc_servers c)\<rparr>) slot)
                     (enumerate 0 (ct_slots rc))\<rparr>"

definition table_clone :: "(bytes \<Rightarrow> aes128) \<Rightarrow> config_table \<Rightarrow> config_table" where
  "table_clone aes_new t =
     t\<lparr>ct_slots := map (map_option (\<lambda>rc. rc\<lparr>rc_encryption := encryption_clone aes_new (rc_encryption rc)\<rparr>)) (ct_slots t)\<rparr>"

text \<open>Third-party code: the AES key schedule and the TOML reader.\<close>

record platform =
  pl_aes_new :: "bytes \<Rightarrow> aes128"
  pl_toml :: "string \<Rightarrow> string + raw_config list"
  pl_toml_retry :: "string \<Rightarrow> string + raw_retry option"

text \<open>What loading a configuration reads: the file system, the kernel's neighbour table and clocks.\<close>

record load_input =
  li_metadata :: "string \<Rightarrow> string + nat"
  li_read :: "string \<Rightarrow> string + string"
  li_query :: "nat \<Rightarrow> string + neigh_table"
  li_now :: instant
  li_tracker :: tracker_ref
  li_reset_now :: instant

definition load_table :: "platform \<Rightarrow> load_input \<Rightarrow> args \<Rightarrow> (route_config_error + config_table) run" where
  "load_table pl inp args =
     from_file (pl_aes_new pl) (pl_toml pl) (pl_toml_retry pl) (li_read inp)
       (case ar_routeconfig args of Some path \<Rightarrow> path | None \<Rightarrow> DEFAULT_ROUTE_CONFIG) (li_now inp) (li_tracker inp)"

definition reload_args :: "load_input \<Rightarrow> args \<Rightarrow> args" where
  "reload_args inp args =
     (case ar_config args of
        None \<Rightarrow> args
      | Some path \<Rightarrow>
          (case file_config_from_file (li_metadata inp) (li_read inp) path of
             Inr fc \<Rightarrow> args\<lparr>ar_ports := fc_ports fc, ar_interface := fc_interface fc, ar_queues := fc_queues fc\<rparr>
           | Inl _ \<Rightarrow> args))"

text \<open>What the main thread logs and tells systemd.\<close>

datatype event = Ready string | Draining server u8 | StatsDump snapshot | StatsLine snapshot | Drained
  | Status string | KeyWarning key_warning | Stopping | WorkersDied "nat list"

definition build_status :: "args \<Rightarrow> config_table \<Rightarrow> string" where
  "build_status args rc =
     (let servers = concat (map rc_servers (configs rc));
          healthy = length (filter srv_healthy servers);
          draining = length (filter srv_draining servers);
          out = ar_interface args @ '' '' @ debug_list (map (\<lambda>p. dec (unat p)) (ar_ports args)) @ '' q='' @ dec (ar_queues args) @
                ''; backends '' @ dec healthy @ ''/'' @ dec (length servers) @ '' healthy''
      in if draining > 0 then out @ '', '' @ dec draining @ '' draining'' else out)"

definition log_draining_servers :: "config_table \<Rightarrow> (server \<times> u8) list" where
  "log_draining_servers table =
     concat (map (\<lambda>config. map (\<lambda>s. (s, rc_config_id config)) (filter srv_draining (rc_servers config))) (configs table))"

definition draining_events :: "config_table \<Rightarrow> event list" where
  "draining_events table = map (\<lambda>(s, k). Draining s k) (log_draining_servers table)"

definition reload_config :: "platform \<Rightarrow> load_input \<Rightarrow> args \<Rightarrow> config_table \<Rightarrow> (args \<times> config_table \<times> event list) run" where
  "reload_config pl inp args route_config = do {
     let args = reload_args inp args;
     new_rc \<leftarrow> load_table pl inp args;
     (rc, log) \<leftarrow> (case new_rc of
         Inl _ \<Rightarrow> ret (route_config, [])
       | Inr rc \<Rightarrow> do {
           let rc = rebuild_fallback_servers (resolve_configs (li_query inp) rc);
           rc \<leftarrow> inherit_ages_from rc route_config;
           ret (rc, draining_events rc)
         });
     ret (args, rc, log @ [Ready (build_status args rc)])
   }"

definition check_and_rebuild ::
  "(bytes \<Rightarrow> aes128) \<Rightarrow> (nat \<Rightarrow> string + neigh_table) \<Rightarrow> (ip_addr list \<Rightarrow> (ip_addr \<times> bool) list) \<Rightarrow> instant \<Rightarrow>
     config_table \<Rightarrow> health_state \<Rightarrow> (bool \<times> config_table \<times> health_state) run" where
  "check_and_rebuild aes_new query probe now route_config health = do {
     let rc = table_clone aes_new route_config;
     let unresolved = has_unresolved_macs rc;
     let rc = (if unresolved then resolve_configs query rc else rc);
     (changed, health, rc) \<leftarrow> health_check probe now health rc;
     if unresolved \<or> changed then ret (True, rebuild_fallback_servers rc, health)
     else ret (False, route_config, health)
   }"

section \<open>The loop\<close>

datatype signal = SIGHUP load_input | SIGUSR1 | SIGUSR2 | SIGINT | SIGTERM

datatype exit = Handoff | Shutdown | WorkerFailure "nat list"

record daemon =
  dm_args :: args
  dm_table :: config_table
  dm_health :: health_state
  dm_prev_stats :: snapshot
  dm_draining_had_traffic :: bool
  dm_warner :: key_age_warner

text \<open>Start-up, with the report of readiness that follows once the workers run.\<close>

definition daemon_start :: "platform \<Rightarrow> load_input \<Rightarrow> args \<Rightarrow> (route_config_error + daemon \<times> event list) run" where
  "daemon_start pl inp args =
     try_bind (load_table pl inp args) (\<lambda>rc.
       let rc = rebuild_fallback_servers (resolve_configs (li_query inp) rc) in
       ret (Inr (\<lparr>dm_args = args, dm_table = rc, dm_health = Map.empty, dm_prev_stats = snapshot_default,
         dm_draining_had_traffic = False, dm_warner = warner_new\<rparr>, draining_events rc @ [Ready (build_status args rc)])))"

definition on_sighup :: "platform \<Rightarrow> load_input \<Rightarrow> daemon \<Rightarrow> (daemon \<times> event list) run" where
  "on_sighup pl inp d = do {
     (args, table, log) \<leftarrow> reload_config pl inp (dm_args d) (dm_table d);
     ret (d\<lparr>dm_args := args, dm_table := table, dm_health := reset_backoff (li_reset_now inp) (dm_health d)\<rparr>, log)
   }"

text \<open>All pending signals; the last component says that the process ends.\<close>

fun handle_signals :: "platform \<Rightarrow> worker_stats list \<Rightarrow> daemon \<Rightarrow> signal list \<Rightarrow> (daemon \<times> event list \<times> exit option) run" where
  "handle_signals pl slots d [] = ret (d, [], None)"
| "handle_signals pl slots d (sig # rest) =
     (case sig of
        SIGHUP inp \<Rightarrow> do {
          (d, log) \<leftarrow> on_sighup pl inp d;
          (d, log', ex) \<leftarrow> handle_signals pl slots d rest;
          ret (d, log @ log', ex)
        }
      | SIGUSR1 \<Rightarrow> do {
          (d, log', ex) \<leftarrow> handle_signals pl slots d rest;
          ret (d, StatsDump (aggregate slots) # log', ex)
        }
      | SIGUSR2 \<Rightarrow> ret (d, [Stopping], Some Handoff)
      | _ \<Rightarrow> ret (d, [Stopping], Some Shutdown))"

record tick =
  ti_signals :: "signal list"
  ti_slots :: "worker_stats list"
  ti_query :: "nat \<Rightarrow> string + neigh_table"
  ti_probe :: "ip_addr list \<Rightarrow> (ip_addr \<times> bool) list"
  ti_probe_now :: instant
  ti_age_now :: instant
  ti_dead :: "nat list"

text \<open>The statistics of an iteration, and when draining is reported complete.\<close>

definition tick_stats :: "worker_stats list \<Rightarrow> daemon \<Rightarrow> daemon \<times> event list" where
  "tick_stats slots d =
     (let current = aggregate slots;
          diff = delta current (dm_prev_stats d);
          log = (if sn_rx_packets diff > 0 then [StatsLine diff] else []);
          (had, log) =
            (if sn_draining_forwarded diff > 0 then (True, log)
             else if dm_draining_had_traffic d \<and> has_draining_servers (dm_table d) then (False, log @ [Drained])
             else (dm_draining_had_traffic d, log))
      in (d\<lparr>dm_draining_had_traffic := had, dm_prev_stats := current\<rparr>, log))"

definition main_tick :: "platform \<Rightarrow> daemon \<Rightarrow> tick \<Rightarrow> (daemon \<times> event list \<times> exit option) run" where
  "main_tick pl d inp = do {
     (d, log, ex) \<leftarrow> handle_signals pl (ti_slots inp) d (ti_signals inp);
     if ex \<noteq> None then ret (d, log, ex)
     else do {
       let (d, log1) = tick_stats (ti_slots inp) d;
       (rebuilt, table, health) \<leftarrow>
         check_and_rebuild (pl_aes_new pl) (ti_query inp) (ti_probe inp) (ti_probe_now inp) (dm_table d) (dm_health d);
       let d = d\<lparr>dm_table := table, dm_health := health\<rparr>;
       let log2 = (if rebuilt then [Status (build_status (dm_args d) table)] else []);
       (warner, warnings) \<leftarrow> check_at (dm_warner d) (dm_table d) (ti_age_now inp);
       let d = d\<lparr>dm_warner := warner\<rparr>;
       let log = log @ log1 @ log2 @ map KeyWarning warnings;
       if ti_dead inp \<noteq> [] then ret (d, log @ [WorkersDied (ti_dead inp), Stopping], Some (WorkerFailure (ti_dead inp)))
       else ret (d, log, None)
     }
   }"

section \<open>Tables that differ in runtime state only\<close>

text \<open>
  Resolving MACs and mirroring health replace servers one by one, and keep everything the configuration
  file says about them.
\<close>

definition same_server :: "server \<Rightarrow> server \<Rightarrow> bool" where
  "same_server s s' \<longleftrightarrow> srv_id s' = srv_id s \<and> srv_address s' = srv_address s \<and> srv_draining s' = srv_draining s \<and>
     (\<forall>m. srv_mac s' = Some m \<longrightarrow> srv_mac s = Some m \<or> mac_wf m)"

definition same_config :: "route_config \<Rightarrow> route_config \<Rightarrow> bool" where
  "same_config c c' \<longleftrightarrow> (\<exists>ss. c' = c\<lparr>rc_servers := ss\<rparr> \<and> list_all2 same_server (rc_servers c) ss)"

definition same_routes :: "config_table \<Rightarrow> config_table \<Rightarrow> bool" where
  "same_routes t t' \<longleftrightarrow> (\<exists>slots. t' = t\<lparr>ct_slots := slots\<rparr> \<and> list_all2 (rel_option same_config) (ct_slots t) slots)"

lemma same_config_wf: "same_config c c' \<Longrightarrow> route_wf aes_new c \<Longrightarrow> route_wf aes_new c' \<and> rc_config_id c' = rc_config_id c"
  by (auto simp: same_config_def route_wf_def list_all_length list_all2_conv_all_nth same_server_def server_wf_def) blast

lemma same_routes_wf:
  assumes "same_routes t t'" "table_wf aes_new t"
  shows "table_wf aes_new t'"
proof -
  obtain slots where t': "t' = t\<lparr>ct_slots := slots\<rparr>" and rel: "list_all2 (rel_option same_config) (ct_slots t) slots"
    using assms(1) by (auto simp: same_routes_def)
  have len: "length slots = 7" using rel assms(2) by (simp add: table_wf_def list_all2_lengthD)
  have "slot_wf aes_new i (slots ! i) \<and> (slots ! i = None \<longleftrightarrow> ct_slots t ! i = None)" if "i < 7" for i
  proof -
    have "rel_option same_config (ct_slots t ! i) (slots ! i)" using rel that len by (auto simp: list_all2_conv_all_nth)
    moreover have "slot_wf aes_new i (ct_slots t ! i)" using assms(2) that by (simp add: table_wf_def)
    ultimately show ?thesis
      by (cases "ct_slots t ! i"; cases "slots ! i") (auto simp: slot_wf_def dest: same_config_wf)
  qed
  with assms(2) len show ?thesis by (auto simp: t' table_wf_def)
qed

definition query_ok :: "(nat \<Rightarrow> string + neigh_table) \<Rightarrow> bool" where
  "query_ok query \<longleftrightarrow> (\<forall>i table. query i = Inr table \<longrightarrow> neigh_ok table)"

lemma resolve_macs_same:
  assumes "\<And>table. query = Inr table \<Longrightarrow> neigh_ok table"
  shows "list_all2 (\<lambda>s s'. same_server s s' \<and> srv_healthy s' = srv_healthy s) ss (resolve_macs query ss)"
proof -
  have refl: "same_server s s" for s by (simp add: same_server_def)
  have "same_server s (resolve_server table s) \<and> srv_healthy (resolve_server table s) = srv_healthy s" if "neigh_ok table" for s table
    using that by (auto simp: resolve_server_def same_server_def neigh_ok_def split: option.splits)
  with refl assms show ?thesis
    by (auto simp: resolve_macs_def list_all2_conv_all_nth split: sum.splits)
qed

lemma resolve_configs_same:
  assumes "query_ok query"
  shows "same_routes t (resolve_configs query t)"
proof -
  have "same_config c (c\<lparr>rc_servers := resolve_macs (query i) (rc_servers c)\<rparr>)" for i c
    using resolve_macs_same [of "query i" "rc_servers c"] assms
    by (auto simp: same_config_def query_ok_def elim: list_all2_mono)
  then have "rel_option same_config slot (map_option (\<lambda>c. c\<lparr>rc_servers := resolve_macs (query i) (rc_servers c)\<rparr>) slot)" for i slot
    by (cases slot) auto
  then show ?thesis
    by (auto simp: same_routes_def resolve_configs_def list_all2_conv_all_nth nth_enumerate_eq)
qed

lemma mirror_same: "same_routes t (map_servers (mirror_server state) t)"
proof -
  have "same_server s (mirror_server state s)" for s
    by (auto simp: same_server_def mirror_server_def split: option.splits)
  then have "same_config c (c\<lparr>rc_servers := map (mirror_server state) (rc_servers c)\<rparr>)" for c
    by (auto simp: same_config_def list_all2_conv_all_nth)
  then have "rel_option same_config slot (map_option (\<lambda>c. c\<lparr>rc_servers := map (mirror_server state) (rc_servers c)\<rparr>) slot)" for slot
    by (cases slot) auto
  then show ?thesis by (auto simp: same_routes_def map_servers_def list_all2_conv_all_nth)
qed

lemma same_routes_configs: "same_routes t t' \<Longrightarrow> configs t' = [] \<longleftrightarrow> configs t = []"
proof -
  have "list_all2 (rel_option same_config) ss ss' \<Longrightarrow> List.map_filter id ss = [] \<longleftrightarrow> List.map_filter id ss' = []" for ss ss'
    by (induction rule: list_all2_induct) (auto simp: List.map_filter_def option_rel_Some1 option_rel_Some2)
  then show "same_routes t t' \<Longrightarrow> configs t' = [] \<longleftrightarrow> configs t = []"
    by (auto simp: same_routes_def configs_def)
qed

lemma table_clone_wf:
  assumes "table_wf aes_new t"
  shows "table_clone aes_new t = t"
proof -
  have "rc\<lparr>rc_encryption := encryption_clone aes_new (rc_encryption rc)\<rparr> = rc" if "Some rc \<in> set (ct_slots t)" for rc
  proof -
    have "route_wf aes_new rc" using table_wf_configs [OF assms] that by (simp add: configs_mem)
    then have "encryption_clone aes_new (rc_encryption rc) = rc_encryption rc"
      by (cases "rc_encryption rc") (auto simp: route_wf_def)
    then show ?thesis by simp
  qed
  then have "map_option (\<lambda>rc. rc\<lparr>rc_encryption := encryption_clone aes_new (rc_encryption rc)\<rparr>) slot = slot"
    if "slot \<in> set (ct_slots t)" for slot
    using that by (cases slot) auto
  then have "map (map_option (\<lambda>rc. rc\<lparr>rc_encryption := encryption_clone aes_new (rc_encryption rc)\<rparr>)) (ct_slots t) = ct_slots t"
    by (simp add: map_idI)
  then show ?thesis by (simp add: table_clone_def)
qed

section \<open>The table the workers read\<close>

definition table_ok :: "(bytes \<Rightarrow> aes128) \<Rightarrow> config_table \<Rightarrow> bool" where
  "table_ok aes_new t \<longleftrightarrow> table_wf aes_new t \<and> configs t \<noteq> [] \<and> pool_of (all_servers t) (ct_fallback_servers t)"

lemma configs_updates [simp]:
  "configs (t\<lparr>ct_fallback_servers := a\<rparr>) = configs t" "configs (t\<lparr>ct_path := b\<rparr>) = configs t"
  "configs (t\<lparr>ct_loaded_at := c, ct_retry := r\<rparr>) = configs t"
  by (simp_all add: configs_def)

lemma all_servers_updates [simp]:
  "all_servers (t\<lparr>ct_fallback_servers := a\<rparr>) = all_servers t" "all_servers (t\<lparr>ct_path := b\<rparr>) = all_servers t"
  "all_servers (t\<lparr>ct_loaded_at := c, ct_retry := r\<rparr>) = all_servers t"
  by (simp_all add: all_servers_def)

lemma rebuild_ok: "table_wf aes_new t \<Longrightarrow> configs t \<noteq> [] \<Longrightarrow> table_ok aes_new (rebuild_fallback_servers t)"
  using rebuild_table_wf [of aes_new t] pool_of_foldl [of "all_servers t"] by (simp add: table_ok_def rebuild_flat)

lemma load_table_result:
  assumes "load_table pl inp args = Some (Inr rc)"
  shows "table_wf (pl_aes_new pl) rc" "configs rc \<noteq> []" "\<forall>s \<in> set (all_servers rc). server_initial s"
proof -
  from assms obtain content t path where t: "from_str (pl_aes_new pl) (pl_toml pl) (pl_toml_retry pl) content (li_now inp) (li_tracker inp) =
      Some (Inr t)" and rc: "rc = t\<lparr>ct_path := path\<rparr>"
    by (auto simp: load_table_def from_file_def)
  have "table_wf (pl_aes_new pl) t" "configs t \<noteq> []" using from_str_result [OF t] by auto
  then show "table_wf (pl_aes_new pl) rc" "configs rc \<noteq> []" by (simp_all add: rc table_wf_def)
  obtain rcs where rcs: "parse_routes (pl_aes_new pl) (pl_toml pl) content = Some (Inr rcs)" "ct_slots t = slots_of rcs"
    by (rule from_str_slots [OF t])
  have "c \<in> set rcs" if "c \<in> set (configs t)" for c
    using that by (auto simp: configs_mem rcs(2) slots_of_def) (metis find_Some_iff nth_mem)
  with parse_routes_result [OF rcs(1)] show "\<forall>s \<in> set (all_servers rc). server_initial s"
    by (auto simp: rc all_servers_def list_all_iff)
qed

lemma loaded_ok:
  assumes "load_table pl inp args = Some (Inr rc)" "query_ok query"
  shows "table_ok (pl_aes_new pl) (rebuild_fallback_servers (resolve_configs query rc))"
proof -
  note same = resolve_configs_same [OF assms(2), of rc]
  show ?thesis
    using load_table_result [OF assms(1)] same_routes_wf [OF same] same_routes_configs [OF same] by (intro rebuild_ok) auto
qed

text \<open>A reload gives a table that differs from the loaded one in the key ages, or keeps the old table.\<close>

lemma reload_table:
  assumes "table_ok (pl_aes_new pl) t" "query_ok (li_query inp)"
    "load_table pl inp (reload_args inp args) = Some (Inr rc)"
  obtains ages retry where
    "\<exists>log. reload_config pl inp args t = Some (reload_args inp args,
       rebuild_fallback_servers (resolve_configs (li_query inp) rc)\<lparr>ct_loaded_at := ages, ct_retry := retry\<rparr>, log)"
    "table_ok (pl_aes_new pl) (rebuild_fallback_servers (resolve_configs (li_query inp) rc)\<lparr>ct_loaded_at := ages, ct_retry := retry\<rparr>)"
proof -
  let ?self = "rebuild_fallback_servers (resolve_configs (li_query inp) rc)"
  have self: "table_ok (pl_aes_new pl) ?self" using loaded_ok [OF assms(3,2)] .
  obtain t' where t': "inherit_ages_from ?self t = Some t'" "table_wf (pl_aes_new pl) t'"
      "t' = ?self\<lparr>ct_loaded_at := ct_loaded_at t', ct_retry := ct_retry t'\<rparr>"
    using inherit_ages_result [of "pl_aes_new pl" ?self t] self assms(1) unfolding table_ok_def by blast
  have "configs t' = configs ?self" "all_servers t' = all_servers ?self" "ct_fallback_servers t' = ct_fallback_servers ?self"
    using arg_cong [OF t'(3), of configs] arg_cong [OF t'(3), of all_servers] arg_cong [OF t'(3), of ct_fallback_servers]
    by simp_all
  with t'(2) self have "table_ok (pl_aes_new pl) t'" by (simp add: table_ok_def)
  with t' assms(3) that [where ages = "ct_loaded_at t'" and retry = "ct_retry t'"] show ?thesis by (simp add: reload_config_def Let_def)
qed

lemma reload_config_ok:
  assumes "table_ok (pl_aes_new pl) t" "query_ok (li_query inp)" "reload_config pl inp args t = Some (args', t', log)"
  shows "table_ok (pl_aes_new pl) t'"
proof -
  obtain r where r: "load_table pl inp (reload_args inp args) = Some r"
    using assms(3) by (cases "load_table pl inp (reload_args inp args)") (auto simp: reload_config_def)
  show ?thesis
  proof (cases r)
    case (Inl e)
    with r assms show ?thesis by (simp add: reload_config_def Let_def)
  next
    case (Inr rc)
    with r have "load_table pl inp (reload_args inp args) = Some (Inr rc)" by simp
    from reload_table [OF assms(1,2) this] assms(3) show ?thesis by (metis option.inject prod.inject)
  qed
qed

lemma health_check_shape:
  assumes "probe_ok probe"
  shows "\<exists>changed h' rc'. health_check probe now h rc = Some (changed, h', rc') \<and>
    (rc' = rc \<or> (\<exists>st. rc' = map_servers (mirror_server st) rc))"
  unfolding health_check_eq [OF assms] Let_def by (simp split: if_split) blast

lemma check_and_rebuild_ok:
  assumes "table_ok aes_new t" "query_ok query" "probe_ok probe"
  shows "\<exists>b t' h'. check_and_rebuild aes_new query probe now t h = Some (b, t', h') \<and> table_ok aes_new t'"
proof -
  let ?rc = "if has_unresolved_macs t then resolve_configs query t else t"
  have wf: "table_wf aes_new t" "configs t \<noteq> []" using assms(1) by (simp_all add: table_ok_def)
  have rc: "table_wf aes_new ?rc" "configs ?rc \<noteq> []"
    using wf same_routes_wf [OF resolve_configs_same [OF assms(2)]] same_routes_configs [OF resolve_configs_same [OF assms(2)]] by auto
  obtain changed h' rc' where check: "health_check probe now h ?rc = Some (changed, h', rc')"
      and rc': "rc' = ?rc \<or> (\<exists>st. rc' = map_servers (mirror_server st) ?rc)"
    using health_check_shape [OF assms(3), of now h ?rc] by blast
  have "table_wf aes_new rc'" "configs rc' \<noteq> []"
    using rc rc' same_routes_wf [OF mirror_same] same_routes_configs [OF mirror_same] by auto
  then have "table_ok aes_new (rebuild_fallback_servers rc')" by (rule rebuild_ok)
  with check assms(1) show ?thesis by (simp add: check_and_rebuild_def table_clone_wf wf(1) Let_def) blast
qed

section \<open>Runs of the daemon\<close>

text \<open>What an iteration relies on: MACs from the kernel have six bytes, and the prober answers what it was asked.\<close>

fun signal_ok :: "signal \<Rightarrow> bool" where
  "signal_ok (SIGHUP inp) \<longleftrightarrow> query_ok (li_query inp)"
| "signal_ok _ \<longleftrightarrow> True"

fun reloads :: "signal \<Rightarrow> bool" where
  "reloads (SIGHUP _) \<longleftrightarrow> True"
| "reloads _ \<longleftrightarrow> False"

definition tick_ok :: "tick \<Rightarrow> bool" where
  "tick_ok inp \<longleftrightarrow> list_all signal_ok (ti_signals inp) \<and> query_ok (ti_query inp) \<and> probe_ok (ti_probe inp)"

inductive daemon_step :: "platform \<Rightarrow> daemon \<Rightarrow> daemon \<Rightarrow> bool" for pl where
  "tick_ok inp \<Longrightarrow> main_tick pl d inp = Some (d', log, None) \<Longrightarrow> daemon_step pl d d'"

definition daemon_ok :: "platform \<Rightarrow> daemon \<Rightarrow> bool" where
  "daemon_ok pl d \<longleftrightarrow> table_ok (pl_aes_new pl) (dm_table d) \<and> warner_ok (dm_warner d)"

lemma on_sighup_ok:
  "daemon_ok pl d \<Longrightarrow> query_ok (li_query inp) \<Longrightarrow> on_sighup pl inp d = Some (d', log) \<Longrightarrow> daemon_ok pl d'"
  by (auto simp: on_sighup_def daemon_ok_def dest: reload_config_ok)

lemma handle_signals_ok:
  "daemon_ok pl d \<Longrightarrow> list_all signal_ok sigs \<Longrightarrow> handle_signals pl slots d sigs = Some (d', log, ex) \<Longrightarrow> daemon_ok pl d'"
proof (induction sigs arbitrary: d d' log ex)
  case (Cons sig sigs)
  show ?case
  proof (cases sig)
    case (SIGHUP inp)
    with Cons.prems obtain d1 log1 log2 where "on_sighup pl inp d = Some (d1, log1)" "handle_signals pl slots d1 sigs = Some (d', log2, ex)"
      by auto
    with SIGHUP Cons on_sighup_ok [of pl d inp d1 log1] show ?thesis by auto
  qed (use Cons in auto)
qed simp

lemma handle_signals_quiet:
  "\<not> list_ex reloads sigs \<Longrightarrow> \<exists>log ex. handle_signals pl slots d sigs = Some (d, log, ex)"
  by (induction sigs) (auto split: signal.splits)

lemma tick_stats_fields [simp]:
  "dm_table (fst (tick_stats slots d)) = dm_table d" "dm_health (fst (tick_stats slots d)) = dm_health d"
  "dm_warner (fst (tick_stats slots d)) = dm_warner d" "dm_args (fst (tick_stats slots d)) = dm_args d"
  by (simp_all add: tick_stats_def Let_def)

text \<open>The part of an iteration behind the signals.\<close>

lemma main_tick_rest:
  assumes "daemon_ok pl d1" "query_ok (ti_query inp)" "probe_ok (ti_probe inp)"
    "handle_signals pl (ti_slots inp) d (ti_signals inp) = Some (d1, log1, None)"
  obtains d' log ex rebuilt where "main_tick pl d inp = Some (d', log, ex)" "daemon_ok pl d'"
    "check_and_rebuild (pl_aes_new pl) (ti_query inp) (ti_probe inp) (ti_probe_now inp) (dm_table d1) (dm_health d1) =
       Some (rebuilt, dm_table d', dm_health d')"
proof -
  obtain b t h where check: "check_and_rebuild (pl_aes_new pl) (ti_query inp) (ti_probe inp) (ti_probe_now inp) (dm_table d1) (dm_health d1) =
      Some (b, t, h)" and t: "table_ok (pl_aes_new pl) t"
    using check_and_rebuild_ok [of "pl_aes_new pl" "dm_table d1" "ti_query inp" "ti_probe inp" "ti_probe_now inp" "dm_health d1"]
      assms(1-3) unfolding daemon_ok_def by blast
  obtain w log where w: "check_at (dm_warner d1) t (ti_age_now inp) = Some (w, log)" "warner_ok w"
    using check_at_eq [of "pl_aes_new pl" t "dm_warner d1" "ti_age_now inp"] t assms(1)
    unfolding daemon_ok_def table_ok_def by blast
  obtain d2 log2 where d2: "tick_stats (ti_slots inp) d1 = (d2, log2)" by fastforce
  then have "dm_table d2 = dm_table d1" "dm_health d2 = dm_health d1" "dm_warner d2 = dm_warner d1"
    using tick_stats_fields [of "ti_slots inp" d1] by simp_all
  with check w d2 assms(4) have
    "\<exists>log ex. main_tick pl d inp = Some (d2\<lparr>dm_table := t, dm_health := h, dm_warner := w\<rparr>, log, ex)"
    by (cases "ti_dead inp = []") (simp_all add: main_tick_def Let_def)
  then obtain log ex where "main_tick pl d inp = Some (d2\<lparr>dm_table := t, dm_health := h, dm_warner := w\<rparr>, log, ex)"
    by blast
  from that [OF this] check t w(2) show ?thesis by (simp add: daemon_ok_def)
qed

lemma main_tick_ok:
  assumes "daemon_ok pl d" "tick_ok inp" "main_tick pl d inp = Some (d', log, ex)"
  shows "daemon_ok pl d'"
proof -
  obtain d1 log1 ex1 where sigs: "handle_signals pl (ti_slots inp) d (ti_signals inp) = Some (d1, log1, ex1)"
    using assms(3) by (cases "handle_signals pl (ti_slots inp) d (ti_signals inp)") (auto simp: main_tick_def)
  then have d1: "daemon_ok pl d1" using handle_signals_ok assms(1,2) by (auto simp: tick_ok_def)
  show ?thesis
  proof (cases ex1)
    case None
    with sigs assms(2) d1 main_tick_rest [of pl d1 inp d log1] assms(3) show ?thesis by (metis tick_ok_def option.inject prod.inject)
  next
    case (Some e)
    with sigs assms(3) d1 show ?thesis by (auto simp: main_tick_def)
  qed
qed

lemma main_tick_total:
  assumes "daemon_ok pl d" "tick_ok inp" "\<not> list_ex reloads (ti_signals inp)"
  shows "main_tick pl d inp \<noteq> None"
proof -
  obtain log ex where sigs: "handle_signals pl (ti_slots inp) d (ti_signals inp) = Some (d, log, ex)"
    using handle_signals_quiet assms(3) by blast
  show ?thesis
  proof (cases ex)
    case None
    with sigs assms main_tick_rest [of pl d inp d log] show ?thesis by (metis tick_ok_def option.distinct(1))
  next
    case (Some e)
    with sigs show ?thesis by (simp add: main_tick_def)
  qed
qed

section \<open>A reload and the health of the backends\<close>

text \<open>An iteration without a reload in which every probe confirms the health state that is already known.\<close>

definition confirms :: "daemon \<Rightarrow> tick \<Rightarrow> bool" where
  "confirms d inp \<longleftrightarrow> (\<forall>addrs addr ok. (addr, ok) \<in> set (ti_probe inp addrs) \<longrightarrow> flags (dm_health d) addr = Some ok)"

inductive quiet_step :: "platform \<Rightarrow> daemon \<Rightarrow> daemon \<Rightarrow> bool" for pl where
  "tick_ok inp \<Longrightarrow> \<not> list_ex reloads (ti_signals inp) \<Longrightarrow> confirms d inp \<Longrightarrow>
   main_tick pl d inp = Some (d', log, None) \<Longrightarrow> quiet_step pl d d'"

lemma probed_same:
  assumes "sh_healthy s = ok"
  shows "sh_healthy (probed now s ok) = ok"
proof (cases ok)
  case False
  with assms show ?thesis
    by (auto simp: probed_def apply_probe_def Let_def backoff_for_eq)
qed (simp add: probed_ok)

lemma confirmed_flags:
  assumes "\<And>addr ok. (addr, ok) \<in> set probes \<Longrightarrow> flags state addr = Some ok"
  shows "flags (after_round now probes (tracked now config state)) = flags (tracked now config state)"
proof
  fix addr
  show "flags (after_round now probes (tracked now config state)) addr = flags (tracked now config state) addr"
  proof (cases "map_of probes addr")
    case None
    then show ?thesis by (simp add: flags_def after_round_def option.map_ident)
  next
    case (Some ok)
    then have "flags state addr = Some ok" using assms map_of_SomeD by fast
    then obtain s where "state addr = Some s" "sh_healthy s = ok" by (auto simp: flags_def)
    with Some show ?thesis by (simp add: flags_def after_round_def tracked_def probed_same)
  qed
qed

lemma quiet_check:
  assumes "table_ok aes_new t" "\<not> has_unresolved_macs t" "probe_ok probe"
    "\<And>addrs addr ok. (addr, ok) \<in> set (probe addrs) \<Longrightarrow> flags h addr = Some ok"
  shows "\<exists>h'. check_and_rebuild aes_new query probe now t h = Some (False, t, h')"
proof -
  have "table_clone aes_new t = t" using assms(1) table_clone_wf by (auto simp: table_ok_def)
  moreover have "flags (after_round now (probe addrs) (tracked now t h)) = flags (tracked now t h)" for addrs
    by (rule confirmed_flags) (rule assms(4))
  then have "\<exists>h' rc'. health_check probe now h t = Some (False, h', rc')"
    by (simp add: health_check_eq [OF assms(3)] Let_def)
  ultimately show ?thesis using assms(2) by (auto simp: check_and_rebuild_def Let_def)
qed

lemma quiet_step_table:
  assumes "quiet_step pl d d'" "daemon_ok pl d" "\<not> has_unresolved_macs (dm_table d)"
  shows "daemon_ok pl d' \<and> dm_table d' = dm_table d"
  using assms(1)
proof cases
  case (1 inp log)
  obtain log1 ex where sigs: "handle_signals pl (ti_slots inp) d (ti_signals inp) = Some (d, log1, ex)"
    using handle_signals_quiet 1 by blast
  show ?thesis
  proof (cases ex)
    case None
    have ok: "query_ok (ti_query inp)" "probe_ok (ti_probe inp)" using 1 by (simp_all add: tick_ok_def)
    from sigs None obtain d2 log2 ex2 rebuilt where d2: "main_tick pl d inp = Some (d2, log2, ex2)" "daemon_ok pl d2"
        "check_and_rebuild (pl_aes_new pl) (ti_query inp) (ti_probe inp) (ti_probe_now inp) (dm_table d) (dm_health d) =
           Some (rebuilt, dm_table d2, dm_health d2)"
      using main_tick_rest [OF assms(2) ok, of d log1] by blast
    moreover obtain h' where "check_and_rebuild (pl_aes_new pl) (ti_query inp) (ti_probe inp) (ti_probe_now inp) (dm_table d) (dm_health d) =
        Some (False, dm_table d, h')"
      using quiet_check [OF _ assms(3) ok(2)] assms(2) 1 unfolding daemon_ok_def confirms_def by blast
    ultimately show ?thesis using 1 by simp
  next
    case (Some e)
    with sigs 1 show ?thesis by (simp add: main_tick_def)
  qed
qed

lemma quiet_steps_table:
  assumes "(quiet_step pl)\<^sup>*\<^sup>* d d'" "daemon_ok pl d" "\<not> has_unresolved_macs (dm_table d)"
  shows "daemon_ok pl d' \<and> dm_table d' = dm_table d"
  using assms(1) by induction (use assms(2,3) quiet_step_table in auto)

lemma resolved_unhealthy:
  assumes "query_ok query" "\<forall>s \<in> set (all_servers t). \<not> srv_healthy s"
  shows "\<forall>s \<in> set (all_servers (resolve_configs query t)). \<not> srv_healthy s"
proof
  fix s assume "s \<in> set (all_servers (resolve_configs query t))"
  then obtain c' where c': "Some c' \<in> set (ct_slots (resolve_configs query t))" "s \<in> set (rc_servers c')"
    by (auto simp: all_servers_def configs_mem)
  then obtain i c where c: "i < length (ct_slots t)" "ct_slots t ! i = Some c" "c' = c\<lparr>rc_servers := resolve_macs (query i) (rc_servers c)\<rparr>"
    by (auto simp: resolve_configs_def in_set_enumerate_eq) (metis (no_types, lifting) map_option_eq_Some)
  then have "c \<in> set (configs t)" using nth_mem by (fastforce simp: configs_mem)
  with assms(2) have "\<forall>s \<in> set (rc_servers c). \<not> srv_healthy s" by (auto simp: all_servers_def)
  moreover have "list_all2 (\<lambda>s s'. same_server s s' \<and> srv_healthy s' = srv_healthy s) (rc_servers c) (resolve_macs (query i) (rc_servers c))"
    using resolve_macs_same assms(1) by (auto simp: query_ok_def)
  ultimately show "\<not> srv_healthy s" using c' c
    by (auto simp: list_all2_conv_all_nth in_set_conv_nth [of s])
qed

lemma unhealthy_pool: "\<forall>s \<in> set (all_servers t). \<not> srv_healthy s \<Longrightarrow> ct_fallback_servers (rebuild_fallback_servers t) = []"
  using pool_of_foldl [of "all_servers t"] by (cases "foldl push_fallback [] (all_servers t)") (auto simp: rebuild_flat pool_of_def eligible_def)

lemma cid_server_mem:
  assumes "table_wf aes_new t" "cid_server quic t = Some (dcid, rc, s)"
  shows "s \<in> set (all_servers t)"
proof -
  obtain i where "lookup_config quic t = Some (Some (dcid, rc))" "resolve_server_idx dcid rc = Some (Some i)" "s = rc_servers rc ! i"
    using assms(2) by (auto simp: cid_server_def split: option.splits)
  then have "rc \<in> set (configs t)" "i < length (rc_servers rc)" "s = rc_servers rc ! i"
    using lookup_config_Some [OF assms(1)] resolve_server_idx_in_range by blast+
  then show ?thesis using nth_mem by (fastforce simp: all_servers_def)
qed

section \<open>Properties\<close>

text \<open>
  C9. The table the workers read is always usable. From start-up on, whatever signals, reloads, neighbour
  tables and probe results the iterations of the main loop see, the published table is well formed, has at
  least one config, and its fallback pool is the pool of its own servers: the eligible ones, once for each
  address. An iteration without a reload never panics.
\<close>

theorem daemon_table_ok:
  assumes "daemon_start pl inp args = Some (Inr (d0, log))" "query_ok (li_query inp)" "(daemon_step pl)\<^sup>*\<^sup>* d0 d"
  shows "table_wf (pl_aes_new pl) (dm_table d) \<and> configs (dm_table d) \<noteq> [] \<and>
    pool_of (all_servers (dm_table d)) (ct_fallback_servers (dm_table d)) \<and>
    (\<forall>tick. tick_ok tick \<longrightarrow> \<not> list_ex reloads (ti_signals tick) \<longrightarrow> main_tick pl d tick \<noteq> None)"
proof -
  have "daemon_ok pl d0"
    using assms(1,2) loaded_ok [of pl inp args]
    by (auto simp: daemon_start_def Let_def daemon_ok_def warner_ok_def warner_new_def)
  with assms(3) have "daemon_ok pl d"
    by (induction rule: rtranclp_induct) (auto elim!: daemon_step.cases dest: main_tick_ok)
  then show ?thesis using main_tick_total [of pl d] by (auto simp: daemon_ok_def table_ok_def)
qed

text \<open>
  C10. After a reload the backends stay down. Let a SIGHUP load a route file all of whose servers have a
  known MAC. The new table starts with every server unhealthy and an empty fallback pool, and as long as
  no further reload arrives and every probe confirms the health state the checker already has (healthy
  backends keep answering, failed ones keep failing), no iteration publishes another table: no packet
  without an entry in the connection table is forwarded to a backend any more.
\<close>

theorem reload_outage:
  assumes "daemon_ok pl d" "query_ok (li_query inp)"
    and load: "load_table pl inp (reload_args inp (dm_args d)) = Some (Inr rc)"
    and macs: "\<not> has_unresolved_macs (resolve_configs (li_query inp) rc)"
  shows "\<exists>d1 log. on_sighup pl inp d = Some (d1, log) \<and>
    (\<forall>d2. (quiet_step pl)\<^sup>*\<^sup>* d1 d2 \<longrightarrow>
      dm_table d2 = dm_table d1 \<and> ct_fallback_servers (dm_table d2) = [] \<and>
      (\<forall>s \<in> set (all_servers (dm_table d2)). \<not> srv_healthy s) \<and>
      (\<forall>fx_hash frame flow quic conn local_mac now v frame' conn'.
        env_ok (pl_aes_new pl) (dm_table d2) conn local_mac \<longrightarrow> udp_payload frame = Some (flow, quic) \<longrightarrow>
        conn_lookup conn flow (fallback_key quic (dm_table d2)) now = None \<longrightarrow>
        process_packet fx_hash frame (dm_table d2) conn local_mac now = Some (v, frame', conn') \<longrightarrow> \<not> forwards v))"
proof -
  let ?rc = "resolve_configs (li_query inp) rc"
  have down: "\<forall>s \<in> set (all_servers ?rc). \<not> srv_healthy s"
    using load_table_result(3) [OF load] by (intro resolved_unhealthy [OF assms(2)]) (auto simp: server_initial_def)
  obtain ages retry log0 where r: "reload_config pl inp (dm_args d) (dm_table d) =
      Some (reload_args inp (dm_args d), rebuild_fallback_servers ?rc\<lparr>ct_loaded_at := ages, ct_retry := retry\<rparr>, log0)"
    using reload_table [OF _ assms(2) load] assms(1) unfolding daemon_ok_def by metis
  obtain d1 log where d1: "on_sighup pl inp d = Some (d1, log)"
      "dm_table d1 = rebuild_fallback_servers ?rc\<lparr>ct_loaded_at := ages, ct_retry := retry\<rparr>"
    using r by (simp add: on_sighup_def)
  have ok1: "daemon_ok pl d1" using on_sighup_ok [OF assms(1,2) d1(1)] .
  have table: "ct_fallback_servers (dm_table d1) = []" "\<forall>s \<in> set (all_servers (dm_table d1)). \<not> srv_healthy s"
      "\<not> has_unresolved_macs (dm_table d1)"
    using down unhealthy_pool [OF down] macs by (simp_all add: d1(2) has_unresolved_macs_def rebuild_flat)
  have "\<not> forwards v" if "env_ok (pl_aes_new pl) (dm_table d1) conn local_mac" "udp_payload frame = Some (flow, quic)"
      "conn_lookup conn flow (fallback_key quic (dm_table d1)) now = None"
      "process_packet fx_hash frame (dm_table d1) conn local_mac now = Some (v, frame', conn')"
    for fx_hash frame flow quic conn local_mac now v frame' conn'
    using process_packet_udp [OF that(1,2,4)] that(3) table(1,2) cid_server_mem [of "pl_aes_new pl" "dm_table d1"] that(1)
    by (fastforce simp: env_ok_def split: option.splits if_splits)
  with table d1(1) quiet_steps_table [OF _ ok1 table(3)] show ?thesis by metis
qed

section \<open>Witnesses\<close>

definition sample_platform :: platform where
  "sample_platform = \<lparr>pl_aes_new = xor_cipher, pl_toml = sample_toml, pl_toml_retry = sample_toml_retry\<rparr>"

definition sample_load :: load_input where
  "sample_load = \<lparr>li_metadata = (\<lambda>_. Inr 0), li_read = (\<lambda>_. Inr []), li_query = (\<lambda>_. Inl []), li_now = 5, li_tracker = 0,
     li_reset_now = 5\<rparr>"

definition sample_args :: args where
  "sample_args = \<lparr>ar_ports = [443], ar_interface = ''eth0'', ar_queues = 1, ar_config = None, ar_routeconfig = Some ''/lb.toml'',
     ar_status_socket = None, ar_foreground = True\<rparr>"

lemma sample_loads: "load_table sample_platform sample_load sample_args = Some (Inr (sample_table 5\<lparr>ct_path := ''/lb.toml''\<rparr>))"
  by (simp add: load_table_def sample_platform_def sample_load_def sample_args_def from_file_def sample_table_parses)

definition sample_daemon :: daemon where
  "sample_daemon = \<lparr>dm_args = sample_args,
     dm_table = rebuild_fallback_servers (resolve_configs (\<lambda>_. Inl []) (sample_table 5\<lparr>ct_path := ''/lb.toml''\<rparr>)),
     dm_health = Map.empty, dm_prev_stats = snapshot_default, dm_draining_had_traffic = False, dm_warner = warner_new\<rparr>"

lemma sample_starts: "daemon_start sample_platform sample_load sample_args = Some (Inr (sample_daemon, draining_events (dm_table sample_daemon) @ [Ready (build_status sample_args (dm_table sample_daemon))]))"
  using sample_loads by (simp add: daemon_start_def Let_def sample_daemon_def) (simp add: sample_load_def)

lemma sample_query: "query_ok (li_query sample_load)"
  by (simp add: query_ok_def sample_load_def)

theorem daemon_table_ok_witness: "table_wf xor_cipher (dm_table sample_daemon)"
  using daemon_table_ok [OF sample_starts sample_query, of sample_daemon] by (simp add: sample_platform_def)

theorem reload_outage_witness:
  "\<exists>d1 log. on_sighup sample_platform sample_load sample_daemon = Some (d1, log) \<and> ct_fallback_servers (dm_table d1) = []"
proof -
  have "daemon_ok sample_platform sample_daemon"
    using loaded_ok [OF sample_loads, of "\<lambda>_. Inl []"]
    by (simp add: daemon_ok_def sample_daemon_def query_ok_def warner_ok_def warner_new_def)
  moreover have "load_table sample_platform sample_load (reload_args sample_load (dm_args sample_daemon)) =
      Some (Inr (sample_table 5\<lparr>ct_path := ''/lb.toml''\<rparr>))"
    using sample_loads by (simp add: reload_args_def sample_daemon_def) (simp add: sample_args_def)
  moreover have "\<not> has_unresolved_macs (resolve_configs (li_query sample_load) (sample_table 5\<lparr>ct_path := ''/lb.toml''\<rparr>))"
    by (simp add: has_unresolved_macs_def configs_def resolve_configs_def sample_table_def sample_rc_def sample_server_def
        sample_load_def resolve_macs_def List.map_filter_def)
  ultimately show ?thesis using reload_outage [OF _ sample_query] by blast
qed

end
