(* ===== verification/Status_Api.thy ===== *)
theory Status_Api
  imports Daemon
begin

text \<open>
  The status API of \<open>pesigitg-daemon/src/status_api.rs\<close>: reading a request, the answers as the values that
  are handed to the JSON library, and the limit on concurrent connections. Floating-point division is an
  argument, as are the strings that the build inserts; a socket is the sequence of results of its reads.
  The rates of \<open>stats.rs\<close> that only the API shows are here as well.
\<close>

section \<open>Text\<close>

text \<open>\<open>std::str::from_utf8\<close> accepts exactly the well-formed sequences of the Unicode standard.\<close>

definition utf8_tail :: "byte \<Rightarrow> bool" where
  "utf8_tail b \<longleftrightarrow> 0x80 \<le> b \<and> b \<le> 0xBF"

fun utf8_valid :: "bytes \<Rightarrow> bool" where
  "utf8_valid [] \<longleftrightarrow> True"
| "utf8_valid (a # bs) \<longleftrightarrow>
     (if a < 0x80 then utf8_valid bs
      else case bs of
        b # cs \<Rightarrow>
          if 0xC2 \<le> a \<and> a \<le> 0xDF then utf8_tail b \<and> utf8_valid cs
          else (case cs of
            c # ds \<Rightarrow>
              if 0xE0 \<le> a \<and> a \<le> 0xEF then
                utf8_tail b \<and> (a = 0xE0 \<longrightarrow> 0xA0 \<le> b) \<and> (a = 0xED \<longrightarrow> b \<le> 0x9F) \<and> utf8_tail c \<and> utf8_valid ds
              else (case ds of
                d # es \<Rightarrow>
                  0xF0 \<le> a \<and> a \<le> 0xF4 \<and> utf8_tail b \<and> (a = 0xF0 \<longrightarrow> 0x90 \<le> b) \<and> (a = 0xF4 \<longrightarrow> b \<le> 0x8F) \<and>
                  utf8_tail c \<and> utf8_tail d \<and> utf8_valid es
              | [] \<Rightarrow> False)
          | [] \<Rightarrow> False)
      | [] \<Rightarrow> False)"

text \<open>\<open>{:x}\<close> of a 16-bit group, and \<open>IpAddr::to_string\<close>: the first longest run of zero groups is abbreviated.\<close>

fun hex_text :: "nat \<Rightarrow> string" where
  "hex_text n = (if n < 16 then [hex_digit n] else hex_text (n div 16) @ [hex_digit (n mod 16)])"

declare hex_text.simps [simp del]

fun groups :: "bytes \<Rightarrow> nat list" where
  "groups (a # b # bs) = (unat a * 256 + unat b) # groups bs"
| "groups _ = []"

definition zero_run :: "nat list \<Rightarrow> nat \<Rightarrow> nat" where
  "zero_run gs i = length (takeWhile (\<lambda>g. g = 0) (drop i gs))"

definition longest_run :: "nat list \<Rightarrow> nat \<times> nat" where
  "longest_run gs =
     foldl (\<lambda>(start, len) i. if zero_run gs i > len then (i, zero_run gs i) else (start, len)) (0, 0) [0..<length gs]"

definition ipv4_text :: "bytes \<Rightarrow> string" where
  "ipv4_text os = join ''.'' (map (\<lambda>b. dec (unat b)) os)"

definition ipv6_text :: "bytes \<Rightarrow> string" where
  "ipv6_text os =
     (let gs = groups os; (start, len) = longest_run gs;
          show = (\<lambda>gs. join '':'' (map hex_text gs))
      in if take 6 gs = [0, 0, 0, 0, 0, 0xFFFF] then ''::ffff:'' @ ipv4_text (drop 12 os)
         else if len > 1 then show (take start gs) @ ''::'' @ show (drop (start + len) gs)
         else show gs)"

fun ip_text :: "ip_addr \<Rightarrow> string" where
  "ip_text (V4 os) = ipv4_text os"
| "ip_text (V6 os) = ipv6_text os"

section \<open>Views\<close>

definition ratio :: "(u64 \<Rightarrow> u64 \<Rightarrow> 'r::zero) \<Rightarrow> u64 \<Rightarrow> u64 \<Rightarrow> 'r" where
  "ratio fdiv n d = (if d = 0 then 0 else fdiv n d)"

definition retry_forgery_rate :: "(u64 \<Rightarrow> u64 \<Rightarrow> 'r::zero) \<Rightarrow> snapshot \<Rightarrow> 'r" where
  "retry_forgery_rate fdiv s =
     ratio fdiv (sn_retry_token_invalid s)
       (sn_retry_token_validated s + sn_retry_token_invalid s + sn_retry_token_expired s)"

definition cid_probing_rate :: "(u64 \<Rightarrow> u64 \<Rightarrow> 'r::zero) \<Rightarrow> snapshot \<Rightarrow> 'r" where
  "cid_probing_rate fdiv s =
     ratio fdiv (sn_cid_unroutable_bad_server_id s)
       (sn_cid_routed s + sn_cid_unroutable_no_server s + sn_cid_unroutable_bad_server_id s)"

record 'r retry_view =
  rv_initials_seen :: u64
  rv_issued :: u64
  rv_token_validated :: u64
  rv_token_invalid :: u64
  rv_token_expired :: u64
  rv_parse_error :: u64
  rv_forgery_rate :: 'r

record 'r snapshot_view =
  sv_rx_packets :: u64
  sv_forwarded :: u64
  sv_cid_routed :: u64
  sv_cid_by_config :: "(u8 \<times> u64) list"
  sv_fallback_routed :: u64
  sv_cid_unroutable :: u64
  sv_cid_unroutable_no_server :: u64
  sv_cid_unroutable_bad_server_id :: u64
  sv_cid_probing_rate :: 'r
  sv_draining_forwarded :: u64
  sv_icmp_forwarded :: u64
  sv_passed :: u64
  sv_pending_fill_peak :: u64
  sv_retry :: "'r retry_view"

definition snapshot_view_from :: "(u64 \<Rightarrow> u64 \<Rightarrow> 'r::zero) \<Rightarrow> snapshot \<Rightarrow> 'r snapshot_view" where
  "snapshot_view_from fdiv s =
     \<lparr>sv_rx_packets = sn_rx_packets s, sv_forwarded = sn_forwarded s, sv_cid_routed = sn_cid_routed s,
      sv_cid_by_config = List.map_filter (\<lambda>(i, n). if n > 0 then Some (of_nat i, n) else None) (enumerate 0 (sn_cid_by_config s)),
      sv_fallback_routed = sn_fallback_routed s, sv_cid_unroutable = cid_unroutable s,
      sv_cid_unroutable_no_server = sn_cid_unroutable_no_server s,
      sv_cid_unroutable_bad_server_id = sn_cid_unroutable_bad_server_id s,
      sv_cid_probing_rate = cid_probing_rate fdiv s, sv_draining_forwarded = sn_draining_forwarded s,
      sv_icmp_forwarded = sn_icmp_forwarded s, sv_passed = sn_passed s, sv_pending_fill_peak = sn_pending_fill_peak s,
      sv_retry = \<lparr>rv_initials_seen = sn_retry_initials_seen s, rv_issued = sn_retry_issued s,
        rv_token_validated = sn_retry_token_validated s, rv_token_invalid = sn_retry_token_invalid s,
        rv_token_expired = sn_retry_token_expired s, rv_parse_error = sn_retry_parse_error s,
        rv_forgery_rate = retry_forgery_rate fdiv s\<rparr>\<rparr>"

record health_response =
  hr_status :: string
  hr_uptime_secs :: nat
  hr_workers_alive :: nat
  hr_workers_expected :: nat

definition build_health_response :: "nat \<Rightarrow> nat \<Rightarrow> nat \<Rightarrow> health_response" where
  "build_health_response alive expected uptime =
     \<lparr>hr_status = if alive \<ge> expected then ''ok'' else ''degraded'', hr_uptime_secs = uptime,
      hr_workers_alive = alive, hr_workers_expected = expected\<rparr>"

record daemon_view =
  dv_interface :: string
  dv_ports :: "u16 list"
  dv_queues :: nat
  dv_config_path :: "string option"
  dv_route_config_path :: "string option"
  dv_status_socket_path :: "string option"
  dv_foreground :: bool

record server_view =
  vs_id :: string
  vs_address :: string
  vs_mac :: "string option"
  vs_healthy :: bool
  vs_draining :: bool
  vs_transitions :: u32
  vs_state_since_secs :: "nat option"

record route_config_view =
  vc_config_id :: u8
  vc_encryption :: string
  vc_server_id_length :: u8
  vc_nonce_length :: u8
  vc_key_age_secs :: "nat option"
  vc_max_key_age_secs :: "u64 option"
  vc_servers :: "server_view list"

record retry_config_view =
  vr_enabled :: bool
  vr_mode :: string
  vr_ports :: "u16 list"
  vr_token_lifetime_secs :: u64
  vr_key_age_secs :: nat
  vr_max_key_age_secs :: "u64 option"

record route_view =
  vt_path :: string
  vt_configs :: "route_config_view list"
  vt_fallback_pool :: "string list"
  vt_retry :: "retry_config_view option"

fun encryption_name :: "encryption \<Rightarrow> string" where
  "encryption_name Plaintext = ''plaintext''"
| "encryption_name (SinglePass _ _) = ''single_pass''"
| "encryption_name (FourPass _ _) = ''four_pass''"

fun retry_mode_name :: "retry_mode \<Rightarrow> string" where
  "retry_mode_name Observe = ''observe''"
| "retry_mode_name Always = ''always''"
| "retry_mode_name Load = ''load''"

definition from_retry :: "retry_config \<Rightarrow> instant \<Rightarrow> retry_config_view" where
  "from_retry rc now =
     \<lparr>vr_enabled = rt_enabled rc, vr_mode = retry_mode_name (rt_mode rc), vr_ports = rt_ports rc,
      vr_token_lifetime_secs = rt_token_lifetime_ms rc div 1000,
      vr_key_age_secs = as_secs (duration_since now (rt_loaded_at rc)), vr_max_key_age_secs = rt_max_key_age_secs rc\<rparr>"

definition server_view_from :: "instant \<Rightarrow> server \<Rightarrow> server_view" where
  "server_view_from now s =
     \<lparr>vs_id = hex_encode (srv_id s), vs_address = ip_text (srv_address s), vs_mac = map_option mac_format (srv_mac s),
      vs_healthy = srv_healthy s, vs_draining = srv_draining s, vs_transitions = srv_transitions s,
      vs_state_since_secs = map_option (\<lambda>t. as_secs (duration_since now t)) (srv_state_since s)\<rparr>"

text \<open>Each server view reads the clock itself: \<open>clock i\<close> is what it shows for the server at index \<open>i\<close>.\<close>

definition from_route :: "(nat \<Rightarrow> instant) \<Rightarrow> route_config \<Rightarrow> instant option \<Rightarrow> instant \<Rightarrow> route_config_view" where
  "from_route clock rc loaded now =
     \<lparr>vc_config_id = rc_config_id rc, vc_encryption = encryption_name (rc_encryption rc),
      vc_server_id_length = rc_server_id_length rc, vc_nonce_length = rc_nonce_length rc,
      vc_key_age_secs = (case rc_encryption rc of Plaintext \<Rightarrow> None | _ \<Rightarrow> map_option (\<lambda>t. as_secs (duration_since now t)) loaded),
      vc_max_key_age_secs = rc_max_key_age_secs rc, vc_servers = map (\<lambda>(i, s). server_view_from (clock i) s) (enumerate 0 (rc_servers rc))\<rparr>"

definition build_config_response :: "(u8 \<Rightarrow> nat \<Rightarrow> instant) \<Rightarrow> args \<Rightarrow> config_table \<Rightarrow> instant \<Rightarrow> daemon_view \<times> route_view" where
  "build_config_response clock a rc now =
     (\<lparr>dv_interface = ar_interface a, dv_ports = ar_ports a, dv_queues = ar_queues a, dv_config_path = ar_config a,
       dv_route_config_path = ar_routeconfig a, dv_status_socket_path = ar_status_socket a, dv_foreground = ar_foreground a\<rparr>,
      \<lparr>vt_path = ct_path rc,
       vt_configs = map (\<lambda>cfg. from_route (clock (rc_config_id cfg)) cfg (loaded_at rc (rc_config_id cfg)) now) (configs rc),
       vt_fallback_pool = map (\<lambda>s. ip_text (srv_address s)) (ct_fallback_servers rc),
       vt_retry = map_option (\<lambda>r. from_retry r now) (ct_retry rc)\<rparr>)"

section \<open>Requests\<close>

definition MAX_REQUEST_BYTES :: nat where "MAX_REQUEST_BYTES = 256"
definition MAX_CONCURRENT :: nat where "MAX_CONCURRENT = 4"

datatype request = TooLong | ReadError | Request bytes

text \<open>
  The read loop on the results of the reads, an error or the bytes that arrived (none at the end of the
  stream); a read returns at most what the buffer has room for. \<open>None\<close> is a loop that still waits.
\<close>

fun read_request :: "bytes \<Rightarrow> (string + bytes) list \<Rightarrow> request option" where
  "read_request buf reads =
     (if length buf = MAX_REQUEST_BYTES then Some TooLong
      else case reads of
        [] \<Rightarrow> None
      | Inl _ # _ \<Rightarrow> Some ReadError
      | Inr chunk # rest \<Rightarrow>
          (let got = take (MAX_REQUEST_BYTES - length buf) chunk in
           if got = [] then Some (Request buf)
           else if 10 \<in> set (buf @ got) then Some (Request (buf @ got))
           else read_request (buf @ got) rest))"

declare read_request.simps [simp del]

definition request_line :: "bytes \<Rightarrow> string" where
  "request_line buf =
     trim (takeWhile (\<lambda>c. c \<noteq> CHR 0x0A \<and> c \<noteq> CHR 0x0D) (if utf8_valid buf then map (\<lambda>b. char_of (unat b)) buf else []))"

datatype ('r, 'v) response =
    Endpoints "string list"
  | HealthReport health_response
  | VersionReport 'v
  | StatsReport nat "'r snapshot_view"
  | ConfigReport daemon_view route_view
  | ApiError string

record api_state =
  ap_args :: args
  ap_table :: config_table
  ap_slots :: "worker_stats list"
  ap_alive :: nat
  ap_expected :: nat
  ap_epoch :: instant

definition respond :: "(u64 \<Rightarrow> u64 \<Rightarrow> 'r::zero) \<Rightarrow> 'v \<Rightarrow> (u8 \<Rightarrow> nat \<Rightarrow> instant) \<Rightarrow> instant \<Rightarrow> api_state \<Rightarrow> string \<Rightarrow> ('r, 'v) response" where
  "respond fdiv version clock now st request =
     (let uptime = as_secs (duration_since now (ap_epoch st)) in
      if request = ''GET /'' then Endpoints [''/health'', ''/version'', ''/stats'', ''/config'']
      else if request = ''GET /health'' then HealthReport (build_health_response (ap_alive st) (ap_expected st) uptime)
      else if request = ''GET /version'' then VersionReport version
      else if request = ''GET /stats'' then StatsReport uptime (snapshot_view_from fdiv (aggregate (ap_slots st)))
      else if request = ''GET /config'' then
        (case build_config_response clock (ap_args st) (ap_table st) now of (d, r) \<Rightarrow> ConfigReport d r)
      else ApiError ''unknown endpoint'')"

text \<open>The answer of a connection: none after a read error.\<close>

definition handle_connection ::
  "(u64 \<Rightarrow> u64 \<Rightarrow> 'r::zero) \<Rightarrow> 'v \<Rightarrow> (u8 \<Rightarrow> nat \<Rightarrow> instant) \<Rightarrow> instant \<Rightarrow> api_state \<Rightarrow> (string + bytes) list \<Rightarrow>
     ('r, 'v) response option option" where
  "handle_connection fdiv version clock now st reads =
     (case read_request [] reads of
        None \<Rightarrow> None
      | Some TooLong \<Rightarrow> Some (Some (ApiError ''request too long''))
      | Some ReadError \<Rightarrow> Some None
      | Some (Request buf) \<Rightarrow> Some (Some (respond fdiv version clock now st (request_line buf))))"

section \<open>Concurrent connections\<close>

text \<open>
  The accept loop against the handler threads, one atomic operation per step: \<open>ac_pending\<close> is the value the
  accept loop got from \<open>fetch_add\<close> and has not acted on yet, \<open>ac_running\<close> counts the handlers that have not
  yet executed their \<open>fetch_sub\<close>.
\<close>

record acceptor =
  ac_active :: nat
  ac_running :: nat
  ac_pending :: "nat option"

definition acceptor_new :: acceptor where
  "acceptor_new = \<lparr>ac_active = 0, ac_running = 0, ac_pending = None\<rparr>"

inductive accept_step :: "acceptor \<Rightarrow> acceptor \<Rightarrow> bool" where
  accept: "ac_pending s = None \<Longrightarrow> accept_step s (s\<lparr>ac_active := ac_active s + 1, ac_pending := Some (ac_active s)\<rparr>)"
| busy: "ac_pending s = Some current \<Longrightarrow> current \<ge> MAX_CONCURRENT \<Longrightarrow>
    accept_step s (s\<lparr>ac_active := ac_active s - 1, ac_pending := None\<rparr>)"
| spawned: "ac_pending s = Some current \<Longrightarrow> current < MAX_CONCURRENT \<Longrightarrow>
    accept_step s (s\<lparr>ac_running := ac_running s + 1, ac_pending := None\<rparr>)"
| spawn_failed: "ac_pending s = Some current \<Longrightarrow> current < MAX_CONCURRENT \<Longrightarrow>
    accept_step s (s\<lparr>ac_active := ac_active s - 1, ac_pending := None\<rparr>)"
| finished: "ac_running s > 0 \<Longrightarrow> accept_step s (s\<lparr>ac_active := ac_active s - 1, ac_running := ac_running s - 1\<rparr>)"

definition acceptor_ok :: "acceptor \<Rightarrow> bool" where
  "acceptor_ok s \<longleftrightarrow>
     ac_active s = ac_running s + (case ac_pending s of None \<Rightarrow> 0 | Some _ \<Rightarrow> 1) \<and> ac_running s \<le> MAX_CONCURRENT \<and>
     (\<forall>current. ac_pending s = Some current \<longrightarrow> ac_running s \<le> current \<and> current \<le> MAX_CONCURRENT)"

lemma accept_step_ok: "accept_step s s' \<Longrightarrow> acceptor_ok s \<Longrightarrow> acceptor_ok s'"
  by (induction rule: accept_step.induct) (auto simp: acceptor_ok_def split: option.splits)

section \<open>Secrets\<close>

fun with_key :: "bytes \<Rightarrow> aes128 \<Rightarrow> encryption \<Rightarrow> encryption" where
  "with_key key cipher Plaintext = Plaintext"
| "with_key key cipher (SinglePass _ _) = SinglePass key cipher"
| "with_key key cipher (FourPass _ _) = FourPass key cipher"

text \<open>The table with every connection-id key and the token key replaced.\<close>

definition with_keys :: "(u8 \<Rightarrow> bytes \<times> aes128) \<Rightarrow> token_key \<Rightarrow> config_table \<Rightarrow> config_table" where
  "with_keys keys token_key t =
     t\<lparr>ct_slots := map (map_option (\<lambda>rc. rc\<lparr>rc_encryption := case keys (rc_config_id rc) of (k, c) \<Rightarrow> with_key k c (rc_encryption rc)\<rparr>))
        (ct_slots t),
       ct_retry := map_option (\<lambda>r. r\<lparr>rt_token_key := token_key\<rparr>) (ct_retry t)\<rparr>"

lemma configs_with_keys:
  "configs (with_keys keys token_key t) =
     map (\<lambda>rc. rc\<lparr>rc_encryption := case keys (rc_config_id rc) of (k, c) \<Rightarrow> with_key k c (rc_encryption rc)\<rparr>) (configs t)"
  by (auto simp: configs_def with_keys_def List.map_filter_def comp_def filter_map map_option_case split: option.splits)

lemma from_route_with_key:
  "from_route clock (rc\<lparr>rc_encryption := with_key k c (rc_encryption rc)\<rparr>) loaded now = from_route clock rc loaded now"
  by (cases "rc_encryption rc") (simp_all add: from_route_def)

lemma build_config_with_keys:
  "build_config_response clock a (with_keys keys token_key t) now = build_config_response clock a t now"
proof -
  have "loaded_at (with_keys keys token_key t) = loaded_at t"
    by (simp add: fun_eq_iff loaded_at_def with_keys_def)
  then show ?thesis
    by (simp add: build_config_response_def configs_with_keys from_route_with_key split_beta)
      (simp add: with_keys_def from_retry_def option.map_comp comp_def)
qed

lemma respond_with_keys:
  "respond fdiv version clock now (st\<lparr>ap_table := with_keys keys token_key (ap_table st)\<rparr>) = respond fdiv version clock now st"
  by (simp add: fun_eq_iff respond_def Let_def build_config_with_keys)

section \<open>Reading in pieces\<close>

lemma utf8_ascii: "(\<forall>b \<in> set bs. b < 0x80) \<Longrightarrow> utf8_valid bs"
  by (induction bs) auto

lemma newline: "(char_of (10 :: nat) :: char) = CHR 0x0A"
  by (simp add: char_of_eq_iff)

lemma request_line_ascii:
  assumes "\<forall>b \<in> set (bs @ cs). b < 0x80" "10 \<in> set bs"
  shows "request_line (bs @ cs) = request_line bs"
proof -
  have "CHR 0x0A \<in> set (map (\<lambda>b. char_of (unat b)) bs)"
    using imageI [OF assms(2), of "\<lambda>b. char_of (unat b) :: char"] by (simp add: newline)
  then show ?thesis using assms by (simp add: request_line_def utf8_ascii takeWhile_append1)
qed

lemma read_request_pieces:
  assumes "[] \<notin> set chunks" "10 \<notin> set buf" "length buf + length (concat chunks) < MAX_REQUEST_BYTES"
    "\<forall>b \<in> set (buf @ concat chunks). b < 0x80"
  shows "\<exists>got. read_request buf (map Inr chunks @ [Inr []]) = Some (Request got) \<and>
    request_line got = request_line (buf @ concat chunks)"
  using assms
proof (induction chunks arbitrary: buf)
  case Nil
  then show ?case by (simp add: read_request.simps)
next
  case (Cons c cs)
  show ?case
  proof (cases "10 \<in> set c")
    case True
    with Cons.prems request_line_ascii [of "buf @ c" "concat cs"] show ?thesis by (simp add: read_request.simps [of buf])
  next
    case False
    with Cons.prems Cons.IH [of "buf @ c"] show ?thesis by (auto simp: read_request.simps [of buf])
  qed
qed

lemma read_request_decides:
  "MAX_REQUEST_BYTES \<le> length buf + length reads \<Longrightarrow> length buf \<le> MAX_REQUEST_BYTES \<Longrightarrow> read_request buf reads \<noteq> None"
proof (induction reads arbitrary: buf)
  case (Cons r rs)
  show ?case
  proof (cases "length buf = MAX_REQUEST_BYTES")
    case False
    show ?thesis
    proof (cases r)
      case (Inr chunk)
      let ?got = "take (MAX_REQUEST_BYTES - length buf) chunk"
      have "read_request (buf @ ?got) rs \<noteq> None" if "?got \<noteq> []"
      proof (rule Cons.IH)
        have "0 < length ?got" using that by blast
        then show "MAX_REQUEST_BYTES \<le> length (buf @ ?got) + length rs" using Cons.prems(1) by (simp only: length_append list.size)
      qed (use Cons.prems in simp)
      with Inr False show ?thesis by (auto simp: read_request.simps [of buf] Let_def)
    qed (use False in \<open>simp add: read_request.simps [of buf]\<close>)
  qed (simp add: read_request.simps [of buf])
qed (simp add: read_request.simps)

section \<open>Properties\<close>

text \<open>
  C30. The status API does not reveal keys. The answer to any request is the same after all connection-id
  keys, their ciphers and the token key of the route table are replaced by others.
\<close>

theorem api_hides_keys:
  "handle_connection fdiv version clock now (st\<lparr>ap_table := with_keys keys token_key (ap_table st)\<rparr>) reads =
     handle_connection fdiv version clock now st reads"
  unfolding handle_connection_def respond_with_keys ..

text \<open>
  Every connection is decided, however its bytes arrive. After 256 reads the loop has ended, and an
  ASCII request of less than 256 bytes is answered in the same way in whatever pieces it is read, by its
  first line.
\<close>

lemma api_request_pieces:
  assumes "[] \<notin> set chunks" "length (concat chunks) < 256" "\<forall>b \<in> set (concat chunks). b < 0x80"
  shows "handle_connection fdiv version clock now st (map Inr chunks @ [Inr []]) =
      Some (Some (respond fdiv version clock now st (request_line (concat chunks)))) \<and>
    (256 \<le> length reads \<longrightarrow> handle_connection fdiv version clock now st reads \<noteq> None)"
proof -
  obtain got where "read_request [] (map Inr chunks @ [Inr []]) = Some (Request got)" "request_line got = request_line (concat chunks)"
    using read_request_pieces [of chunks "[]"] assms by (auto simp: MAX_REQUEST_BYTES_def)
  moreover have "256 \<le> length reads \<Longrightarrow> read_request [] reads \<noteq> None"
    using read_request_decides [of "[]" reads] by (simp add: MAX_REQUEST_BYTES_def)
  ultimately show ?thesis by (auto simp: handle_connection_def split: option.splits request.splits)
qed

text \<open>
  C31. At most four connections are handled at a time, in every interleaving of the accept loop with the
  handlers. The counter never exceeds five and never wraps below zero, and a connection is turned away
  only if all four handlers were busy when it was counted.
\<close>

theorem api_handlers_bounded:
  assumes "accept_step\<^sup>*\<^sup>* acceptor_new s"
  shows "ac_running s \<le> 4 \<and> ac_active s \<le> 5 \<and> (ac_running s > 0 \<or> ac_pending s \<noteq> None \<longrightarrow> ac_active s > 0) \<and>
    (\<forall>s'. accept_step s s' \<longrightarrow> ac_pending s = None \<longrightarrow> ac_pending s' = Some current \<longrightarrow> current \<ge> 4 \<longrightarrow> ac_running s = 4)"
proof -
  have "acceptor_ok acceptor_new" by (simp add: acceptor_ok_def acceptor_new_def)
  with assms have "acceptor_ok s" by (induction rule: rtranclp_induct) (auto dest: accept_step_ok)
  then show ?thesis by (auto simp: acceptor_ok_def MAX_CONCURRENT_def elim!: accept_step.cases split: option.splits)
qed

section \<open>Witnesses\<close>

definition sample_api :: api_state where
  "sample_api = \<lparr>ap_args = sample_args, ap_table = dm_table sample_daemon, ap_slots = [], ap_alive = 1, ap_expected = 2, ap_epoch = 0\<rparr>"

text \<open>The bytes of \<open>GET /health\<close> and a newline, in two pieces.\<close>

definition sample_chunks :: "bytes list" where
  "sample_chunks = [[71, 69, 84, 32, 47, 104, 101], [97, 108, 116, 104, 10]]"

lemma sample_request: "request_line (concat sample_chunks) = ''GET /health''"
  by code_simp

theorem api_handlers_bounded_witness:
  "\<exists>s. accept_step\<^sup>*\<^sup>* acceptor_new s \<and> ac_pending s = Some 0 \<and> ac_running s \<le> 4 \<and> ac_active s > 0"
proof -
  let ?s = "acceptor_new\<lparr>ac_active := ac_active acceptor_new + 1, ac_pending := Some (ac_active acceptor_new)\<rparr>"
  have step: "accept_step\<^sup>*\<^sup>* acceptor_new ?s"
    by (intro r_into_rtranclp accept) (simp add: acceptor_new_def)
  have "ac_pending ?s = Some 0" by (simp add: acceptor_new_def)
  with step api_handlers_bounded [OF step, of 0] show ?thesis by blast
qed

end
