(* ===== verification/Control.thy ===== *)
theory Control
  imports Status_Api "HOL-Library.Char_ord" "HOL-Library.List_Lexorder"
begin

text \<open>
  The control tool, \<open>pesigitg-control/src/main.rs\<close>: how it finds running daemons, which process a command
  addresses, which pidfiles it cleans up, and how it reads its own command line. The host is an argument:
  what the directories and the files under \<open>/proc\<close> return. What is printed for a human is left out. The
  command line of a process is kept as its arguments, where the tool joins them to one text.
\<close>

section \<open>The host\<close>

definition PID_DIR :: string where "PID_DIR = ''/var/run''"
definition PROC_NAME :: string where "PROC_NAME = ''pesigitgd''"
definition RUN_DIR :: string where "RUN_DIR = ''/run/pesigitg''"
definition PIDFILE_PREFIX :: string where "PIDFILE_PREFIX = ''pesigitgd-''"
definition PIDFILE_SUFFIX :: string where "PIDFILE_SUFFIX = ''.pid''"
definition SOCKET_PREFIX :: string where "SOCKET_PREFIX = ''status-''"
definition SOCKET_SUFFIX :: string where "SOCKET_SUFFIX = ''.sock''"

text \<open>
  The readable entries of the two directories, in the order the kernel lists them, each pidfile with its
  text if it can be read; the names under \<open>/proc\<close>, and the files \<open>comm\<close> and \<open>cmdline\<close> of a process.
\<close>

record host =
  ho_pid_dir :: "(string \<times> string option) list option"
  ho_run_dir :: "string list option"
  ho_proc :: "string list option"
  ho_comm :: "u32 \<Rightarrow> string option"
  ho_cmdline :: "u32 \<Rightarrow> string option"

text \<open>\<open>str::from_utf8\<close> and \<open>OsStr::to_str\<close>, and \<open>str::parse::<u32>\<close>.\<close>

definition from_utf8 :: "string \<Rightarrow> string option" where
  "from_utf8 s = (if utf8_valid (map of_char s) then Some s else None)"

definition parse_u32 :: "string \<Rightarrow> u32 option" where
  "parse_u32 s = map_option of_nat (from_str_radix 32 10 s)"

section \<open>Discovery\<close>

record instance_info =
  it_interface :: "string option"
  it_pid :: "u32 option"
  it_pidfile :: "string option"
  it_status_socket :: "string option"
  it_cmdline :: "string list option"

definition instance_default :: instance_info where
  "instance_default = \<lparr>it_interface = None, it_pid = None, it_pidfile = None, it_status_socket = None, it_cmdline = None\<rparr>"

definition affixed :: "string \<Rightarrow> string \<Rightarrow> string \<Rightarrow> string option" where
  "affixed pre suf name =
     Option.bind (strip_prefix pre name) (\<lambda>rest.
     Option.bind (strip_suffix suf rest) (\<lambda>iface. if iface = [] then None else Some iface))"

definition iface_from_pidfile :: "string \<Rightarrow> string option" where
  "iface_from_pidfile = affixed PIDFILE_PREFIX PIDFILE_SUFFIX"

definition iface_from_sockname :: "string \<Rightarrow> string option" where
  "iface_from_sockname = affixed SOCKET_PREFIX SOCKET_SUFFIX"

record proc_hit =
  ph_pid :: u32
  ph_interface :: "string option"
  ph_cmdline :: "string list"

definition is_pesigitgd_proc :: "host \<Rightarrow> u32 \<Rightarrow> bool" where
  "is_pesigitgd_proc h pid = (case ho_comm h pid of Some s \<Rightarrow> trim s = PROC_NAME | None \<Rightarrow> False)"

fun scan_args :: "string list \<Rightarrow> string option" where
  "scan_args [] = None"
| "scan_args (arg # rest) =
     (if arg = ''-i'' \<or> arg = ''--interface'' then
        (case rest of val # _ \<Rightarrow> from_utf8 val | [] \<Rightarrow> None)
      else case strip_prefix ''-i'' arg of
        Some val \<Rightarrow> if val \<noteq> [] then from_utf8 val else scan_args rest
      | None \<Rightarrow>
          (case strip_prefix ''--interface='' arg of
             Some val \<Rightarrow> from_utf8 val
           | None \<Rightarrow> scan_args rest))"

definition cmdline_args :: "string \<Rightarrow> string list" where
  "cmdline_args bytes = filter (\<lambda>s. s \<noteq> []) (split_on (CHR 0x00) bytes)"

definition iface_from_cmdline :: "string \<Rightarrow> string option" where
  "iface_from_cmdline bytes = scan_args (cmdline_args bytes)"

definition proc_entry :: "host \<Rightarrow> string \<Rightarrow> proc_hit option" where
  "proc_entry h name =
     Option.bind (Option.bind (from_utf8 name) parse_u32) (\<lambda>pid.
       if \<not> is_pesigitgd_proc h pid then None
       else map_option (\<lambda>bytes. \<lparr>ph_pid = pid, ph_interface = iface_from_cmdline bytes, ph_cmdline = cmdline_args bytes\<rparr>)
              (ho_cmdline h pid))"

definition scan_proc_for_pesigitgd :: "host \<Rightarrow> proc_hit list" where
  "scan_proc_for_pesigitgd h = (case ho_proc h of None \<Rightarrow> [] | Some names \<Rightarrow> List.map_filter (proc_entry h) names)"

text \<open>\<open>BTreeMap\<close> as its sorted entries: \<open>map.entry(k).or_default()\<close> followed by assignments.\<close>

type_synonym instances = "(string \<times> instance_info) list"

fun upd_entry :: "string \<Rightarrow> (instance_info \<Rightarrow> instance_info) \<Rightarrow> instances \<Rightarrow> instances" where
  "upd_entry k f [] = [(k, f instance_default)]"
| "upd_entry k f ((k', i) # m) =
     (if k = k' then (k, f i) # m
      else if k < k' then (k, f instance_default) # (k', i) # m
      else (k', i) # upd_entry k f m)"

text \<open>\<open>values_mut().find(|i| i.pid == Some(pid))\<close>, with the assignment to what it finds.\<close>

fun upd_by_pid :: "u32 \<Rightarrow> (instance_info \<Rightarrow> instance_info) \<Rightarrow> instances \<Rightarrow> instances option" where
  "upd_by_pid p f [] = None"
| "upd_by_pid p f ((k, i) # m) =
     (if it_pid i = Some p then Some ((k, f i) # m) else map_option (Cons (k, i)) (upd_by_pid p f m))"

definition add_pidfile :: "instances \<Rightarrow> string \<times> string option \<Rightarrow> instances" where
  "add_pidfile m entry =
     (case Option.bind (from_utf8 (fst entry)) iface_from_pidfile of
        None \<Rightarrow> m
      | Some iface \<Rightarrow>
          upd_entry iface (\<lambda>i. i\<lparr>it_interface := Some iface, it_pidfile := Some (path_join PID_DIR (fst entry)),
            it_pid := Option.bind (snd entry) (\<lambda>s. parse_u32 (trim s))\<rparr>) m)"

definition add_socket :: "instances \<Rightarrow> string \<Rightarrow> instances" where
  "add_socket m name =
     (case Option.bind (from_utf8 name) iface_from_sockname of
        None \<Rightarrow> m
      | Some iface \<Rightarrow>
          upd_entry iface (\<lambda>i. i\<lparr>it_interface := Some iface, it_status_socket := Some (path_join RUN_DIR name)\<rparr>) m)"

fun add_hit :: "instances \<times> instance_info list \<Rightarrow> proc_hit \<Rightarrow> instances \<times> instance_info list" where
  "add_hit (m, unnamed) hit =
     (case ph_interface hit of
        Some iface \<Rightarrow>
          (upd_entry iface (\<lambda>i. i\<lparr>it_interface := Some iface, it_pid := Some (ph_pid hit), it_cmdline := Some (ph_cmdline hit)\<rparr>) m,
           unnamed)
      | None \<Rightarrow>
          (case upd_by_pid (ph_pid hit) (\<lambda>i. i\<lparr>it_cmdline := Some (ph_cmdline hit)\<rparr>) m of
             Some m' \<Rightarrow> (m', unnamed)
           | None \<Rightarrow> (m, unnamed @ [instance_default\<lparr>it_pid := Some (ph_pid hit), it_cmdline := Some (ph_cmdline hit)\<rparr>])))"

definition from_files :: "host \<Rightarrow> instances" where
  "from_files h =
     (let m = (case ho_pid_dir h of None \<Rightarrow> [] | Some entries \<Rightarrow> foldl add_pidfile [] entries)
      in case ho_run_dir h of None \<Rightarrow> m | Some names \<Rightarrow> foldl add_socket m names)"

definition discover_instances :: "host \<Rightarrow> instance_info list" where
  "discover_instances h =
     (case foldl add_hit (from_files h, []) (scan_proc_for_pesigitgd h) of (m, unnamed) \<Rightarrow> map snd m @ unnamed)"

section \<open>Targets and signals\<close>

datatype target = Interface string | Pid u32

datatype target_error = Empty | NotFound string | Ambiguous "string list" | NotAPesigitgdProcess u32
  | NoStatusSocket string | Io string | ExtraArgs string | BadResponse string | RemoteError string

fun target_error_text :: "target_error \<Rightarrow> string" where
  "target_error_text Empty = ''no target''"
| "target_error_text (NotFound q) = ''no pesigitgd instance matching '' @ [CHR 0x27] @ q @ [CHR 0x27]"
| "target_error_text (Ambiguous names) = ''multiple pesigitgd instances running; specify one of: '' @ join '', '' names"
| "target_error_text (NotAPesigitgdProcess pid) = ''pid '' @ dec (unat pid) @ '' is not a pesigitgd process''"
| "target_error_text (NoStatusSocket iface) = ''no status socket for interface '' @ iface @ '' (status_socket not configured?)''"
| "target_error_text (Io e) = ''i/o error: '' @ e"
| "target_error_text (ExtraArgs s) = s"
| "target_error_text (BadResponse s) = ''bad response from daemon: '' @ s"
| "target_error_text (RemoteError s) = ''daemon error: '' @ s"

definition parse_target :: "string \<Rightarrow> target_error + target" where
  "parse_target s =
     (let s = trim s in
      if s = [] then Inl Empty
      else case parse_u32 s of Some pid \<Rightarrow> Inr (Pid pid) | None \<Rightarrow> Inr (Interface s))"

record resolved_target =
  re_interface :: string
  re_pid :: u32
  re_status_socket :: "string option"

definition to_resolved :: "instance_info \<Rightarrow> resolved_target option" where
  "to_resolved i =
     Option.bind (it_interface i) (\<lambda>iface.
     map_option (\<lambda>pid. \<lparr>re_interface = iface, re_pid = pid, re_status_socket = it_status_socket i\<rparr>) (it_pid i))"

definition identified :: "host \<Rightarrow> instance_info list" where
  "identified h = filter (\<lambda>i. it_interface i \<noteq> None \<and> it_pid i \<noteq> None) (discover_instances h)"

definition ok_or :: "'e \<Rightarrow> 'a option \<Rightarrow> 'e + 'a" where
  "ok_or e x = (case x of Some a \<Rightarrow> Inr a | None \<Rightarrow> Inl e)"

definition resolve :: "host \<Rightarrow> string option \<Rightarrow> (target_error + resolved_target) run" where
  "resolve h target_arg =
     (case target_arg of
        None \<Rightarrow>
          (case identified h of
             [] \<Rightarrow> ret (Inl (NotFound ''<auto>''))
           | [inst] \<Rightarrow> (case to_resolved inst of Some r \<Rightarrow> ret (Inr r) | None \<Rightarrow> panic)
           | insts \<Rightarrow> ret (Inl (Ambiguous (List.map_filter it_interface insts))))
      | Some s \<Rightarrow> ret
          (case parse_target s of
             Inl e \<Rightarrow> Inl e
           | Inr (Interface iface) \<Rightarrow>
               ok_or (NotFound iface)
                 (Option.bind (find (\<lambda>i. it_interface i = Some iface) (identified h)) to_resolved)
           | Inr (Pid pid) \<Rightarrow>
               if \<not> is_pesigitgd_proc h pid then Inl (NotAPesigitgdProcess pid)
               else ok_or (NotFound (''pid '' @ dec (unat pid) @ '' (running, but interface not on cmdline)''))
                 (to_resolved (case find (\<lambda>i. it_pid i = Some pid) (discover_instances h) of
                    Some i \<Rightarrow> i | None \<Rightarrow> instance_default\<lparr>it_pid := Some pid\<rparr>))))"

definition expect_no_args :: "string list \<Rightarrow> target_error + unit" where
  "expect_no_args args =
     (if args \<noteq> [] then Inl (ExtraArgs (''unexpected argument(s): '' @ join '' '' args)) else Inr ())"

definition expect_optional_target :: "string list \<Rightarrow> target_error + string option" where
  "expect_optional_target args =
     (case args of [] \<Rightarrow> Inr None | [a] \<Rightarrow> Inr (Some a)
      | _ \<Rightarrow> Inl (ExtraArgs (''expected at most one target, got: '' @ join '' '' args)))"

datatype signo = Hup | Term | Usr1 | Usr2

text \<open>
  \<open>kill(2)\<close> is an argument that returns an error or nothing; the process id is cast to a signed integer.
  The result is the list of calls made, with the outcome.
\<close>

type_synonym kills = "(int \<times> signo) list"

definition send_signal :: "(int \<Rightarrow> signo \<Rightarrow> string option) \<Rightarrow> u32 \<Rightarrow> signo \<Rightarrow> kills \<times> (target_error + unit)" where
  "send_signal kill pid sig =
     ([(sint pid, sig)], case kill (sint pid) sig of Some e \<Rightarrow> Inl (Io e) | None \<Rightarrow> Inr ())"

definition signal_target ::
  "(int \<Rightarrow> signo \<Rightarrow> string option) \<Rightarrow> signo \<Rightarrow> host \<Rightarrow> string list \<Rightarrow> (kills \<times> (target_error + unit)) run" where
  "signal_target kill sig h args =
     (case expect_optional_target args of
        Inl e \<Rightarrow> ret ([], Inl e)
      | Inr arg \<Rightarrow> do {
          r \<leftarrow> resolve h arg;
          ret (case r of Inl e \<Rightarrow> ([], Inl e) | Inr t \<Rightarrow> send_signal kill (re_pid t) sig)
        })"

definition cmd_hup where "cmd_hup kill = signal_target kill Hup"
definition cmd_stop where "cmd_stop kill = signal_target kill Term"
definition cmd_dump_stats where "cmd_dump_stats kill = signal_target kill Usr1"
definition cmd_restart where "cmd_restart kill = signal_target kill Usr2"

text \<open>\<open>remove\<close> is \<open>fs::remove_file\<close>. The result carries the pidfiles it was asked to remove.\<close>

definition stale :: "instance_info \<Rightarrow> bool" where
  "stale i \<longleftrightarrow> it_pidfile i \<noteq> None \<and> it_cmdline i = None"

definition cmd_cleanup :: "(string \<Rightarrow> string option) \<Rightarrow> host \<Rightarrow> string list \<Rightarrow> string list \<times> (target_error + unit)" where
  "cmd_cleanup remove h args =
     (case expect_no_args args of
        Inl e \<Rightarrow> ([], Inl e)
      | Inr _ \<Rightarrow>
          (let paths = List.map_filter it_pidfile (filter stale (discover_instances h));
               errors = length (filter (\<lambda>p. remove p \<noteq> None) paths)
           in (paths, if errors > 0 then Inl (Io (dec errors @ '' pidfile(s) could not be removed'')) else Inr ())))"

text \<open>
  What \<open>cmd_list\<close> prints: a row for each instance with an interface, in the order of the interfaces, then
  the processes without one with their command lines.
\<close>

record list_row =
  lr_interface :: string
  lr_pid :: string
  lr_sources :: string
  lr_note :: string

definition list_row_of :: "instance_info \<Rightarrow> list_row" where
  "list_row_of i =
    \<lparr>lr_interface = (case it_interface i of Some n \<Rightarrow> n | None \<Rightarrow> ''?''),
     lr_pid = (case it_pid i of Some p \<Rightarrow> dec (unat p) | None \<Rightarrow> ''?''),
     lr_sources = join '','' ((if it_pidfile i \<noteq> None then [''pidfile''] else []) @
       (if it_status_socket i \<noteq> None then [''socket''] else []) @ (if it_cmdline i \<noteq> None then [''proc''] else [])),
     lr_note = (if stale i then ''  (stale pidfile)'' else [])\<rparr>"

definition cmd_list :: "host \<Rightarrow> string list \<Rightarrow> target_error + list_row list \<times> (string \<times> string list) list" where
  "cmd_list h args =
     (case expect_no_args args of
        Inl e \<Rightarrow> Inl e
      | Inr _ \<Rightarrow>
          (let instances = discover_instances h;
               named = filter (\<lambda>i. it_interface i \<noteq> None) instances;
               unnamed = filter (\<lambda>i. it_interface i = None) instances
           in Inr (map list_row_of named,
                map (\<lambda>i. (case it_pid i of Some p \<Rightarrow> dec (unat p) | None \<Rightarrow> ''?'',
                           case it_cmdline i of Some c \<Rightarrow> c | None \<Rightarrow> [])) unnamed)))"

text \<open>\<open>read_dir\<close> lists the pins of an interface in the order of the kernel.\<close>

datatype dir_result = Missing | Unreadable string | Entries "string list"

definition cmd_pin_info :: "(string \<Rightarrow> dir_result) \<Rightarrow> host \<Rightarrow> string list \<Rightarrow> (target_error + string list) run" where
  "cmd_pin_info read_dir h args =
     (case expect_optional_target args of
        Inl e \<Rightarrow> ret (Inl e)
      | Inr target_arg \<Rightarrow> do {
          iface \<leftarrow> (case target_arg of
              Some s \<Rightarrow> ret
                (case parse_target s of
                   Inl e \<Rightarrow> Inl e
                 | Inr (Interface i) \<Rightarrow> Inr i
                 | Inr (Pid _) \<Rightarrow> Inl (ExtraArgs ''pin-info expects an interface name, not a pid''))
            | None \<Rightarrow> do { r \<leftarrow> resolve h None; ret (map_sum id re_interface r) });
          ret (case iface of
            Inl e \<Rightarrow> Inl e
          | Inr i \<Rightarrow>
              (let dir_path = ''/sys/fs/bpf/pesigitg/'' @ i in
               case read_dir dir_path of
                 Missing \<Rightarrow> Inr [dir_path, ''  (no pin directory; daemon may not have run yet on '' @ i @ '')'']
               | Unreadable e \<Rightarrow> Inl (Io e)
               | Entries entries \<Rightarrow>
                   (let names = sort (List.map_filter from_utf8 entries)
                    in Inr (dir_path # (if names = [] then [''  (empty)''] else map (\<lambda>n. ''  '' @ n) names)))))
        })"

section \<open>Maps with sorted keys\<close>

definition keyed :: "instances \<Rightarrow> bool" where
  "keyed m \<longleftrightarrow> sorted_wrt (<) (map fst m) \<and> (\<forall>(k, i) \<in> set m. it_interface i = Some k)"

text \<open>A field of the entry of an interface.\<close>

definition field_at :: "(instance_info \<Rightarrow> 'a option) \<Rightarrow> instances \<Rightarrow> string \<Rightarrow> 'a option" where
  "field_at fld m k = Option.bind (map_of m k) fld"

lemma upd_entry_keys: "set (map fst (upd_entry k f m)) = insert k (set (map fst m))"
  by (induction k f m rule: upd_entry.induct) (simp_all add: insert_commute)

lemma upd_entry_keyed:
  assumes "keyed m" "\<And>i. it_interface (f i) = Some k"
  shows "keyed (upd_entry k f m)"
  using assms(1)
proof (induction m)
  case (Cons e m)
  obtain k' i where e: "e = (k', i)" by fastforce
  have m: "keyed m" "\<forall>k'' \<in> set (map fst m). k' < k''" "it_interface i = Some k'"
    using Cons.prems by (auto simp: keyed_def e)
  consider "k = k'" | "k < k'" | "k' < k" by fastforce
  then show ?case
  proof cases
    case 3
    with Cons.IH [OF m(1)] m(2,3) upd_entry_keys [of k f m] show ?thesis by (auto simp: keyed_def e)
  qed (use Cons.prems m assms(2) in \<open>auto simp: keyed_def e intro: less_trans\<close>)
qed (simp add: keyed_def assms(2))

lemma map_of_upd_entry:
  assumes "keyed m"
  shows "map_of (upd_entry k f m) = (map_of m)(k \<mapsto> f (case map_of m k of None \<Rightarrow> instance_default | Some i \<Rightarrow> i))"
  using assms
proof (induction m)
  case (Cons e m)
  obtain k' i where e: "e = (k', i)" by fastforce
  have m: "keyed m" "\<forall>k'' \<in> set (map fst m). k' < k''" using Cons.prems by (auto simp: keyed_def e)
  have "map_of m k = None" if "k < k'" using m(2) that by (force simp: map_of_eq_None_iff)
  with Cons.IH [OF m(1)] show ?case by (auto simp: e fun_eq_iff)
qed (auto simp: fun_eq_iff)

lemma field_at_upd_entry:
  "keyed m \<Longrightarrow> field_at fld (upd_entry k f m) k' =
     (if k' = k then fld (f (case map_of m k of None \<Rightarrow> instance_default | Some i \<Rightarrow> i)) else field_at fld m k')"
  by (simp add: field_at_def map_of_upd_entry)

lemma map_of_keyed: "keyed m \<Longrightarrow> (k, i) \<in> set m \<longleftrightarrow> map_of m k = Some i"
  by (metis keyed_def map_of_SomeD map_of_is_SomeI strict_sorted_iff)

lemma upd_by_pid_None: "upd_by_pid p f m = None \<longleftrightarrow> (\<forall>(k, i) \<in> set m. it_pid i \<noteq> Some p)"
  by (induction p f m rule: upd_by_pid.induct) simp_all

lemma upd_by_pid_Some:
  assumes "upd_by_pid p f m = Some m'"
  shows "\<exists>k i a b. m = a @ (k, i) # b \<and> m' = a @ (k, f i) # b \<and> it_pid i = Some p"
  using assms
proof (induction m arbitrary: m')
  case (Cons e m)
  obtain k i where e: "e = (k, i)" by fastforce
  show ?case
  proof (cases "it_pid i = Some p")
    case True
    with Cons.prems show ?thesis by (intro exI [of _ k] exI [of _ i] exI [of _ "[]"] exI [of _ m]) (simp add: e)
  next
    case False
    with Cons.prems obtain m1 where m1: "upd_by_pid p f m = Some m1" "m' = e # m1" by (auto simp: e)
    from Cons.IH [OF m1(1)] m1(2) show ?thesis by (metis append_Cons)
  qed
qed simp

lemma upd_by_pid_keyed:
  assumes "upd_by_pid p (\<lambda>i. i\<lparr>it_cmdline := c\<rparr>) m = Some m'" "keyed m"
  shows "keyed m'" and "\<exists>k i. map_of m k = Some i \<and> it_pid i = Some p \<and> map_of m' = (map_of m)(k \<mapsto> i\<lparr>it_cmdline := c\<rparr>)"
proof -
  obtain k i a b where s: "m = a @ (k, i) # b" "m' = a @ (k, i\<lparr>it_cmdline := c\<rparr>) # b" "it_pid i = Some p"
    using upd_by_pid_Some [OF assms(1)] by blast
  then show "keyed m'" using assms(2) by (auto simp: keyed_def)
  have "k \<notin> set (map fst a)" using assms(2) by (force simp: s(1) keyed_def sorted_wrt_append)
  then have "map_of a k = None" by (simp add: map_of_eq_None_iff)
  then show "\<exists>k i. map_of m k = Some i \<and> it_pid i = Some p \<and> map_of m' = (map_of m)(k \<mapsto> i\<lparr>it_cmdline := c\<rparr>)"
    using s by (intro exI [of _ k] exI [of _ i]) (auto simp: map_add_def fun_eq_iff split: option.splits)
qed

section \<open>What discovery finds\<close>

text \<open>
  Without the order of merging: the last pidfile, the last status socket and the last process that name an
  interface.
\<close>

definition pid_entries :: "(string \<times> string option) list \<Rightarrow> (string \<times> string \<times> u32 option) list" where
  "pid_entries = List.map_filter (\<lambda>(name, content).
     map_option (\<lambda>iface. (iface, path_join PID_DIR name, Option.bind content (\<lambda>s. parse_u32 (trim s))))
       (Option.bind (from_utf8 name) iface_from_pidfile))"

definition pidfile_of :: "host \<Rightarrow> string \<Rightarrow> (string \<times> u32 option) option" where
  "pidfile_of h = map_of (rev (pid_entries (case ho_pid_dir h of None \<Rightarrow> [] | Some es \<Rightarrow> es)))"

definition pidfile_pid :: "host \<Rightarrow> string \<Rightarrow> u32 option" where
  "pidfile_pid h iface = Option.bind (pidfile_of h iface) snd"

definition socket_entries :: "string list \<Rightarrow> (string \<times> string) list" where
  "socket_entries = List.map_filter (\<lambda>name.
     map_option (\<lambda>iface. (iface, path_join RUN_DIR name)) (Option.bind (from_utf8 name) iface_from_sockname))"

definition socket_of :: "host \<Rightarrow> string \<Rightarrow> string option" where
  "socket_of h = map_of (rev (socket_entries (case ho_run_dir h of None \<Rightarrow> [] | Some names \<Rightarrow> names)))"

definition named_hits :: "proc_hit list \<Rightarrow> (string \<times> u32) list" where
  "named_hits = List.map_filter (\<lambda>hit. map_option (\<lambda>iface. (iface, ph_pid hit)) (ph_interface hit))"

definition live_pid :: "host \<Rightarrow> string \<Rightarrow> u32 option" where
  "live_pid h = map_of (rev (named_hits (scan_proc_for_pesigitgd h)))"

definition addressed_pid :: "host \<Rightarrow> string \<Rightarrow> u32 option" where
  "addressed_pid h iface = (case live_pid h iface of Some p \<Rightarrow> Some p | None \<Rightarrow> pidfile_pid h iface)"

lemma map_filter_snoc:
  "List.map_filter f (xs @ [x]) = List.map_filter f xs @ (case f x of None \<Rightarrow> [] | Some y \<Rightarrow> [y])"
  by (simp add: List.map_filter_def split: option.splits)

lemma pidfiles_merged:
  "keyed (foldl add_pidfile [] es) \<and> map_of (foldl add_pidfile [] es) k =
     map_option (\<lambda>(path, pid). instance_default\<lparr>it_interface := Some k, it_pidfile := Some path, it_pid := pid\<rparr>)
       (map_of (rev (pid_entries es)) k)"
proof (induction es arbitrary: k rule: rev_induct)
  case (snoc e es)
  let ?m = "foldl add_pidfile [] es"
  have m: "keyed ?m" using snoc by blast
  show ?case
  proof (cases "Option.bind (from_utf8 (fst e)) iface_from_pidfile")
    case (Some iface)
    with m show ?thesis
      using snoc [of iface] snoc [of k]
      by (cases e) (auto simp: pid_entries_def map_filter_snoc add_pidfile_def map_of_upd_entry upd_entry_keyed
          instance_default_def split: option.splits)
  qed (use snoc [of k] in \<open>cases e; auto simp: pid_entries_def map_filter_snoc add_pidfile_def\<close>)
qed (simp add: keyed_def pid_entries_def List.map_filter_def)

lemma sockets_merged:
  assumes "keyed m"
  shows "keyed (foldl add_socket m names) \<and>
    field_at it_pid (foldl add_socket m names) k = field_at it_pid m k \<and>
    field_at it_pidfile (foldl add_socket m names) k = field_at it_pidfile m k \<and>
    field_at it_cmdline (foldl add_socket m names) k = field_at it_cmdline m k \<and>
    field_at it_status_socket (foldl add_socket m names) k =
      (case map_of (rev (socket_entries names)) k of Some s \<Rightarrow> Some s | None \<Rightarrow> field_at it_status_socket m k)"
proof (induction names arbitrary: k rule: rev_induct)
  case (snoc name names)
  let ?m = "foldl add_socket m names"
  have m: "keyed ?m" using snoc by blast
  show ?case
  proof (cases "Option.bind (from_utf8 name) iface_from_sockname")
    case (Some iface)
    have "fld (case map_of ?m iface of None \<Rightarrow> instance_default | Some i \<Rightarrow> i) = field_at fld ?m iface"
      if "fld instance_default = None" for fld :: "instance_info \<Rightarrow> 'z option"
      using that by (simp add: field_at_def split: option.splits)
    note fields = this [of it_pid] this [of it_pidfile] this [of it_cmdline]
    have step: "foldl add_socket m (names @ [name]) =
        upd_entry iface (\<lambda>i. i\<lparr>it_interface := Some iface, it_status_socket := Some (path_join RUN_DIR name)\<rparr>) ?m"
      using Some by (auto simp: add_socket_def [of ?m name])
    have entries: "rev (socket_entries (names @ [name])) = (iface, path_join RUN_DIR name) # rev (socket_entries names)"
      using Some by (auto simp: socket_entries_def map_filter_snoc)
    show ?thesis unfolding step entries using fields m snoc [of iface] snoc [of k]
      by (simp add: field_at_upd_entry upd_entry_keyed instance_default_def)
  qed (use snoc [of k] in \<open>simp add: socket_entries_def map_filter_snoc add_socket_def [of ?m name]\<close>)
qed (simp add: assms socket_entries_def List.map_filter_def)

lemma from_files_fields:
  "keyed (from_files h)" "field_at it_pid (from_files h) k = pidfile_pid h k"
  "field_at it_pidfile (from_files h) k = map_option fst (pidfile_of h k)"
  "field_at it_cmdline (from_files h) k = None" "field_at it_status_socket (from_files h) k = socket_of h k"
proof -
  let ?es = "case ho_pid_dir h of None \<Rightarrow> [] | Some es \<Rightarrow> es"
  let ?names = "case ho_run_dir h of None \<Rightarrow> [] | Some names \<Rightarrow> names"
  have eq: "from_files h = foldl add_socket (foldl add_pidfile [] ?es) ?names"
    by (simp add: from_files_def Let_def split: option.splits)
  have p: "keyed (foldl add_pidfile [] ?es)"
      "map_of (foldl add_pidfile [] ?es) k =
        map_option (\<lambda>(path, pid). instance_default\<lparr>it_interface := Some k, it_pidfile := Some path, it_pid := pid\<rparr>) (pidfile_of h k)"
    using pidfiles_merged [of ?es k] by (simp_all add: pidfile_of_def)
  have f: "field_at it_pid (foldl add_pidfile [] ?es) k = pidfile_pid h k"
      "field_at it_pidfile (foldl add_pidfile [] ?es) k = map_option fst (pidfile_of h k)"
      "field_at it_cmdline (foldl add_pidfile [] ?es) k = None" "field_at it_status_socket (foldl add_pidfile [] ?es) k = None"
    unfolding field_at_def p(2) by (cases "pidfile_of h k"; simp add: pidfile_pid_def instance_default_def split_beta)+
  from sockets_merged [OF p(1), of ?names k, folded eq socket_of_def] f
  show "keyed (from_files h)" "field_at it_pid (from_files h) k = pidfile_pid h k"
    "field_at it_pidfile (from_files h) k = map_option fst (pidfile_of h k)"
    "field_at it_cmdline (from_files h) k = None" "field_at it_status_socket (from_files h) k = socket_of h k"
    by (simp_all split: option.splits)
qed

lemma hits_merged:
  assumes "keyed m" "foldl add_hit (m, []) hits = (m', unnamed)"
  shows "keyed m' \<and> (\<forall>i \<in> set unnamed. it_interface i = None \<and> it_pidfile i = None) \<and>
    (\<forall>k. field_at it_pidfile m' k = field_at it_pidfile m k \<and> field_at it_status_socket m' k = field_at it_status_socket m k \<and>
       field_at it_pid m' k = (case map_of (rev (named_hits hits)) k of Some p \<Rightarrow> Some p | None \<Rightarrow> field_at it_pid m k))"
  using assms(2)
proof (induction hits arbitrary: m' unnamed rule: rev_induct)
  case (snoc hit hits)
  obtain m1 u1 where prev: "foldl add_hit (m, []) hits = (m1, u1)" by fastforce
  note IH = snoc.IH [OF prev]
  have step: "add_hit (m1, u1) hit = (m', unnamed)" using snoc.prems prev by simp
  show ?case
  proof (cases "ph_interface hit")
    case (Some iface)
    have fields: "fld (case map_of m1 iface of None \<Rightarrow> instance_default | Some i \<Rightarrow> i) = field_at fld m1 iface"
      if "fld instance_default = None" for fld :: "instance_info \<Rightarrow> string option"
      using that by (simp add: field_at_def split: option.splits)
    have m': "m' = upd_entry iface (\<lambda>i. i\<lparr>it_interface := Some iface, it_pid := Some (ph_pid hit), it_cmdline := Some (ph_cmdline hit)\<rparr>) m1"
        "unnamed = u1"
      using step Some by simp_all
    have hits': "rev (named_hits (hits @ [hit])) = (iface, ph_pid hit) # rev (named_hits hits)"
      using Some by (simp add: named_hits_def map_filter_snoc)
    show ?thesis unfolding m' hits' using IH fields [of it_pidfile] fields [of it_status_socket]
      by (simp add: field_at_upd_entry upd_entry_keyed instance_default_def)
  next
    case None
    have hits': "named_hits (hits @ [hit]) = named_hits hits" using None by (simp add: named_hits_def map_filter_snoc)
    let ?f = "\<lambda>i. i\<lparr>it_cmdline := Some (ph_cmdline hit)\<rparr>"
    show ?thesis
    proof (cases "upd_by_pid (ph_pid hit) ?f m1")
      case upd: (Some m2)
      with step None have m': "m' = m2" "unnamed = u1" by simp_all
      obtain k0 i0 where "map_of m1 k0 = Some i0" "map_of m2 = (map_of m1)(k0 \<mapsto> ?f i0)"
        using upd_by_pid_keyed(2) [OF upd] IH by blast
      then have "field_at it_pid m2 k = field_at it_pid m1 k" "field_at it_pidfile m2 k = field_at it_pidfile m1 k"
          "field_at it_status_socket m2 k = field_at it_status_socket m1 k" for k
        by (simp_all add: field_at_def)
      with IH upd_by_pid_keyed(1) [OF upd] show ?thesis by (simp add: hits' m')
    qed (use step None IH in \<open>auto simp: hits' instance_default_def\<close>)
  qed
qed (simp add: assms(1) named_hits_def List.map_filter_def)

text \<open>Which entries a process confirms, if no two processes and no two pidfiles share a process id.\<close>

lemma hits_confirm:
  assumes "keyed m" "foldl add_hit (m, []) hits = (m', unnamed)" "distinct (map ph_pid hits)"
    and unique: "\<And>k'. field_at it_pid m k' \<noteq> None \<Longrightarrow> field_at it_pid m k' = field_at it_pid m k \<Longrightarrow> k' = k"
  shows "field_at it_cmdline m' k \<noteq> None \<longleftrightarrow> field_at it_cmdline m k \<noteq> None \<or>
    (\<exists>hit \<in> set hits. ph_interface hit = Some k \<or> ph_interface hit = None \<and> map_of m k \<noteq> None \<and> field_at it_pid m k = Some (ph_pid hit))"
  using assms(2,3)
proof (induction hits arbitrary: m' unnamed rule: rev_induct)
  case (snoc hit hits)
  obtain m1 u1 where prev: "foldl add_hit (m, []) hits = (m1, u1)" by fastforce
  note IH = snoc.IH [OF prev] and merged = hits_merged [OF assms(1) prev]
  have dist: "distinct (map ph_pid hits)" "ph_pid hit \<notin> set (map ph_pid hits)" using snoc.prems(2) by auto
  have step: "add_hit (m1, u1) hit = (m', unnamed)" using snoc.prems prev by simp
  have live: "\<exists>h \<in> set hits. ph_interface h = Some k' \<and> ph_pid h = p" if "map_of (rev (named_hits hits)) k' = Some p" for k' p
    using map_of_SomeD [OF that] by (auto simp: named_hits_def List.map_filter_def split: option.splits)
  show ?case
  proof (cases "ph_interface hit")
    case (Some iface)
    then have m': "m' = upd_entry iface (\<lambda>i. i\<lparr>it_interface := Some iface, it_pid := Some (ph_pid hit), it_cmdline := Some (ph_cmdline hit)\<rparr>) m1"
      using step by simp
    show ?thesis unfolding m' using IH [OF dist(1)] merged Some by (auto simp: field_at_upd_entry)
  next
    case None
    let ?f = "\<lambda>i. i\<lparr>it_cmdline := Some (ph_cmdline hit)\<rparr>"
    have "map_of (rev (named_hits hits)) k' \<noteq> Some (ph_pid hit)" for k'
      using live [of k' "ph_pid hit"] dist(2) by (metis image_eqI set_map)
    then have pid: "field_at it_pid m k' = Some (ph_pid hit)" if "field_at it_pid m1 k' = Some (ph_pid hit)" for k'
      using that merged by (auto split: option.splits)
    show ?thesis
    proof (cases "upd_by_pid (ph_pid hit) ?f m1")
      case upd: (Some m2)
      then have m': "m' = m2" using step None by simp
      obtain k0 i0 where k0: "map_of m1 k0 = Some i0" "it_pid i0 = Some (ph_pid hit)" "map_of m2 = (map_of m1)(k0 \<mapsto> ?f i0)"
        using upd_by_pid_keyed(2) [OF upd] merged by blast
      have m0: "field_at it_pid m k0 = Some (ph_pid hit)" using pid [of k0] k0 by (simp add: field_at_def)
      have "k0 = k \<longleftrightarrow> field_at it_pid m k = Some (ph_pid hit)" using m0 unique [of k0] by auto
      moreover have "map_of m k \<noteq> None" if "field_at it_pid m k = Some (ph_pid hit)"
        using that by (auto simp: field_at_def)
      ultimately show ?thesis using IH [OF dist(1)] k0(3) None by (auto simp: m' field_at_def)
    next
      case upd: None
      then have m': "m' = m1" using step None by simp
      have "\<exists>h \<in> set hits. ph_interface h = Some k" if "field_at it_pid m k = Some (ph_pid hit)"
      proof (rule ccontr)
        assume "\<not> ?thesis"
        then have "map_of (rev (named_hits hits)) k = None" using live [of k] by (meson not_Some_eq)
        with merged that have "field_at it_pid m1 k = Some (ph_pid hit)" by simp
        then obtain i where "(k, i) \<in> set m1" "it_pid i = Some (ph_pid hit)"
          by (auto simp: field_at_def bind_eq_Some_conv dest: map_of_SomeD)
        with upd show False by (auto simp: upd_by_pid_None)
      qed
      then show ?thesis using IH [OF dist(1)] None by (auto simp: m')
    qed
  qed
qed simp

lemma discovered:
  obtains m unnamed where "foldl add_hit (from_files h, []) (scan_proc_for_pesigitgd h) = (m, unnamed)"
    "discover_instances h = map snd m @ unnamed" "keyed m" "\<forall>i \<in> set unnamed. it_interface i = None \<and> it_pidfile i = None"
    "\<forall>k. field_at it_pid m k = addressed_pid h k" "\<forall>k. field_at it_pidfile m k = map_option fst (pidfile_of h k)"
    "\<forall>k. field_at it_status_socket m k = socket_of h k"
proof -
  obtain m unnamed where m: "foldl add_hit (from_files h, []) (scan_proc_for_pesigitgd h) = (m, unnamed)" by fastforce
  note merged = hits_merged [OF from_files_fields(1) m, unfolded from_files_fields]
  show thesis
  proof (rule that [OF m])
    show "discover_instances h = map snd m @ unnamed" by (simp add: discover_instances_def m)
    show "\<forall>k. field_at it_pid m k = addressed_pid h k" using merged by (simp add: addressed_pid_def live_pid_def)
  qed (use merged in blast)+
qed

lemma find_keyed:
  assumes "keyed m" "\<forall>i \<in> set u. it_interface i = None"
  shows "find (\<lambda>i. it_interface i = Some k) (filter P (map snd m @ u)) =
    (case map_of m k of Some i \<Rightarrow> if P i then Some i else None | None \<Rightarrow> None)"
  using assms(1)
proof (induction m)
  case Nil
  then show ?case using assms(2) by (auto simp: find_None_iff)
next
  case (Cons e m)
  obtain k' i where e: "e = (k', i)" by fastforce
  have m: "keyed m" "it_interface i = Some k'" "k' \<notin> set (map fst m)" using Cons.prems by (auto simp: keyed_def e)
  then have "map_of m k' = None" by (simp add: map_of_eq_None_iff)
  with Cons.IH [OF m(1)] m(2) show ?case by (auto simp: e)
qed

lemma resolve_interface:
  assumes "parse_target s = Inr (Interface iface)"
  shows "resolve h (Some s) = Some (case addressed_pid h iface of
      None \<Rightarrow> Inl (NotFound iface)
    | Some p \<Rightarrow> Inr \<lparr>re_interface = iface, re_pid = p, re_status_socket = socket_of h iface\<rparr>)"
proof -
  obtain m unnamed where d: "foldl add_hit (from_files h, []) (scan_proc_for_pesigitgd h) = (m, unnamed)"
      "discover_instances h = map snd m @ unnamed" "keyed m" "\<forall>i \<in> set unnamed. it_interface i = None \<and> it_pidfile i = None"
      "\<forall>k. field_at it_pid m k = addressed_pid h k" "\<forall>k. field_at it_pidfile m k = map_option fst (pidfile_of h k)"
      "\<forall>k. field_at it_status_socket m k = socket_of h k"
    by (rule discovered [of h])
  have iface: "it_interface i = Some iface" if "map_of m iface = Some i" for i
    using map_of_SomeD [OF that] d(3) by (auto simp: keyed_def)
  have "find (\<lambda>i. it_interface i = Some iface) (identified h) =
      (case map_of m iface of Some i \<Rightarrow> if it_interface i \<noteq> None \<and> it_pid i \<noteq> None then Some i else None | None \<Rightarrow> None)"
    unfolding identified_def d(2) using d(3,4) by (intro find_keyed) auto
  moreover have "map_of m iface \<bind> it_pid = addressed_pid h iface" "map_of m iface \<bind> it_status_socket = socket_of h iface"
    using d(5,7) by (simp_all add: field_at_def)
  ultimately show ?thesis using iface
    by (cases "map_of m iface"; cases "addressed_pid h iface") (auto simp: resolve_def assms ok_or_def to_resolved_def)
qed

lemma resolve_pid:
  assumes "parse_target s = Inr (Pid pid)" "resolve h (Some s) = Some (Inr t)"
  shows "re_pid t = pid" "is_pesigitgd_proc h pid"
proof -
  let ?found = "find (\<lambda>i. it_pid i = Some pid) (discover_instances h)"
  have proc: "is_pesigitgd_proc h pid"
      and t: "to_resolved (case ?found of Some i \<Rightarrow> i | None \<Rightarrow> instance_default\<lparr>it_pid := Some pid\<rparr>) = Some t"
    using assms by (auto simp: resolve_def ok_or_def split: if_splits option.splits)
  have "it_pid i = Some pid" if "?found = Some i" for i using that by (auto simp: find_Some_iff)
  with t show "re_pid t = pid" by (cases ?found) (auto simp: to_resolved_def bind_eq_Some_conv)
  show "is_pesigitgd_proc h pid" by (rule proc)
qed

lemma resolve_total: "resolve h arg \<noteq> None"
proof -
  have "to_resolved i \<noteq> None" if "i \<in> set (identified h)" for i
    using that by (auto simp: identified_def to_resolved_def)
  then show ?thesis by (auto simp: resolve_def split: option.splits list.splits)
qed

lemma pidfile_path:
  assumes "pidfile_of h k = Some (path, pid)"
  obtains name where "path = ''/var/run/'' @ name" "iface_from_pidfile name = Some k"
proof -
  obtain name where n: "iface_from_pidfile name = Some k" "path = path_join PID_DIR name"
    using map_of_SomeD [OF assms [unfolded pidfile_of_def]]
    by (auto simp: pid_entries_def List.map_filter_def from_utf8_def bind_eq_Some_conv split: if_splits)
  then have "prefix PIDFILE_PREFIX name"
    by (auto simp: iface_from_pidfile_def affixed_def strip_prefix_def bind_eq_Some_conv split: if_splits)
  then have "path = ''/var/run/'' @ name"
    using n(2) by (auto simp: path_join_def is_relative_def PID_DIR_def PIDFILE_PREFIX_def prefix_def)
  with n(1) that show thesis by blast
qed

lemma cleanup_paths: "path \<in> set (fst (cmd_cleanup remove h [])) \<longleftrightarrow> (\<exists>j \<in> set (discover_instances h). stale j \<and> it_pidfile j = Some path)"
  by (auto simp: cmd_cleanup_def expect_no_args_def Let_def List.map_filter_def stale_def image_iff)

text \<open>
  What cleaning up removes. If no two running daemons and no two pidfiles have the same process id, the
  pidfile of an interface is removed exactly if no running daemon names the interface on its command line
  and the process id in the file is not that of a running daemon whose command line names no interface.
\<close>

lemma cleanup_pidfiles:
  assumes "distinct (map ph_pid (scan_proc_for_pesigitgd h))" "pidfile_of h iface = Some (path, pid)"
    and "\<forall>k. pidfile_pid h k \<noteq> None \<longrightarrow> pidfile_pid h k = pidfile_pid h iface \<longrightarrow> k = iface"
  shows "path \<in> set (fst (cmd_cleanup remove h [])) \<longleftrightarrow>
    (\<forall>hit \<in> set (scan_proc_for_pesigitgd h). ph_interface hit \<noteq> Some iface \<and> (ph_interface hit = None \<longrightarrow> pid \<noteq> Some (ph_pid hit)))"
proof -
  obtain m unnamed where d: "foldl add_hit (from_files h, []) (scan_proc_for_pesigitgd h) = (m, unnamed)"
      "discover_instances h = map snd m @ unnamed" "keyed m" "\<forall>i \<in> set unnamed. it_interface i = None \<and> it_pidfile i = None"
      "\<forall>k. field_at it_pid m k = addressed_pid h k" "\<forall>k. field_at it_pidfile m k = map_option fst (pidfile_of h k)"
      "\<forall>k. field_at it_status_socket m k = socket_of h k"
    by (rule discovered [of h])
  have pid: "pidfile_pid h iface = pid" using assms(2) by (simp add: pidfile_pid_def)
  have same: "k = iface" if k: "field_at it_pidfile m k = Some path" for k
  proof -
    obtain pid' where "pidfile_of h k = Some (path, pid')" using k spec [OF d(6), of k] by auto
    from pidfile_path [OF this] obtain name where "path = ''/var/run/'' @ name" "iface_from_pidfile name = Some k" .
    moreover from pidfile_path [OF assms(2)] obtain name' where "path = ''/var/run/'' @ name'" "iface_from_pidfile name' = Some iface" .
    ultimately show ?thesis by simp
  qed
  obtain i where i: "map_of m iface = Some i" "it_pidfile i = Some path"
    using spec [OF d(6), of iface] assms(2) by (auto simp: field_at_def bind_eq_Some_conv)
  have "path \<in> set (fst (cmd_cleanup remove h [])) \<longleftrightarrow> (\<exists>j \<in> set (discover_instances h). stale j \<and> it_pidfile j = Some path)"
    by (rule cleanup_paths)
  also have "\<dots> \<longleftrightarrow> (\<exists>k j. (k, j) \<in> set m \<and> stale j \<and> it_pidfile j = Some path)"
    using d(4) by (force simp: d(2))
  also have "\<dots> \<longleftrightarrow> (\<exists>k j. map_of m k = Some j \<and> stale j \<and> it_pidfile j = Some path)"
    by (simp add: map_of_keyed [OF d(3)])
  also have "\<dots> \<longleftrightarrow> stale i"
    using i same by (metis (no_types, lifting) bind.bind_lunit field_at_def option.inject)
  also have "\<dots> \<longleftrightarrow> field_at it_cmdline m iface = None"
    using i by (simp add: stale_def field_at_def)
  also have "\<dots> \<longleftrightarrow> (\<forall>hit \<in> set (scan_proc_for_pesigitgd h). ph_interface hit \<noteq> Some iface \<and> (ph_interface hit = None \<longrightarrow> pid \<noteq> Some (ph_pid hit)))"
  proof -
    have "map_of (from_files h) iface \<noteq> None"
      using from_files_fields(3) [of h iface] assms(2) by (auto simp: field_at_def)
    with hits_confirm [OF from_files_fields(1) d(1) assms(1), of iface] assms(3) pid show ?thesis
      by (auto simp: from_files_fields)
  qed
  finally show ?thesis .
qed

section \<open>Properties\<close>

text \<open>
  C25. Whom a command signals. The signal commands never panic. For an interface, the signal goes to the
  last running daemon that names the interface on its command line; if there is none, it goes to whatever
  process id the pidfile of the interface holds, cast to a signed number, without a check that this process
  is a daemon or exists. For a process id, nothing but a running daemon of that id is signalled.
\<close>

theorem signal_addressee:
  "signal_target kill sig h args \<noteq> None \<and>
   (parse_target s = Inr (Interface iface) \<longrightarrow>
      signal_target kill sig h [s] = Some (case addressed_pid h iface of
          None \<Rightarrow> ([], Inl (NotFound iface)) | Some p \<Rightarrow> send_signal kill p sig)) \<and>
   (parse_target s = Inr (Pid pid) \<longrightarrow> signal_target kill sig h [s] = Some (kills, r) \<longrightarrow>
      kills = [] \<or> is_pesigitgd_proc h pid \<and> kills = [(sint pid, sig)])"
proof (intro conjI impI)
  show "signal_target kill sig h args \<noteq> None"
  proof (cases "expect_optional_target args")
    case (Inr arg)
    moreover obtain res where "resolve h arg = Some res" using resolve_total by blast
    ultimately show ?thesis by (simp add: signal_target_def)
  qed (simp add: signal_target_def)
next
  assume "parse_target s = Inr (Interface iface)"
  then show "signal_target kill sig h [s] = Some (case addressed_pid h iface of
      None \<Rightarrow> ([], Inl (NotFound iface)) | Some p \<Rightarrow> send_signal kill p sig)"
    by (simp add: signal_target_def expect_optional_target_def resolve_interface split: option.splits)
next
  assume pid: "parse_target s = Inr (Pid pid)" and run: "signal_target kill sig h [s] = Some (kills, r)"
  obtain res where res: "resolve h (Some s) = Some res" using resolve_total by blast
  show "kills = [] \<or> is_pesigitgd_proc h pid \<and> kills = [(sint pid, sig)]"
  proof (cases res)
    case (Inr t)
    with res resolve_pid [OF pid] have "re_pid t = pid" "is_pesigitgd_proc h pid" by blast+
    with run res Inr show ?thesis by (simp add: signal_target_def expect_optional_target_def send_signal_def)
  qed (use run res in \<open>simp add: signal_target_def expect_optional_target_def\<close>)
qed

section \<open>Witnesses\<close>

text \<open>
  A host with one running daemon, of the process id 42 on \<open>eth1\<close>, and a pidfile of \<open>eth0\<close> that holds the
  largest unsigned number.
\<close>

definition sample_host :: host where
  "sample_host = \<lparr>ho_pid_dir = Some [(''pesigitgd-eth0.pid'', Some ''4294967295'')], ho_run_dir = None,
     ho_proc = Some [''42''], ho_comm = (\<lambda>p. if p = 42 then Some ''pesigitgd'' else None),
     ho_cmdline = (\<lambda>p. if p = 42 then Some (''pesigitgd'' @ [CHR 0x00] @ ''-i'' @ [CHR 0x00] @ ''eth1'') else None)\<rparr>"

lemma sample_numbers:
  "parse_u32 ''42'' = Some 42" "parse_u32 ''4294967295'' = Some 4294967295" "parse_u32 ''eth0'' = None"
  by (simp_all add: parse_u32_def from_str_radix_def to_digit_def of_char_def)

lemma sample_trims:
  "trim ''pesigitgd'' = PROC_NAME" "trim ''42'' = ''42''" "trim ''4294967295'' = ''4294967295''" "trim ''eth0'' = ''eth0''"
  by (simp_all add: PROC_NAME_def tidy_def graphic_def of_char_def)

lemma sample_names:
  "from_utf8 ''42'' = Some ''42''" "from_utf8 ''pesigitgd-eth0.pid'' = Some ''pesigitgd-eth0.pid''"
  "iface_from_pidfile ''pesigitgd-eth0.pid'' = Some ''eth0''" "path_join PID_DIR ''pesigitgd-eth0.pid'' = ''/var/run/pesigitgd-eth0.pid''"
  by code_simp+

lemma sample_args:
  "cmdline_args (''pesigitgd'' @ [CHR 0x00] @ ''-i'' @ [CHR 0x00] @ ''eth1'') = [''pesigitgd'', ''-i'', ''eth1'']"
  "scan_args [''pesigitgd'', ''-i'', ''eth1''] = Some ''eth1''"
  by code_simp+

lemmas sample_facts = sample_numbers sample_trims sample_names sample_args(1) [simplified] sample_args(2)

lemma sample_scan:
  "scan_proc_for_pesigitgd sample_host = [\<lparr>ph_pid = 42, ph_interface = Some ''eth1'', ph_cmdline = [''pesigitgd'', ''-i'', ''eth1'']\<rparr>]"
  by (simp add: scan_proc_for_pesigitgd_def List.map_filter_def proc_entry_def is_pesigitgd_proc_def sample_host_def
      iface_from_cmdline_def sample_facts del: scan_args.simps)

lemma sample_pidfile:
  "pidfile_of sample_host k = (if k = ''eth0'' then Some (''/var/run/pesigitgd-eth0.pid'', Some 4294967295) else None)"
  by (simp add: pidfile_of_def pid_entries_def List.map_filter_def sample_host_def sample_facts)

lemma sample_discovered:
  "discover_instances sample_host =
    [\<lparr>it_interface = Some ''eth0'', it_pid = Some 4294967295, it_pidfile = Some ''/var/run/pesigitgd-eth0.pid'', it_status_socket = None, it_cmdline = None\<rparr>,
     \<lparr>it_interface = Some ''eth1'', it_pid = Some 42, it_pidfile = None, it_status_socket = None, it_cmdline = Some [''pesigitgd'', ''-i'', ''eth1'']\<rparr>]"
proof -
  have "from_files sample_host = [(''eth0'', \<lparr>it_interface = Some ''eth0'', it_pid = Some 4294967295,
      it_pidfile = Some ''/var/run/pesigitgd-eth0.pid'', it_status_socket = None, it_cmdline = None\<rparr>)]"
    by (simp add: from_files_def add_pidfile_def sample_host_def instance_default_def sample_facts)
  moreover have "\<not> ''eth1'' < ''eth0''" by code_simp
  ultimately show ?thesis by (simp add: discover_instances_def sample_scan instance_default_def)
qed

theorem signal_addressee_witness:
  "signal_target (\<lambda>_ _. None) Term sample_host [''eth0''] = Some ([(- 1, Term)], Inr ()) \<and>
   signal_target (\<lambda>_ _. None) Term sample_host [''42''] = Some ([(42, Term)], Inr ()) \<and>
   parse_target ''42'' = Inr (Pid 42) \<and> is_pesigitgd_proc sample_host 42"
proof -
  have t: "parse_target ''eth0'' = Inr (Interface ''eth0'')" "parse_target ''42'' = Inr (Pid 42)"
    by (simp_all add: parse_target_def sample_facts)
  have a: "addressed_pid sample_host ''eth0'' = Some 4294967295"
    by (simp add: addressed_pid_def live_pid_def sample_scan named_hits_def List.map_filter_def pidfile_pid_def sample_pidfile)
  have kills: "signal_target (\<lambda>_ _. None) Term sample_host [''42''] = Some ([(42, Term)], Inr ())"
    by (simp add: signal_target_def expect_optional_target_def resolve_def t sample_discovered is_pesigitgd_proc_def sample_host_def [THEN arg_cong, of ho_comm]
       to_resolved_def ok_or_def send_signal_def sample_facts)
  show ?thesis
    using signal_addressee [of "\<lambda>_ _. None" Term sample_host "[]" "''eth0''" "''eth0''" 0 "[]" "Inr ()"]
      signal_addressee [of "\<lambda>_ _. None" Term sample_host "[]" "''42''" "''eth0''" 42 "[(42, Term)]" "Inr ()"] kills
    by (simp add: t a send_signal_def)
qed

end
