(* ===== verification/Control_Cid.thy ===== *)
theory Control_Cid
  imports Control Daemon
begin

text \<open>
  The commands of the control tool that explain connection ids: \<open>whoami\<close> decodes an id and
  \<open>backend-config\<close> prints what a backend needs to mint ids, each from a route file or from the
  answer of a running daemon to \<open>GET /config\<close>. \<open>serde_json\<close> is an argument: how a text is read and how a
  value is taken apart. The lemmas compare the two sources with each other and with the datapath.
\<close>

section \<open>JSON values\<close>

record 'v json_lib =
  js_parse :: "string \<Rightarrow> string + 'v"
  js_get :: "'v \<Rightarrow> string \<Rightarrow> 'v option"
  js_u64 :: "'v \<Rightarrow> u64 option"
  js_str :: "'v \<Rightarrow> string option"
  js_bool :: "'v \<Rightarrow> bool option"
  js_array :: "'v \<Rightarrow> 'v list option"

definition get_u64 :: "'v json_lib \<Rightarrow> 'v \<Rightarrow> string \<Rightarrow> u64 option" where
  "get_u64 J v k = Option.bind (js_get J v k) (js_u64 J)"

definition get_str :: "'v json_lib \<Rightarrow> 'v \<Rightarrow> string \<Rightarrow> string option" where
  "get_str J v k = Option.bind (js_get J v k) (js_str J)"

definition get_bool :: "'v json_lib \<Rightarrow> 'v \<Rightarrow> string \<Rightarrow> bool option" where
  "get_bool J v k = Option.bind (js_get J v k) (js_bool J)"

definition get_array :: "'v json_lib \<Rightarrow> 'v \<Rightarrow> string \<Rightarrow> 'v list option" where
  "get_array J v k = Option.bind (js_get J v k) (js_array J)"

definition unwrap_or :: "'a \<Rightarrow> 'a option \<Rightarrow> 'a" where
  "unwrap_or d x = (case x of Some a \<Rightarrow> a | None \<Rightarrow> d)"

section \<open>\<open>whoami\<close>\<close>

fun hex_error_text :: "hex_error \<Rightarrow> string" where
  "hex_error_text OddLength = ''odd number of hex characters''"
| "hex_error_text (InvalidHexAt i) = ''invalid hex at position '' @ dec i"

definition parse_cid_hex :: "string \<Rightarrow> (target_error + bytes) run" where
  "parse_cid_hex s = do {
     r \<leftarrow> hex_decode s;
     ret (case r of
            Inl e \<Rightarrow> Inl (ExtraArgs (''invalid CID hex: '' @ hex_error_text e))
          | Inr bytes \<Rightarrow> if bytes = [] then Inl (ExtraArgs ''CID must be non-empty'') else Inr bytes)
   }"

definition format_duration :: "nat \<Rightarrow> string" where
  "format_duration total_secs =
     (if total_secs < 60 then dec total_secs @ ''s''
      else let m = total_secs div 60; s = total_secs mod 60 in
        if m < 60 then dec m @ ''m'' @ dec s @ ''s''
        else let h = m div 60; m = m mod 60 in
          if h < 24 then dec h @ ''h'' @ dec m @ ''m''
          else let d = h div 24; h = h mod 24 in dec d @ ''d'' @ dec h @ ''h'')"

text \<open>The lines both forms of the command print.\<close>

definition shape_lines :: "string \<Rightarrow> nat \<Rightarrow> nat \<Rightarrow> string list" where
  "shape_lines scheme sid_len nonce_len =
     [''scheme:    '' @ scheme, ''sid_len:   '' @ dec sid_len @ '' bytes'', ''nonce_len: '' @ dec nonce_len @ '' bytes'']"

definition truncated_line :: "nat \<Rightarrow> nat \<Rightarrow> string" where
  "truncated_line len need =
     ''verdict:   truncated (CID is '' @ dec len @ '' byte(s); payload needs '' @ dec need @ '')''"

definition routes_line :: "string \<Rightarrow> string \<Rightarrow> string" where
  "routes_line addr mac = ''verdict:   routes to '' @ addr @ '' ('' @ mac @ '')''"

definition no_entry_line :: "u8 \<Rightarrow> string" where
  "no_entry_line config_id =
     ''verdict:   server_id has no entry in config_id='' @ dec (unat config_id) @ '' (would count as cid_unroutable)''"

definition state_line :: "'v json_lib \<Rightarrow> 'v \<Rightarrow> string" where
  "state_line J s =
     (let healthy = unwrap_or False (get_bool J s ''healthy'');
          draining = unwrap_or False (get_bool J s ''draining'');
          transitions = unwrap_or 0 (get_u64 J s ''transitions'')
      in ''state:     '' @ join '', ''
           ([if healthy then ''healthy'' else ''UNHEALTHY''] @
            (if draining then [''draining''] else []) @
            (case get_u64 J s ''state_since_secs'' of
               Some n \<Rightarrow> [''for '' @ format_duration (unat n)] | None \<Rightarrow> []) @
            (if transitions > 0
             then [dec (unat transitions) @ '' flap'' @ (if transitions = 1 then [] else ''s'')] else [])))"

definition whoami_config :: "'v json_lib \<Rightarrow> bytes \<Rightarrow> u8 \<Rightarrow> 'v \<Rightarrow> string list run" where
  "whoami_config J cid config_id cfg =
     (let scheme = unwrap_or ''?'' (get_str J cfg ''encryption'');
          sid_len = unwrap_or 0 (get_u64 J cfg ''server_id_length'');
          nonce_len = unwrap_or 0 (get_u64 J cfg ''nonce_length'');
          payload_len = sid_len + nonce_len;
          out = shape_lines scheme (unat sid_len) (unat nonce_len)
      in if length cid < unat (1 + payload_len) then ret (out @ [truncated_line (length cid) (unat (1 + payload_len))])
         else if scheme \<noteq> ''plaintext'' then ret (out @
           [''verdict:   encrypted ('' @ scheme @ '') '' @ [CHR 0xE2, CHR 0x80, CHR 0x94] @ '' online decode requires the key,'',
            ''           which /config does not expose. Re-run with'',
            ''           --route-config <path> for a full decode.''])
         else do {
           sid \<leftarrow> slice cid 1 (unat (1 + sid_len));
           let server_id_hex = hex_encode sid;
           let out = out @ [''server_id: '' @ server_id_hex];
           ret (out @
             (case get_array J cfg ''servers'' of
                None \<Rightarrow> [''verdict:   route config missing '' @ [CHR 0x27] @ ''servers'' @ [CHR 0x27] @ '' array'']
              | Some servers \<Rightarrow>
                  (case find (\<lambda>s. get_str J s ''id'' = Some server_id_hex) servers of
                     Some s \<Rightarrow> [routes_line (unwrap_or ''?'' (get_str J s ''address'')) (unwrap_or ''(unset)'' (get_str J s ''mac'')),
                                state_line J s]
                   | None \<Rightarrow> [no_entry_line config_id])))
         })"

definition analyze_whoami :: "'v json_lib \<Rightarrow> bytes \<Rightarrow> 'v list \<Rightarrow> string list run" where
  "analyze_whoami J cid cfgs = do {
     first \<leftarrow> idx cid 0;
     let out = [''cid:       '' @ hex_encode cid];
     let config_id = drop_bit 5 first;
     if config_id = 7 then ret (out @ [''verdict:   config_id 7 is reserved (unroutable)''])
     else do {
       let out = out @ [''config_id: '' @ dec (unat config_id)];
       case find (\<lambda>c. get_u64 J c ''config_id'' = Some (ucast config_id)) cfgs of
         None \<Rightarrow> ret (out @ [''verdict:   no route config with config_id='' @ dec (unat config_id) @ '' on this daemon''])
       | Some cfg \<Rightarrow> do { rest \<leftarrow> whoami_config J cid config_id cfg; ret (out @ rest) }
     }
   }"

definition whoami_config_offline :: "bytes \<Rightarrow> u8 \<Rightarrow> route_config \<Rightarrow> string list run" where
  "whoami_config_offline cid config_id cfg =
     (let out = shape_lines (encryption_name (rc_encryption cfg)) (unat (rc_server_id_length cfg)) (unat (rc_nonce_length cfg));
          payload_len = unat (cid_payload_length cfg)
      in if length cid < 1 + payload_len then ret (out @ [truncated_line (length cid) (1 + payload_len)])
         else do {
           r \<leftarrow> resolve_server_idx cid cfg;
           case r of
             Some i \<Rightarrow> do {
               server \<leftarrow> idx (rc_servers cfg) i;
               ret (out @ [''server_id: '' @ hex_encode (srv_id server),
                           routes_line (ip_text (srv_address server)) (unwrap_or ''(unset)'' (map_option mac_format (srv_mac server)))] @
                    (if srv_draining server then [''state:     draining''] else []))
             }
           | None \<Rightarrow> ret (out @ [no_entry_line config_id])
         })"

definition analyze_whoami_offline :: "bytes \<Rightarrow> route_config list \<Rightarrow> string list run" where
  "analyze_whoami_offline cid cfgs = do {
     first \<leftarrow> idx cid 0;
     let out = [''cid:       '' @ hex_encode cid];
     let config_id = drop_bit 5 first;
     if config_id = 7 then ret (out @ [''verdict:   config_id 7 is reserved (unroutable)''])
     else do {
       let out = out @ [''config_id: '' @ dec (unat config_id)];
       case find (\<lambda>c. rc_config_id c = config_id) cfgs of
         None \<Rightarrow> ret (out @ [''verdict:   no route config with config_id='' @ dec (unat config_id) @ '' in this file''])
       | Some cfg \<Rightarrow> do { rest \<leftarrow> whoami_config_offline cid config_id cfg; ret (out @ rest) }
     }
   }"

section \<open>\<open>backend-config\<close>\<close>

record backend_match =
  bm_config_id :: u8
  bm_server_id :: string
  bm_server_id_length :: u8
  bm_nonce_length :: u8
  bm_first_octet_encodes_cid_length :: bool
  bm_encryption :: string
  bm_key :: "string option"
  bm_key_redacted :: bool
  bm_draining :: bool
  bm_address :: string
  bm_cid_total_length :: nat

fun key_value :: "bool \<Rightarrow> encryption \<Rightarrow> string option \<times> bool" where
  "key_value redact_key Plaintext = (None, False)"
| "key_value redact_key (SinglePass key _) = (if redact_key then None else Some (hex_encode key), redact_key)"
| "key_value redact_key (FourPass key _) = (if redact_key then None else Some (hex_encode key), redact_key)"

definition backend_match_offline :: "string \<Rightarrow> bool \<Rightarrow> u8 option \<Rightarrow> route_config \<Rightarrow> backend_match option" where
  "backend_match_offline server_id_hex redact_key config_id_filter cfg =
     (if config_id_filter \<noteq> None \<and> config_id_filter \<noteq> Some (rc_config_id cfg) then None
      else case find (\<lambda>s. hex_encode (srv_id s) = server_id_hex) (rc_servers cfg) of
        None \<Rightarrow> None
      | Some server \<Rightarrow> Some
          \<lparr>bm_config_id = rc_config_id cfg, bm_server_id = hex_encode (srv_id server),
           bm_server_id_length = rc_server_id_length cfg, bm_nonce_length = rc_nonce_length cfg,
           bm_first_octet_encodes_cid_length = rc_first_octet_encodes_cid_length cfg,
           bm_encryption = encryption_name (rc_encryption cfg),
           bm_key = fst (key_value redact_key (rc_encryption cfg)),
           bm_key_redacted = snd (key_value redact_key (rc_encryption cfg)),
           bm_draining = srv_draining server, bm_address = ip_text (srv_address server),
           bm_cid_total_length = unat (cid_length cfg)\<rparr>)"

definition analyze_backend_config_offline :: "string \<Rightarrow> route_config list \<Rightarrow> bool \<Rightarrow> u8 option \<Rightarrow> backend_match list" where
  "analyze_backend_config_offline server_id_hex cfgs redact_key config_id_filter =
     List.map_filter (backend_match_offline server_id_hex redact_key config_id_filter) cfgs"

definition backend_match_online :: "'v json_lib \<Rightarrow> string \<Rightarrow> u8 option \<Rightarrow> 'v \<Rightarrow> backend_match option" where
  "backend_match_online J server_id_hex config_id_filter cfg =
     (let config_id = ucast (unwrap_or 0 (get_u64 J cfg ''config_id'')) :: u8 in
      if config_id_filter \<noteq> None \<and> config_id_filter \<noteq> Some config_id then None
      else case Option.bind (get_array J cfg ''servers'') (find (\<lambda>s. get_str J s ''id'' = Some server_id_hex)) of
        None \<Rightarrow> None
      | Some server \<Rightarrow>
          (let encryption = unwrap_or ''?'' (get_str J cfg ''encryption'');
               sid_len = ucast (unwrap_or 0 (get_u64 J cfg ''server_id_length'')) :: u8;
               nonce_len = ucast (unwrap_or 0 (get_u64 J cfg ''nonce_length'')) :: u8
           in Some
             \<lparr>bm_config_id = config_id, bm_server_id = server_id_hex, bm_server_id_length = sid_len, bm_nonce_length = nonce_len,
              bm_first_octet_encodes_cid_length = unwrap_or False (get_bool J cfg ''first_octet_encodes_cid_length''),
              bm_encryption = encryption, bm_key = None, bm_key_redacted = encryption \<noteq> ''plaintext'',
              bm_draining = unwrap_or False (get_bool J server ''draining''),
              bm_address = unwrap_or [] (get_str J server ''address''),
              bm_cid_total_length = unat (1 + sid_len + nonce_len)\<rparr>))"

definition analyze_backend_config_online :: "'v json_lib \<Rightarrow> string \<Rightarrow> 'v list \<Rightarrow> u8 option \<Rightarrow> backend_match list" where
  "analyze_backend_config_online J server_id_hex cfgs config_id_filter =
     List.map_filter (backend_match_online J server_id_hex config_id_filter) cfgs"

section \<open>The file and the running table\<close>

text \<open>
  A running table has the configs of a route file: the same ids, lengths and keys, and the same servers up
  to what probes, ARP and reloads add to them.
\<close>

definition routes_from_file :: "route_config list \<Rightarrow> config_table \<Rightarrow> bool" where
  "routes_from_file cs t \<longleftrightarrow> (\<forall>k rc. get t k = Some rc \<longrightarrow>
     (\<exists>c. find (\<lambda>c. rc_config_id c = k) cs = Some c \<and> same_config c rc))"

lemma position_same:
  assumes "list_all2 same_server ss ss'"
  shows "position (\<lambda>s. srv_id s = sid) ss = position (\<lambda>s. srv_id s = sid) ss'"
  using assms by (induction rule: list_all2_induct) (auto simp: same_server_def)

lemma resolve_same_config:
  assumes "same_config c c'"
  shows "resolve_server_idx dcid c = resolve_server_idx dcid c'"
proof -
  have same: "rc_server_id_length c = rc_server_id_length c'" "rc_nonce_length c = rc_nonce_length c'" "rc_encryption c = rc_encryption c'"
    using assms by (auto simp: same_config_def)
  have "find_server_idx c = find_server_idx c'"
    using assms position_same by (auto simp: find_server_idx_def same_config_def)
  then show ?thesis unfolding resolve_server_idx_def cid_payload_length_def same by (rule arg_cong)
qed

lemma loaded_routes_from_file:
  assumes "ct_slots t = slots_of cs" "same_routes t t'"
  shows "routes_from_file cs t'"
proof -
  have rel: "rel_option same_config (slots_of cs ! i) (ct_slots t' ! i) \<and> length (ct_slots t') = 7" if "i < 7" for i
    using assms that by (auto simp: same_routes_def list_all2_conv_all_nth)
  have "\<exists>c. find (\<lambda>c. rc_config_id c = k) cs = Some c \<and> same_config c rc" if "get t' k = Some rc" for k rc
  proof -
    have k: "unat k < 7" "ct_slots t' ! unat k = Some rc"
      using that rel [of 0] by (auto simp: get_def nth_opt_def split: if_splits)
    then show ?thesis using rel [of "unat k"] by (auto simp: slots_of_def word_unat_eq_iff option_rel_Some2)
  qed
  then show ?thesis by (simp add: routes_from_file_def)
qed

section \<open>Offline decoding\<close>

definition whoami_head :: "bytes \<Rightarrow> route_config \<Rightarrow> string list" where
  "whoami_head cid c = [''cid:       '' @ hex_encode cid, ''config_id: '' @ dec (unat (rc_config_id c))] @
     shape_lines (encryption_name (rc_encryption c)) (unat (rc_server_id_length c)) (unat (rc_nonce_length c))"

definition whoami_server :: "server \<Rightarrow> string list" where
  "whoami_server s = [''server_id: '' @ hex_encode (srv_id s),
     routes_line (ip_text (srv_address s)) (unwrap_or ''(unset)'' (map_option mac_format (srv_mac s)))] @
     (if srv_draining s then [''state:     draining''] else [])"

lemma whoami_offline_result:
  assumes "cid \<noteq> []" "drop_bit 5 (hd cid) = rc_config_id c" "rc_config_id c \<le> 6"
    and "find (\<lambda>d. rc_config_id d = rc_config_id c) cs = Some c" "resolve_server_idx cid c = Some r"
  shows "analyze_whoami_offline cid cs = Some (whoami_head cid c @
    (case r of Some i \<Rightarrow> whoami_server (rc_servers c ! i)
     | None \<Rightarrow> if length cid \<le> unat (cid_payload_length c) then [truncated_line (length cid) (1 + unat (cid_payload_length c))]
         else [no_entry_line (rc_config_id c)]))"
proof -
  have seven: "rc_config_id c \<noteq> 7" using assms(3) by auto
  show ?thesis
  proof (cases r)
    case None
    with assms seven show ?thesis
      by (auto simp: analyze_whoami_offline_def whoami_config_offline_def idx_def hd_conv_nth Let_def whoami_head_def)
  next
    case (Some i)
    with assms(5) have "i < length (rc_servers c)" "unat (cid_payload_length c) < length cid"
      by (auto dest: resolve_server_idx_in_range resolve_server_idx_long)
    with Some assms seven show ?thesis
      by (auto simp: analyze_whoami_offline_def whoami_config_offline_def idx_def hd_conv_nth Let_def whoami_head_def whoami_server_def)
  qed
qed

lemmas line_defs = whoami_head_def shape_lines_def whoami_server_def routes_line_def no_entry_line_def truncated_line_def

lemma no_entry_unique:
  "no_entry_line k \<notin> set (whoami_head cid c)" "no_entry_line k \<notin> set (whoami_server s)" "no_entry_line k \<noteq> truncated_line m n"
  by (auto simp: line_defs split: if_splits)

lemma draining_line: "''state:     draining'' \<in> set (whoami_server s) \<longleftrightarrow> srv_draining s" "''state:     draining'' \<notin> set (whoami_head cid c)"
  by (auto simp: line_defs)

lemma lookup_config_get:
  "lookup_config quic t = Some (Some (dcid, rc)) \<Longrightarrow> \<exists>k. get t k = Some rc"
  by (auto simp: lookup_config_def Let_def split: if_splits)

section \<open>Online decoding\<close>

text \<open>
  A value is what \<open>serde_json\<close> reads back from the text it wrote for a view: every field of the view under
  its name, an absent MAC or time as a value that is no string and no number, and no other field.
\<close>

definition reads_server :: "'v json_lib \<Rightarrow> 'v \<Rightarrow> server_view \<Rightarrow> bool" where
  "reads_server J v s \<longleftrightarrow> get_str J v ''id'' = Some (vs_id s) \<and> get_str J v ''address'' = Some (vs_address s) \<and>
     get_str J v ''mac'' = vs_mac s \<and> get_bool J v ''healthy'' = Some (vs_healthy s) \<and>
     get_bool J v ''draining'' = Some (vs_draining s) \<and> get_u64 J v ''transitions'' = Some (ucast (vs_transitions s)) \<and>
     get_u64 J v ''state_since_secs'' = map_option of_nat (vs_state_since_secs s)"

definition reads_config :: "'v json_lib \<Rightarrow> 'v \<Rightarrow> route_config_view \<Rightarrow> bool" where
  "reads_config J v c \<longleftrightarrow> get_u64 J v ''config_id'' = Some (ucast (vc_config_id c)) \<and>
     get_str J v ''encryption'' = Some (vc_encryption c) \<and>
     get_u64 J v ''server_id_length'' = Some (ucast (vc_server_id_length c)) \<and>
     get_u64 J v ''nonce_length'' = Some (ucast (vc_nonce_length c)) \<and>
     js_get J v ''first_octet_encodes_cid_length'' = None \<and>
     (\<exists>vs. get_array J v ''servers'' = Some vs \<and> list_all2 (reads_server J) vs (vc_servers c))"

lemma find_list_all2:
  assumes "list_all2 R xs ys" "\<And>x y. R x y \<Longrightarrow> P x \<longleftrightarrow> Q y"
  shows "rel_option R (find P xs) (find Q ys)"
  using assms(1) by (induction rule: list_all2_induct) (auto simp: assms(2))

lemma ucast_u8_u64 [simp]:
  "unat (ucast (a :: u8) :: u64) = unat a" "(ucast a :: u64) = ucast b \<longleftrightarrow> a = b" "ucast (ucast a :: u64) = a"
proof -
  have small: "unat (c :: u8) < 2 ^ 64" for c by (rule less_trans [OF unat_byte_lt]) simp
  then show up: "unat (ucast c :: u64) = unat c" for c :: u8 by (simp add: unsigned_ucast_eq take_bit_nat_eq_self)
  then show "(ucast a :: u64) = ucast b \<longleftrightarrow> a = b" by (metis word_unat_eq_iff)
  show "ucast (ucast a :: u64) = a" by (rule bit_word_eqI) (simp add: bit_unsigned_iff)
qed

text \<open>The view of a server of a config, and the first server with an id.\<close>

definition reads_route :: "'v json_lib \<Rightarrow> 'v \<Rightarrow> route_config \<Rightarrow> bool" where
  "reads_route J v c \<longleftrightarrow> (\<exists>clock loaded now. reads_config J v (from_route clock c loaded now))"

lemma reads_route_fields:
  assumes "reads_route J v c"
  shows "get_u64 J v ''config_id'' = Some (ucast (rc_config_id c))" "get_str J v ''encryption'' = Some (encryption_name (rc_encryption c))"
    "get_u64 J v ''server_id_length'' = Some (ucast (rc_server_id_length c))" "get_u64 J v ''nonce_length'' = Some (ucast (rc_nonce_length c))"
    "get_bool J v ''first_octet_encodes_cid_length'' = None"
    "\<exists>vs. get_array J v ''servers'' = Some vs \<and> list_all2 (\<lambda>w s. \<exists>now. reads_server J w (server_view_from now s)) vs (rc_servers c)"
proof -
  obtain clock loaded now where r: "reads_config J v (from_route clock c loaded now)" using assms by (auto simp: reads_route_def)
  then show "get_u64 J v ''config_id'' = Some (ucast (rc_config_id c))" "get_str J v ''encryption'' = Some (encryption_name (rc_encryption c))"
      "get_u64 J v ''server_id_length'' = Some (ucast (rc_server_id_length c))" "get_u64 J v ''nonce_length'' = Some (ucast (rc_nonce_length c))"
      "get_bool J v ''first_octet_encodes_cid_length'' = None"
    by (simp_all add: reads_config_def from_route_def get_bool_def)
  obtain vs where "get_array J v ''servers'' = Some vs" "list_all2 (reads_server J) vs (vc_servers (from_route clock c loaded now))"
    using r by (auto simp: reads_config_def)
  moreover from this(2) have "list_all2 (\<lambda>w s. \<exists>now. reads_server J w (server_view_from now s)) vs (rc_servers c)"
    by (force simp: list_all2_conv_all_nth from_route_def nth_enumerate_eq)
  ultimately show "\<exists>vs. get_array J v ''servers'' = Some vs \<and> list_all2 (\<lambda>w s. \<exists>now. reads_server J w (server_view_from now s)) vs (rc_servers c)"
    by blast
qed

lemma reads_route_server:
  assumes "reads_route J v c"
  shows "\<exists>vs. get_array J v ''servers'' = Some vs \<and>
    rel_option (\<lambda>w s. \<exists>now. reads_server J w (server_view_from now s))
      (find (\<lambda>w. get_str J w ''id'' = Some hex) vs) (find (\<lambda>s. hex_encode (srv_id s) = hex) (rc_servers c))"
proof -
  obtain vs where vs: "get_array J v ''servers'' = Some vs" "list_all2 (\<lambda>w s. \<exists>now. reads_server J w (server_view_from now s)) vs (rc_servers c)"
    using reads_route_fields(6) [OF assms] by blast
  have "rel_option (\<lambda>w s. \<exists>now. reads_server J w (server_view_from now s))
      (find (\<lambda>w. get_str J w ''id'' = Some hex) vs) (find (\<lambda>s. hex_encode (srv_id s) = hex) (rc_servers c))"
    by (rule find_list_all2 [OF vs(2)]) (auto simp: reads_server_def server_view_from_def)
  with vs(1) show ?thesis by blast
qed

lemma config_response_reads:
  assumes "list_all2 (reads_config J) vs (vt_configs (snd (build_config_response clock a t now)))"
  shows "list_all2 (reads_route J) vs (configs t)"
  using assms by (force simp: build_config_response_def list_all2_conv_all_nth reads_route_def)

lemma find_position: "find P xs = map_option ((!) xs) (position P xs)"
  by (induction xs) (auto simp: option.map_comp comp_def)

lemma hex_encode_inj: "hex_encode xs = hex_encode ys \<longleftrightarrow> xs = ys"
  using hex.enc_inj [of xs ys] by auto

lemma u64_lengths:
  "unat (1 + (ucast (a :: u8) + ucast (b :: u8)) :: u64) = 1 + unat a + unat b" "unat (1 + ucast a :: u64) = 1 + unat a"
proof -
  have "unat a + unat b < 18446744073709551615" "unat a < 18446744073709551615"
    using unat_byte_lt [of a] unat_byte_lt [of b] by linarith+
  then show "unat (1 + (ucast a + ucast b) :: u64) = 1 + unat a + unat b" "unat (1 + ucast a :: u64) = 1 + unat a"
    by (simp_all add: unat_word_ariths(1))
qed

lemma find_the:
  assumes "x \<in> set xs" "P x" "\<forall>y \<in> set xs. P y \<longrightarrow> y = x"
  shows "find P xs = Some x"
proof (cases "find P xs")
  case None
  then show ?thesis using assms(1,2) by (simp add: find_None_iff)
next
  case (Some y)
  then have "y \<in> set xs" "P y" by (auto simp: find_Some_iff)
  with Some assms(3) show ?thesis by blast
qed

lemma configs_get:
  assumes "table_wf aes_new t" "c \<in> set (configs t)"
  shows "get t (rc_config_id c) = Some c"
proof -
  obtain i where i: "i < length (ct_slots t)" "ct_slots t ! i = Some c"
    using assms(2) [unfolded configs_mem] by (auto simp: in_set_conv_nth)
  then have "unat (rc_config_id c) = i" using assms(1) by (auto simp: table_wf_def slot_wf_def)
  with i show ?thesis by (simp add: get_def nth_opt_def)
qed

lemma find_configs:
  assumes "table_wf aes_new t" "get t k = Some rc"
  shows "find (\<lambda>c. rc_config_id c = k) (configs t) = Some rc"
proof (rule find_the)
  show "rc \<in> set (configs t)" "rc_config_id rc = k" using table_wf_get [OF assms] by auto
  show "\<forall>c \<in> set (configs t). rc_config_id c = k \<longrightarrow> c = rc" using configs_get [OF assms(1)] assms(2) by auto
qed

lemma resolve_plaintext_long:
  assumes "route_wf aes_new rc" "rc_encryption rc = Plaintext" "unat (cid_payload_length rc) < length cid"
  shows "resolve_server_idx cid rc = Some (find_server_idx rc (take (unat (rc_server_id_length rc)) (drop 1 cid)))"
proof -
  have ok: "lengths_ok (unat (rc_server_id_length rc)) (unat (rc_nonce_length rc))" using assms(1) by (simp add: route_wf_def)
  have "1 + (unat (rc_server_id_length rc) + unat (rc_nonce_length rc)) \<le> length cid" using assms(3) by (simp add: cid_lengths [OF ok])
  then obtain o0 l r extra where "cid = o0 # l @ r @ extra" "length l = unat (rc_server_id_length rc)" "length r = unat (rc_nonce_length rc)"
    by (rule split_cid)
  then show ?thesis using resolve_plaintext [OF ok _ _ assms(2)] by simp
qed

lemma online_server:
  assumes "reads_route J v c"
  obtains vs where "get_array J v ''servers'' = Some vs"
    "find_server_idx c sid = None \<Longrightarrow> find (\<lambda>w. get_str J w ''id'' = Some (hex_encode sid)) vs = None"
    "\<And>i. find_server_idx c sid = Some i \<Longrightarrow>
      \<exists>w now. find (\<lambda>w. get_str J w ''id'' = Some (hex_encode sid)) vs = Some w \<and> reads_server J w (server_view_from now (rc_servers c ! i))"
proof -
  obtain vs where vs: "get_array J v ''servers'' = Some vs" and rel: "rel_option (\<lambda>w s. \<exists>now. reads_server J w (server_view_from now s))
      (find (\<lambda>w. get_str J w ''id'' = Some (hex_encode sid)) vs) (map_option ((!) (rc_servers c)) (find_server_idx c sid))"
    using reads_route_server [OF assms, of "hex_encode sid"] by (auto simp: find_position [of _ "rc_servers c"] hex_encode_inj find_server_idx_def)
  show thesis
    by (rule that [OF vs]) (use rel in \<open>auto simp: option_rel_Some2\<close>)
qed

lemma encryption_name_plaintext: "encryption_name e = ''plaintext'' \<longleftrightarrow> e = Plaintext"
  by (cases e) auto

lemma routes_line_unique: "routes_line addr mac \<notin> set (shape_lines sch sid nonce)" "routes_line addr mac \<noteq> truncated_line m n"
  by (auto simp: line_defs)

lemma verdict_lines:
  "filter (prefix ''verdict:'') (shape_lines sch sid nonce) = []" "prefix ''verdict:'' (routes_line addr mac)"
  "prefix ''verdict:'' (no_entry_line k)" "\<not> prefix ''verdict:'' (state_line J w)" "\<not> prefix ''verdict:'' (''server_id: '' @ hex)"
  by (simp_all add: line_defs state_line_def Let_def)

lemma whoami_short:
  assumes "reads_route J v rc" "route_wf aes_new rc" "length cid \<le> unat (cid_payload_length rc)"
  shows "whoami_config J cid (rc_config_id rc) v = whoami_config_offline cid (rc_config_id rc) rc"
    "whoami_config J cid (rc_config_id rc) v = Some (shape_lines (encryption_name (rc_encryption rc)) (unat (rc_server_id_length rc)) (unat (rc_nonce_length rc)) @
      [truncated_line (length cid) (1 + unat (cid_payload_length rc))])"
proof -
  have ok: "lengths_ok (unat (rc_server_id_length rc)) (unat (rc_nonce_length rc))" using assms(2) by (simp add: route_wf_def)
  show "whoami_config J cid (rc_config_id rc) v = whoami_config_offline cid (rc_config_id rc) rc"
    "whoami_config J cid (rc_config_id rc) v = Some (shape_lines (encryption_name (rc_encryption rc)) (unat (rc_server_id_length rc)) (unat (rc_nonce_length rc)) @
      [truncated_line (length cid) (1 + unat (cid_payload_length rc))])"
    using assms(3) by (simp_all add: whoami_config_def whoami_config_offline_def Let_def reads_route_fields [OF assms(1)] unwrap_or_def u64_lengths cid_lengths [OF ok])
qed

lemma whoami_encrypted:
  assumes "reads_route J v rc" "route_wf aes_new rc" "unat (cid_payload_length rc) < length cid" "rc_encryption rc \<noteq> Plaintext"
  shows "\<exists>ls. whoami_config J cid (rc_config_id rc) v = Some ls \<and> (\<forall>addr mac. routes_line addr mac \<notin> set ls)"
proof -
  have ok: "lengths_ok (unat (rc_server_id_length rc)) (unat (rc_nonce_length rc))" using assms(2) by (simp add: route_wf_def)
  have "\<not> length cid < unat (1 + (ucast (rc_server_id_length rc) + ucast (rc_nonce_length rc)) :: u64)"
    using assms(3) by (simp add: u64_lengths cid_lengths [OF ok])
  then show ?thesis using assms(4)
    by (simp add: whoami_config_def Let_def reads_route_fields [OF assms(1)] unwrap_or_def encryption_name_plaintext)
      (simp add: line_defs)
qed

lemma whoami_plaintext:
  assumes "reads_route J v rc" "route_wf aes_new rc" "unat (cid_payload_length rc) < length cid" "rc_encryption rc = Plaintext"
  shows "\<exists>ls off. whoami_config J cid (rc_config_id rc) v = Some ls \<and> whoami_config_offline cid (rc_config_id rc) rc = Some off \<and>
    filter (prefix ''verdict:'') ls = filter (prefix ''verdict:'') off"
proof -
  have ok: "lengths_ok (unat (rc_server_id_length rc)) (unat (rc_nonce_length rc))" using assms(2) by (simp add: route_wf_def)
  let ?sid = "take (unat (rc_server_id_length rc)) (drop 1 cid)"
  have long: "\<not> length cid < unat (1 + (ucast (rc_server_id_length rc) + ucast (rc_nonce_length rc)) :: u64)"
    using assms(3) by (simp add: u64_lengths cid_lengths [OF ok])
  have sid: "slice cid 1 (unat (1 + ucast (rc_server_id_length rc) :: u64)) = Some ?sid"
    using assms(3) by (simp add: u64_lengths cid_lengths [OF ok] slice_def)
  note resolved = resolve_plaintext_long [OF assms(2,4,3)]
  obtain vs where vs: "get_array J v ''servers'' = Some vs"
      "find_server_idx rc ?sid = None \<Longrightarrow> find (\<lambda>w. get_str J w ''id'' = Some (hex_encode ?sid)) vs = None"
      "\<And>i. find_server_idx rc ?sid = Some i \<Longrightarrow>
        \<exists>w now. find (\<lambda>w. get_str J w ''id'' = Some (hex_encode ?sid)) vs = Some w \<and> reads_server J w (server_view_from now (rc_servers rc ! i))"
    using online_server [OF assms(1), of ?sid] by blast
  note online = whoami_config_def [of J cid "rc_config_id rc" v] Let_def reads_route_fields [OF assms(1)] unwrap_or_def vs(1)
  show ?thesis
  proof (cases "find_server_idx rc ?sid")
    case None
    then show ?thesis using vs(2) long sid assms(3,4) resolved
      by (simp add: online whoami_config_offline_def verdict_lines)
  next
    case (Some i)
    then obtain w now where w: "find (\<lambda>w. get_str J w ''id'' = Some (hex_encode ?sid)) vs = Some w" "reads_server J w (server_view_from now (rc_servers rc ! i))"
      using vs(3) by blast
    have "idx (rc_servers rc) i = Some (rc_servers rc ! i)" using Some find_server_idx_in_range by (simp add: idx_def)
    with w Some long sid assms(3,4) resolved show ?thesis
      by (simp add: online whoami_config_offline_def verdict_lines reads_server_def server_view_from_def)
  qed
qed

lemma analyze_config:
  assumes "table_wf aes_new t" "list_all2 (reads_route J) vs (configs t)" "cid \<noteq> []" "get t (drop_bit 5 (hd cid)) = Some rc"
  obtains v where "reads_route J v rc" "route_wf aes_new rc"
    "analyze_whoami J cid vs = Option.bind (whoami_config J cid (rc_config_id rc) v)
       (\<lambda>rest. Some ([''cid:       '' @ hex_encode cid, ''config_id: '' @ dec (unat (rc_config_id rc))] @ rest))"
    "analyze_whoami_offline cid (configs t) = Option.bind (whoami_config_offline cid (rc_config_id rc) rc)
       (\<lambda>rest. Some ([''cid:       '' @ hex_encode cid, ''config_id: '' @ dec (unat (rc_config_id rc))] @ rest))"
proof -
  have rc: "route_wf aes_new rc" "rc_config_id rc = drop_bit 5 (hd cid)" using table_wf_get [OF assms(1,4)] by auto
  note found = find_configs [OF assms(1,4), folded rc(2)]
  have "rel_option (reads_route J) (find (\<lambda>c. get_u64 J c ''config_id'' = Some (ucast (rc_config_id rc))) vs)
      (find (\<lambda>c. rc_config_id c = rc_config_id rc) (configs t))"
    by (rule find_list_all2 [OF assms(2)]) (simp add: reads_route_fields)
  then obtain v where v: "find (\<lambda>c. get_u64 J c ''config_id'' = Some (ucast (rc_config_id rc))) vs = Some v" "reads_route J v rc"
    unfolding found by (auto simp: option_rel_Some2)
  have seven: "rc_config_id rc \<noteq> 7" using rc(1) by (auto simp: route_wf_def)
  have first: "idx cid 0 = Some (hd cid)" using assms(3) by (simp add: idx_def hd_conv_nth)
  show thesis
    by (rule that [OF v(2) rc(1)]) (simp_all add: analyze_whoami_def analyze_whoami_offline_def first Let_def rc(2) [symmetric] seven v(1) found)
qed

lemma backend_match_reads:
  assumes "reads_route J v c" "route_wf aes_new c"
  shows "backend_match_online J hex flt v = map_option (bm_first_octet_encodes_cid_length_update (\<lambda>_. False)) (backend_match_offline hex True flt c)"
proof -
  obtain vs where vs: "get_array J v ''servers'' = Some vs" and rel: "rel_option (\<lambda>w s. \<exists>now. reads_server J w (server_view_from now s))
      (find (\<lambda>w. get_str J w ''id'' = Some hex) vs) (find (\<lambda>s. hex_encode (srv_id s) = hex) (rc_servers c))"
    using reads_route_server [OF assms(1), of hex] by blast
  have key: "key_value True (rc_encryption c) = (None, rc_encryption c \<noteq> Plaintext)" by (cases "rc_encryption c") auto
  have len: "cid_length c = 1 + rc_server_id_length c + rc_nonce_length c" by (simp add: cid_length_def cid_payload_length_def add.assoc)
  note defs = backend_match_online_def backend_match_offline_def Let_def reads_route_fields [OF assms(1)] vs unwrap_or_def key len encryption_name_plaintext
  show ?thesis
  proof (cases "find (\<lambda>s. hex_encode (srv_id s) = hex) (rc_servers c)")
    case None
    then show ?thesis using rel by (simp add: defs)
  next
    case (Some s)
    then have "hex_encode (srv_id s) = hex" by (auto simp: find_Some_iff)
    moreover obtain w now where "find (\<lambda>w. get_str J w ''id'' = Some hex) vs = Some w" "reads_server J w (server_view_from now s)"
      using rel unfolding Some by (auto simp: option_rel_Some2)
    ultimately show ?thesis using Some by (simp add: defs reads_server_def server_view_from_def)
  qed
qed

lemma map_filter_all2:
  "list_all2 R xs ys \<Longrightarrow> (\<And>x y. R x y \<Longrightarrow> y \<in> set ys \<Longrightarrow> f x = map_option h (g y)) \<Longrightarrow> List.map_filter f xs = map h (List.map_filter g ys)"
  by (induction rule: list_all2_induct) (auto simp: List.map_filter_simps split: option.splits)

text \<open>
  Online and offline decoding agree. Let the answer of a daemon to \<open>GET /config\<close> be read back field by field,
  and let a connection id belong to a config of the daemon's table. Then \<open>whoami\<close> never panics on the
  answer; for a config in plaintext it prints the verdict that decoding with the configuration itself
  gives; for an encrypted config it names no server.
\<close>

lemma whoami_online_agrees:
  assumes "table_wf aes_new t" "list_all2 (reads_config J) vs (vt_configs (snd (build_config_response clock a t now)))"
    and "cid \<noteq> []" "get t (drop_bit 5 (hd cid)) = Some rc"
  shows "\<exists>ls. analyze_whoami J cid vs = Some ls \<and>
    (if rc_encryption rc = Plaintext
     then \<exists>off. analyze_whoami_offline cid (configs t) = Some off \<and> filter (prefix ''verdict:'') ls = filter (prefix ''verdict:'') off
     else \<forall>addr mac. routes_line addr mac \<notin> set ls)"
proof -
  obtain v where v: "reads_route J v rc" "route_wf aes_new rc"
    and online: "analyze_whoami J cid vs = Option.bind (whoami_config J cid (rc_config_id rc) v)
       (\<lambda>rest. Some ([''cid:       '' @ hex_encode cid, ''config_id: '' @ dec (unat (rc_config_id rc))] @ rest))"
    and offline: "analyze_whoami_offline cid (configs t) = Option.bind (whoami_config_offline cid (rc_config_id rc) rc)
       (\<lambda>rest. Some ([''cid:       '' @ hex_encode cid, ''config_id: '' @ dec (unat (rc_config_id rc))] @ rest))"
    by (rule analyze_config [OF assms(1) config_response_reads [OF assms(2)] assms(3,4)])
  have head: "routes_line addr mac \<noteq> ''cid:       '' @ hex_encode cid" "routes_line addr mac \<noteq> ''config_id: '' @ n" for addr mac n
    by (simp_all add: routes_line_def)
  consider "length cid \<le> unat (cid_payload_length rc)" | "unat (cid_payload_length rc) < length cid" "rc_encryption rc = Plaintext"
    | "unat (cid_payload_length rc) < length cid" "rc_encryption rc \<noteq> Plaintext" by fastforce
  then show ?thesis
  proof cases
    case 1
    note short = whoami_short [OF v 1]
    show ?thesis unfolding online offline short(1) [symmetric] unfolding short(2) using head by (auto simp: routes_line_unique)
  next
    case 2
    with whoami_plaintext [OF v 2] show ?thesis unfolding online offline by auto
  next
    case 3
    with whoami_encrypted [OF v 3] head show ?thesis unfolding online by auto
  qed
qed

section \<open>Properties\<close>

text \<open>
  C11. The tool explains what the datapath does. Let the routes of the running table come from a route file. If
  a packet carries a connection id that belongs to a config of the table, \<open>whoami\<close> decodes this id from the
  file without panicking. A packet that the datapath forwarded by connection id went to the MAC of a server
  whose address \<open>whoami\<close> prints, and \<open>whoami\<close> calls the server draining exactly if the verdict says so; the
  datapath finds no server for the id exactly if \<open>whoami\<close> prints that the id has no entry.
\<close>

theorem whoami_explains_datapath:
  assumes "env_ok aes_new table conn local_mac" "routes_from_file cs table" "udp_payload frame = Some (flow, quic)"
    and "process_packet fx_hash frame table conn local_mac now = Some (v, frame', conn')"
    and "lookup_config quic table = Some (Some (dcid, rc))"
  shows "\<exists>ls. analyze_whoami_offline dcid cs = Some ls \<and>
    (v \<in> {CidForward k, CidForwardDraining k} \<longrightarrow> k = rc_config_id rc \<and>
       (\<exists>s \<in> set (rc_servers rc). \<exists>mac. srv_mac s = Some (take 6 frame') \<and> routes_line (ip_text (srv_address s)) mac \<in> set ls) \<and>
       (v = CidForwardDraining k \<longleftrightarrow> ''state:     draining'' \<in> set ls)) \<and>
    (v = CidUnroutableBadServerId \<longleftrightarrow> no_entry_line (rc_config_id rc) \<in> set ls)"
proof -
  have env: "table_wf aes_new table" "ciphers_ok aes_new" "nonces_fit table" using assms(1) by (auto simp: env_ok_def)
  note l = lookup_config_Some [OF env(1) assms(5)]
  obtain r where r: "resolve_server_idx dcid rc = Some r" using nonces_fit_resolve [OF env l(1)] by blast
  obtain k' where "get table k' = Some rc" using lookup_config_get [OF assms(5)] by blast
  moreover from this have "rc_config_id rc = k'" using table_wf_get [OF env(1)] by blast
  ultimately obtain c where c: "find (\<lambda>c. rc_config_id c = rc_config_id rc) cs = Some c" "same_config c rc"
    using assms(2) unfolding routes_from_file_def by blast
  have fields: "rc_config_id c = rc_config_id rc" "rc_config_id rc \<le> 6" "cid_payload_length c = cid_payload_length rc" "length (rc_servers c) = length (rc_servers rc)"
    using c(2) l(2) by (auto simp: same_config_def route_wf_def cid_payload_length_def list_all2_lengthD)
  have ls: "analyze_whoami_offline dcid cs = Some (whoami_head dcid c @
      (case r of Some i \<Rightarrow> whoami_server (rc_servers c ! i)
       | None \<Rightarrow> if length dcid \<le> unat (cid_payload_length c) then [truncated_line (length dcid) (1 + unat (cid_payload_length c))]
           else [no_entry_line (rc_config_id c)]))"
    using l c r fields resolve_same_config [OF c(2), of dcid] by (intro whoami_offline_result) auto
  have udp: "cid_server quic table = (case r of Some i \<Rightarrow> Some (dcid, rc, rc_servers rc ! i) | None \<Rightarrow> None)"
      "cid_claimed quic table \<longleftrightarrow> unat (cid_payload_length rc) < length dcid"
    using assms(5) r by (auto simp: cid_server_def cid_claimed_def split: option.splits)
  note packet = process_packet_udp [OF assms(1,3,4)]
  show ?thesis
  proof (cases r)
    case None
    with packet show ?thesis unfolding ls udp by (auto simp: no_entry_unique fields split: option.splits if_splits)
  next
    case (Some i)
    then have i: "i < length (rc_servers rc)" using r by (auto dest: resolve_server_idx_in_range)
    let ?s = "rc_servers rc ! i" and ?ls = "whoami_head dcid c @ whoami_server (rc_servers c ! i)"
    have same: "same_server (rc_servers c ! i) ?s" using c(2) i by (auto simp: same_config_def list_all2_conv_all_nth)
    then obtain mac where mac: "routes_line (ip_text (srv_address ?s)) mac \<in> set ?ls" by (auto simp: whoami_server_def same_server_def)
    have drain: "''state:     draining'' \<in> set ?ls \<longleftrightarrow> srv_draining ?s" using same by (simp add: draining_line same_server_def)
    have "(v \<in> {CidForward k, CidForwardDraining k} \<longrightarrow> k = rc_config_id rc \<and> srv_mac ?s = Some (take 6 frame') \<and>
        (v = CidForwardDraining k \<longleftrightarrow> srv_draining ?s)) \<and> v \<noteq> CidUnroutableBadServerId"
      using packet Some unfolding udp by (auto simp: mac_wf_def split: if_splits)
    moreover have "no_entry_line (rc_config_id rc) \<notin> set ?ls" by (simp add: no_entry_unique)
    moreover have "?s \<in> set (rc_servers rc)" using i by simp
    ultimately show ?thesis using ls Some mac drain by auto
  qed
qed

text \<open>
  C27. Provisioning from a running daemon. What \<open>backend-config\<close> reports from the answer of a daemon to
  \<open>GET /config\<close> is what it reports from the configuration with the keys left out, except for one field:
  whether the first octet encodes the length is always reported as false, because the answer does not have
  it.
\<close>

theorem backend_config_online:
  assumes "table_wf aes_new t" "list_all2 (reads_config J) vs (vt_configs (snd (build_config_response clock a t now)))"
  shows "analyze_backend_config_online J server_id_hex vs config_id_filter =
    map (bm_first_octet_encodes_cid_length_update (\<lambda>_. False))
      (analyze_backend_config_offline server_id_hex (configs t) True config_id_filter)"
  unfolding analyze_backend_config_online_def analyze_backend_config_offline_def
proof (rule map_filter_all2 [OF config_response_reads [OF assms(2)]])
  fix v c
  assume "reads_route J v c" "c \<in> set (configs t)"
  then show "backend_match_online J server_id_hex config_id_filter v =
      map_option (bm_first_octet_encodes_cid_length_update (\<lambda>_. False)) (backend_match_offline server_id_hex True config_id_filter c)"
    using table_wf_configs [OF assms(1)] by (intro backend_match_reads)
qed

section \<open>Witnesses\<close>

text \<open>JSON values as a datatype, and the value of a view.\<close>

datatype json = JNull | JNumber u64 | JString string | JBool bool | JArray "json list" | JObject "(string \<times> json) list"

definition json_ops :: "json json_lib" where
  "json_ops = \<lparr>js_parse = (\<lambda>_. Inl []), js_get = (\<lambda>v k. case v of JObject m \<Rightarrow> map_of m k | _ \<Rightarrow> None),
     js_u64 = (\<lambda>v. case v of JNumber n \<Rightarrow> Some n | _ \<Rightarrow> None), js_str = (\<lambda>v. case v of JString s \<Rightarrow> Some s | _ \<Rightarrow> None),
     js_bool = (\<lambda>v. case v of JBool b \<Rightarrow> Some b | _ \<Rightarrow> None), js_array = (\<lambda>v. case v of JArray vs \<Rightarrow> Some vs | _ \<Rightarrow> None)\<rparr>"

definition json_server :: "server_view \<Rightarrow> json" where
  "json_server s = JObject [(''id'', JString (vs_id s)), (''address'', JString (vs_address s)),
     (''mac'', case vs_mac s of Some m \<Rightarrow> JString m | None \<Rightarrow> JNull), (''healthy'', JBool (vs_healthy s)),
     (''draining'', JBool (vs_draining s)), (''transitions'', JNumber (ucast (vs_transitions s))),
     (''state_since_secs'', case vs_state_since_secs s of Some n \<Rightarrow> JNumber (of_nat n) | None \<Rightarrow> JNull)]"

definition json_config :: "route_config_view \<Rightarrow> json" where
  "json_config c = JObject [(''config_id'', JNumber (ucast (vc_config_id c))), (''encryption'', JString (vc_encryption c)),
     (''server_id_length'', JNumber (ucast (vc_server_id_length c))), (''nonce_length'', JNumber (ucast (vc_nonce_length c))),
     (''servers'', JArray (map json_server (vc_servers c)))]"

lemma json_reads: "reads_config json_ops (json_config c) c"
proof -
  have "reads_server json_ops (json_server s) s" for s
    by (simp add: reads_server_def json_ops_def json_server_def get_str_def get_u64_def get_bool_def split: option.splits)
  then show ?thesis
    by (simp add: reads_config_def json_ops_def json_config_def get_str_def get_u64_def get_array_def list_all2_conv_all_nth)
qed

lemma json_reads_all: "list_all2 (reads_config json_ops) (map json_config cs) cs"
  by (simp add: list_all2_conv_all_nth json_reads)

theorem whoami_explains_datapath_witness:
  "\<exists>ls mac. analyze_whoami_offline [0x40, 10, 11, 1, 2, 3, 4] [live_rc] = Some ls \<and> routes_line (ip_text (srv_address live_server)) mac \<in> set ls"
proof -
  have same: "routes_from_file [live_rc] live_table"
    by (auto simp: routes_from_file_def get_live_table same_config_def live_rc_def same_server_def list_all2_same split: if_splits)
  obtain v frame' conn' where r: "process_packet (\<lambda>_. 0) (sample_udp_frame (sample_quic 0x40)) live_table (conn_new 0) sample_local_mac 0 = Some (v, frame', conn')"
    using sample_result by blast
  have "v = CidForward 2"
    using process_packet_udp [OF live_env udp_payload_sample r] by (simp add: cid_server_sample) (auto simp: live_server_def live_rc_def)
  then show ?thesis
    using whoami_explains_datapath [OF live_env same udp_payload_sample r lookup_sample(1), of 2] by (auto simp: live_rc_def)
qed

definition octet_rc :: route_config where
  "octet_rc = live_rc\<lparr>rc_first_octet_encodes_cid_length := True\<rparr>"

theorem backend_config_online_witness:
  "map bm_first_octet_encodes_cid_length (analyze_backend_config_offline ''0a0b'' [octet_rc] True None) = [True] \<and>
   map bm_first_octet_encodes_cid_length (analyze_backend_config_online json_ops ''0a0b''
     (map json_config (vt_configs (snd (build_config_response (\<lambda>_ _. 0) sample_args (single_table octet_rc 0) 0)))) None) = [False]"
proof -
  have "route_wf xor_cipher octet_rc"
    by (simp add: octet_rc_def route_wf_def live_rc_def lengths_ok_def server_wf_def live_server_def mac_wf_def sample_mac_def)
  then have wf: "table_wf xor_cipher (single_table octet_rc 0)" by (rule single_table_wf)
  have cs: "configs (single_table octet_rc 0) = [octet_rc]" by (rule configs_single_table) (simp add: octet_rc_def live_rc_def)
  have "hex_encode [10, 11] = ''0a0b''" by code_simp
  then have "map bm_first_octet_encodes_cid_length (analyze_backend_config_offline ''0a0b'' [octet_rc] True None) = [True]"
    by (simp add: analyze_backend_config_offline_def List.map_filter_def backend_match_offline_def octet_rc_def live_rc_def live_server_def)
  with backend_config_online [OF wf json_reads_all, of "''0a0b''" "\<lambda>_ _. 0" sample_args 0 None] show ?thesis
    unfolding cs by (simp add: map_eq_Cons_conv) auto
qed

end
