(* ===== verification/Pid_File.thy ===== *)
theory Pid_File
  imports Control
begin

text \<open>
  The pidfile of a daemon that runs outside of systemd, \<open>pesigitg-daemon/src/pidfile.rs\<close>: the file is
  opened and truncated, locked, and the process id is written to it; dropping it removes the file and
  releases the lock. The file system is explicit: names lead to inodes, and a lock is held on an inode, not
  on a name. Several daemons interleave at the granularity of these system calls, and the control tool reads
  the directory that results.
\<close>

section \<open>Files and locks\<close>

record pid_fs =
  px_inode :: "string \<Rightarrow> nat option"
  px_next :: nat
  px_content :: "nat \<Rightarrow> string"
  px_lock :: "nat \<Rightarrow> u32 option"

text \<open>Errors the system calls may return: opening, duplicating the descriptor, writing.\<close>

record pid_io =
  pi_open :: "string option"
  pi_clone :: "string option"
  pi_write :: "string option"

record pid_file_handle =
  pf_path :: string
  pf_lock :: nat

definition pid_file_name :: "string \<Rightarrow> string" where
  "pid_file_name iface = PROC_NAME @ ''-'' @ iface @ ''.pid''"

definition pid_file :: "string \<Rightarrow> string" where
  "pid_file iface = PID_DIR @ ''/'' @ pid_file_name iface"

text \<open>\<open>File::options().create(true).truncate(true)\<close>: the inode and the file system after opening.\<close>

definition px_open :: "string \<Rightarrow> pid_fs \<Rightarrow> nat \<times> pid_fs" where
  "px_open path fs =
     (case px_inode fs path of
        Some i \<Rightarrow> (i, fs\<lparr>px_content := (px_content fs)(i := [])\<rparr>)
      | None \<Rightarrow> (px_next fs, fs\<lparr>px_inode := (px_inode fs)(path := Some (px_next fs)), px_next := Suc (px_next fs),
          px_content := (px_content fs)(px_next fs := []), px_lock := (px_lock fs)(px_next fs := None)\<rparr>))"

text \<open>
  The lock without waiting, and writing the process id at the start of the file: what the file holds beyond
  the new text stays.
\<close>

definition px_trylock :: "nat \<Rightarrow> u32 \<Rightarrow> pid_fs \<Rightarrow> pid_fs option" where
  "px_trylock i pid fs = (if px_lock fs i = None then Some (fs\<lparr>px_lock := (px_lock fs)(i := Some pid)\<rparr>) else None)"

definition px_write :: "nat \<Rightarrow> u32 \<Rightarrow> pid_fs \<Rightarrow> pid_fs" where
  "px_write i pid fs = fs\<lparr>px_content := (px_content fs)(i := dec (unat pid) @ drop (length (dec (unat pid))) (px_content fs i))\<rparr>"

definition px_remove :: "string \<Rightarrow> pid_fs \<Rightarrow> pid_fs" where
  "px_remove path fs = fs\<lparr>px_inode := (px_inode fs)(path := None)\<rparr>"

definition px_unlock :: "nat \<Rightarrow> pid_fs \<Rightarrow> pid_fs" where
  "px_unlock i fs = fs\<lparr>px_lock := (px_lock fs)(i := None)\<rparr>"

text \<open>
  \<open>PidFile::create\<close> and \<open>Drop\<close> of the process \<open>pid\<close> when no other process acts in between. A lock taken before a
  failed write is dropped on return.
\<close>

definition pid_create :: "pid_io \<Rightarrow> string \<Rightarrow> u32 \<Rightarrow> pid_fs \<Rightarrow> (string + pid_file_handle) \<times> pid_fs" where
  "pid_create io path pid fs =
     (case pi_open io of
        Some e \<Rightarrow> (Inl e, fs)
      | None \<Rightarrow>
          (case px_open path fs of (i, fs) \<Rightarrow>
             case pi_clone io of
               Some e \<Rightarrow> (Inl e, fs)
             | None \<Rightarrow>
                 (case px_trylock i pid fs of
                    None \<Rightarrow> (Inl ''another instance is already running (PID file locked)'', fs)
                  | Some fs \<Rightarrow>
                      (case pi_write io of
                         Some e \<Rightarrow> (Inl e, px_unlock i fs)
                       | None \<Rightarrow> (Inr \<lparr>pf_path = path, pf_lock = i\<rparr>, px_write i pid fs)))))"

definition pid_drop :: "pid_file_handle \<Rightarrow> pid_fs \<Rightarrow> pid_fs" where
  "pid_drop f fs = px_unlock (pf_lock f) (px_remove (pf_path f) fs)"

section \<open>Daemons that come and go\<close>

text \<open>Where a process is in \<open>create\<close> and \<open>Drop\<close>, with the inode it has open; a daemon runs at \<open>Running\<close>.\<close>

datatype pid_pc = Opened (pc_inode: nat) | Locked (pc_inode: nat) | Running (pc_inode: nat) | Unlinked (pc_inode: nat)

type_synonym pid_procs = "u32 \<Rightarrow> (string \<times> pid_pc) option"

definition holds_lock :: "pid_pc \<Rightarrow> bool" where
  "holds_lock pc = (case pc of Opened _ \<Rightarrow> False | _ \<Rightarrow> True)"

definition px_close :: "pid_pc \<Rightarrow> pid_fs \<Rightarrow> pid_fs" where
  "px_close pc fs = (if holds_lock pc then px_unlock (pc_inode pc) fs else fs)"

definition empty_fs :: pid_fs where
  "empty_fs = \<lparr>px_inode = (\<lambda>_. None), px_next = 0, px_content = (\<lambda>_. []), px_lock = (\<lambda>_. None)\<rparr>"

text \<open>
  One system call of one process at a time. A process that fails or crashes at any point closes the file,
  which releases its lock. The two flags record what has happened so far: \<open>alone\<close>, that no process opened a
  pidfile that another one had open, and \<open>calm\<close>, that no process removed a pidfile while another one had
  opened it but not yet asked for the lock.
\<close>

inductive pid_reach :: "bool \<Rightarrow> bool \<Rightarrow> pid_fs \<Rightarrow> pid_procs \<Rightarrow> bool" where
  reach_init: "pid_reach True True empty_fs (\<lambda>_. None)"
| reach_open: "pid_reach alone calm fs procs \<Longrightarrow> procs pid = None \<Longrightarrow> px_open (pid_file iface) fs = (i, fs') \<Longrightarrow>
    pid_reach (alone \<and> (\<forall>q path pc. procs q = Some (path, pc) \<longrightarrow> pc_inode pc \<noteq> i)) calm fs'
      (procs(pid \<mapsto> (pid_file iface, Opened i)))"
| reach_lock: "pid_reach alone calm fs procs \<Longrightarrow> procs pid = Some (path, Opened i) \<Longrightarrow> px_trylock i pid fs = Some fs' \<Longrightarrow>
    pid_reach alone calm fs' (procs(pid \<mapsto> (path, Locked i)))"
| reach_refused: "pid_reach alone calm fs procs \<Longrightarrow> procs pid = Some (path, Opened i) \<Longrightarrow> px_trylock i pid fs = None \<Longrightarrow>
    pid_reach alone calm fs (procs(pid := None))"
| reach_write: "pid_reach alone calm fs procs \<Longrightarrow> procs pid = Some (path, Locked i) \<Longrightarrow>
    pid_reach alone calm (px_write i pid fs) (procs(pid \<mapsto> (path, Running i)))"
| reach_unlink: "pid_reach alone calm fs procs \<Longrightarrow> procs pid = Some (path, Running i) \<Longrightarrow>
    pid_reach alone (calm \<and> (\<forall>q j. procs q \<noteq> Some (path, Opened j))) (px_remove path fs) (procs(pid \<mapsto> (path, Unlinked i)))"
| reach_close: "pid_reach alone calm fs procs \<Longrightarrow> procs pid = Some (path, pc) \<Longrightarrow>
    pid_reach alone calm (px_close pc fs) (procs(pid := None))"

text \<open>
  The invariant, in four parts: inodes in use are below the next one and have one name; a process past the
  lock holds it; in a calm run a process that has not removed its file has open what its path leads to; and
  in a run in which no two processes had the same file open, a running daemon finds its process id in it.
\<close>

definition fs_ok :: "pid_fs \<Rightarrow> pid_procs \<Rightarrow> bool" where
  "fs_ok fs procs \<longleftrightarrow> (\<forall>path i. px_inode fs path = Some i \<longrightarrow> i < px_next fs) \<and>
     (\<forall>path path' i. px_inode fs path = Some i \<longrightarrow> px_inode fs path' = Some i \<longrightarrow> path = path') \<and>
     (\<forall>p path pc. procs p = Some (path, pc) \<longrightarrow> pc_inode pc < px_next fs)"

definition locks_ok :: "pid_fs \<Rightarrow> pid_procs \<Rightarrow> bool" where
  "locks_ok fs procs \<longleftrightarrow> (\<forall>p path pc. procs p = Some (path, pc) \<longrightarrow> holds_lock pc \<longrightarrow> px_lock fs (pc_inode pc) = Some p)"

definition links_ok :: "pid_fs \<Rightarrow> pid_procs \<Rightarrow> bool" where
  "links_ok fs procs \<longleftrightarrow> (\<forall>p path pc. procs p = Some (path, pc) \<longrightarrow> \<not> is_Unlinked pc \<longrightarrow> px_inode fs path = Some (pc_inode pc))"

definition contents_ok :: "pid_fs \<Rightarrow> pid_procs \<Rightarrow> bool" where
  "contents_ok fs procs \<longleftrightarrow>
     (\<forall>p q path path' pc pc'. procs p = Some (path, pc) \<longrightarrow> procs q = Some (path', pc') \<longrightarrow> p \<noteq> q \<longrightarrow> pc_inode pc \<noteq> pc_inode pc') \<and>
     (\<forall>p path pc. procs p = Some (path, pc) \<longrightarrow> px_content fs (pc_inode pc) = (if is_Opened pc \<or> is_Locked pc then [] else dec (unat p)))"

definition pid_inv :: "bool \<Rightarrow> bool \<Rightarrow> pid_fs \<Rightarrow> pid_procs \<Rightarrow> bool" where
  "pid_inv alone calm fs procs \<longleftrightarrow> fs_ok fs procs \<and> locks_ok fs procs \<and> (calm \<longrightarrow> links_ok fs procs) \<and>
     (alone \<longrightarrow> calm \<and> contents_ok fs procs)"

lemma pid_inv_proc:
  assumes "pid_inv alone calm fs procs" "procs p = Some (path, pc)"
  shows "pc_inode pc < px_next fs" "holds_lock pc \<Longrightarrow> px_lock fs (pc_inode pc) = Some p"
    "calm \<Longrightarrow> \<not> is_Unlinked pc \<Longrightarrow> px_inode fs path = Some (pc_inode pc)"
    "alone \<Longrightarrow> px_content fs (pc_inode pc) = (if is_Opened pc \<or> is_Locked pc then [] else dec (unat p))"
    "alone \<Longrightarrow> procs q = Some (path', pc') \<Longrightarrow> p \<noteq> q \<Longrightarrow> pc_inode pc \<noteq> pc_inode pc'"
  using assms by (auto simp: pid_inv_def fs_ok_def locks_ok_def links_ok_def contents_ok_def)

lemma pid_open_inv:
  assumes "pid_inv alone calm fs procs" "procs pid = None" "px_open path fs = (i, fs')"
  shows "pid_inv (alone \<and> (\<forall>q path pc. procs q = Some (path, pc) \<longrightarrow> pc_inode pc \<noteq> i)) calm fs' (procs(pid \<mapsto> (path, Opened i)))"
proof (cases "px_inode fs path")
  case None
  then have new: "i = px_next fs" "fs' = fs\<lparr>px_inode := (px_inode fs)(path := Some i), px_next := Suc i,
      px_content := (px_content fs)(i := []), px_lock := (px_lock fs)(i := None)\<rparr>"
    using assms(3) by (auto simp: px_open_def)
  have old: "pc_inode pc < i" if "procs q = Some (path', pc)" for q path' pc
    using assms(1) that by (auto simp: pid_inv_def fs_ok_def new(1))
  have "fs_ok fs' (procs(pid \<mapsto> (path, Opened i)))"
    using assms(1) old by (fastforce simp: pid_inv_def fs_ok_def new(2) new(1) split: if_splits)
  moreover have "locks_ok fs' (procs(pid \<mapsto> (path, Opened i)))"
    using assms(1) old by (fastforce simp: pid_inv_def locks_ok_def new(2) holds_lock_def split: if_splits)
  moreover have "links_ok fs' (procs(pid \<mapsto> (path, Opened i)))" if calm
    using assms(1) that None by (auto simp: pid_inv_def links_ok_def new(2))
  moreover have "contents_ok fs' (procs(pid \<mapsto> (path, Opened i)))" if alone
    using assms(1) that old by (fastforce simp: pid_inv_def contents_ok_def new(2) split: if_splits)
  ultimately show ?thesis using assms(1) by (simp add: pid_inv_def)
next
  case (Some j)
  then have same: "i = j" "fs' = fs\<lparr>px_content := (px_content fs)(i := [])\<rparr>" using assms(3) by (auto simp: px_open_def)
  have "fs_ok fs' (procs(pid \<mapsto> (path, Opened i)))" "locks_ok fs' (procs(pid \<mapsto> (path, Opened i)))"
    using assms(1) Some by (auto simp: pid_inv_def fs_ok_def locks_ok_def holds_lock_def same)
  moreover have "links_ok fs' (procs(pid \<mapsto> (path, Opened i)))" if calm
    using assms(1) that Some by (auto simp: pid_inv_def links_ok_def same)
  moreover have "contents_ok fs' (procs(pid \<mapsto> (path, Opened i)))"
    if alone "\<forall>q path pc. procs q = Some (path, pc) \<longrightarrow> pc_inode pc \<noteq> i"
    using assms(1) that by (fastforce simp: pid_inv_def contents_ok_def same(2) split: if_splits)
  ultimately show ?thesis using assms(1) by (auto simp: pid_inv_def)
qed

lemma pid_lock_inv:
  assumes "pid_inv alone calm fs procs" "procs pid = Some (path, Opened i)" "px_trylock i pid fs = Some fs'"
  shows "pid_inv alone calm fs' (procs(pid \<mapsto> (path, Locked i)))"
proof -
  have fs': "px_lock fs i = None" "fs' = fs\<lparr>px_lock := (px_lock fs)(i := Some pid)\<rparr>"
    using assms(3) by (auto simp: px_trylock_def split: if_splits)
  note mine = pid_inv_proc [OF assms(1,2)]
  have "locks_ok fs' (procs(pid \<mapsto> (path, Locked i)))"
    using assms(1) fs' by (auto simp: pid_inv_def locks_ok_def)
  moreover have "fs_ok fs' (procs(pid \<mapsto> (path, Locked i)))" using assms(1) mine(1) by (auto simp: pid_inv_def fs_ok_def fs'(2))
  moreover have "links_ok fs' (procs(pid \<mapsto> (path, Locked i)))" if calm
    using assms(1) mine(3) that by (auto simp: pid_inv_def links_ok_def fs'(2))
  moreover have "contents_ok fs' (procs(pid \<mapsto> (path, Locked i)))" if alone
    using assms(1) mine(4,5) that by (auto simp: pid_inv_def contents_ok_def fs'(2))
  ultimately show ?thesis using assms(1) by (auto simp: pid_inv_def)
qed

lemma pid_write_inv:
  assumes "pid_inv alone calm fs procs" "procs pid = Some (path, Locked i)"
  shows "pid_inv alone calm (px_write i pid fs) (procs(pid \<mapsto> (path, Running i)))"
proof -
  let ?fs = "px_write i pid fs" and ?procs = "procs(pid \<mapsto> (path, Running i))"
  note mine = pid_inv_proc [OF assms]
  have "fs_ok ?fs ?procs" "locks_ok ?fs ?procs"
    using assms(1) mine(1,2) by (auto simp: pid_inv_def fs_ok_def locks_ok_def px_write_def holds_lock_def)
  moreover have "links_ok ?fs ?procs" if calm using assms(1) mine(3) that by (auto simp: pid_inv_def links_ok_def px_write_def)
  moreover have "contents_ok ?fs ?procs" if alone
    using assms(1) mine(4,5) that by (auto simp: pid_inv_def contents_ok_def px_write_def)
  ultimately show ?thesis using assms(1) by (auto simp: pid_inv_def)
qed

lemma pid_unlink_inv:
  assumes "pid_inv alone calm fs procs" "procs pid = Some (path, Running i)"
  shows "pid_inv alone (calm \<and> (\<forall>q j. procs q \<noteq> Some (path, Opened j))) (px_remove path fs) (procs(pid \<mapsto> (path, Unlinked i)))"
proof -
  let ?fs = "px_remove path fs" and ?procs = "procs(pid \<mapsto> (path, Unlinked i))"
  note mine = pid_inv_proc [OF assms]
  have sole: "path' \<noteq> path"
    if q: "procs q = Some (path', pc)" "q \<noteq> pid" "\<not> is_Unlinked pc" calm "\<forall>q j. procs q \<noteq> Some (path, Opened j)" for q path' pc
  proof
    assume "path' = path"
    then have "holds_lock pc" using q(1,3,5) by (cases pc) (auto simp: holds_lock_def)
    moreover have "pc_inode pc = i" using pid_inv_proc(3) [OF assms(1) q(1,4,3)] mine(3) q(4) \<open>path' = path\<close> by simp
    ultimately show False using pid_inv_proc(2) [OF assms(1) q(1)] mine(2) q(2) by (simp add: holds_lock_def)
  qed
  have "fs_ok ?fs ?procs" "locks_ok ?fs ?procs"
    using assms(1) mine(1,2) by (auto simp: pid_inv_def fs_ok_def locks_ok_def px_remove_def holds_lock_def split: if_splits)
  moreover have "links_ok ?fs ?procs" if calm "\<forall>q j. procs q \<noteq> Some (path, Opened j)"
    using pid_inv_proc(3) [OF assms(1)] that sole by (auto simp: links_ok_def px_remove_def)
  moreover have "contents_ok ?fs ?procs" if alone
    using assms(1) mine(4,5) that by (auto simp: pid_inv_def contents_ok_def px_remove_def)
  moreover have "procs q \<noteq> Some (path, Opened j)" if alone for q j
  proof
    assume q: "procs q = Some (path, Opened j)"
    have calm using assms(1) that by (simp add: pid_inv_def)
    then have "i = j" using mine(3) pid_inv_proc(3) [OF assms(1) q] by simp
    moreover have "pid \<noteq> q" using assms(2) q by auto
    ultimately show False using mine(5) [OF that q] by simp
  qed
  ultimately show ?thesis using assms(1) by (auto simp: pid_inv_def)
qed

lemma pid_close_inv:
  assumes "pid_inv alone calm fs procs" "procs pid = Some (path, pc)"
  shows "pid_inv alone calm (px_close pc fs) (procs(pid := None))"
proof -
  have "locks_ok (px_close pc fs) (procs(pid := None))"
    using assms(1) pid_inv_proc(2) [OF assms] by (fastforce simp: pid_inv_def locks_ok_def px_close_def px_unlock_def)
  then show ?thesis
    using assms by (auto simp: pid_inv_def fs_ok_def links_ok_def contents_ok_def px_close_def px_unlock_def)
qed

lemma pid_reach_inv: "pid_reach alone calm fs procs \<Longrightarrow> pid_inv alone calm fs procs"
proof (induction rule: pid_reach.induct)
  case reach_init
  show ?case by (simp add: pid_inv_def fs_ok_def locks_ok_def links_ok_def contents_ok_def empty_fs_def)
next
  case (reach_refused alone calm fs procs pid path i)
  then show ?case using pid_close_inv [of alone calm fs procs pid path "Opened i"] by (auto simp: px_close_def holds_lock_def fun_upd_def)
qed (rule pid_open_inv pid_lock_inv pid_write_inv pid_unlink_inv pid_close_inv; assumption)+

text \<open>A process that is not disturbed gets from the open file to the running daemon, and from the start to there.\<close>

lemma reach_locked:
  assumes "pid_reach alone calm fs procs" "procs p = Some (path, Opened i)" "px_lock fs i = None"
  shows "pid_reach alone calm (px_write i p (fs\<lparr>px_lock := (px_lock fs)(i := Some p)\<rparr>)) (procs(p \<mapsto> (path, Running i)))"
proof -
  have "px_trylock i p fs = Some (fs\<lparr>px_lock := (px_lock fs)(i := Some p)\<rparr>)" using assms(3) by (simp add: px_trylock_def)
  from reach_write [OF reach_lock [OF assms(1,2) this], of p path i] show ?thesis by simp
qed

lemma reach_started:
  assumes "pid_reach alone calm fs procs" "procs p = None" "px_open (pid_file iface) fs = (i, fs')" "px_lock fs' i = None"
  shows "pid_reach (alone \<and> (\<forall>q path pc. procs q = Some (path, pc) \<longrightarrow> pc_inode pc \<noteq> i)) calm
    (px_write i p (fs'\<lparr>px_lock := (px_lock fs')(i := Some p)\<rparr>)) (procs(p \<mapsto> (pid_file iface, Running i)))"
  using reach_locked [OF reach_open [OF assms(1-3)], of p "pid_file iface" i] assms(4) by simp

text \<open>Opening a file that another process has open, and removing one that another process has just opened.\<close>

lemma reach_open_busy:
  assumes "pid_reach alone calm fs procs" "procs p = None" "px_open (pid_file iface) fs = (i, fs')"
    and "procs q = Some (path, pc)" "pc_inode pc = i"
  shows "pid_reach False calm fs' (procs(p \<mapsto> (pid_file iface, Opened i)))"
proof -
  have "(alone \<and> (\<forall>q path pc. procs q = Some (path, pc) \<longrightarrow> pc_inode pc \<noteq> i)) = False" using assms(4,5) by blast
  from reach_open [OF assms(1-3), unfolded this] show ?thesis .
qed

lemma reach_unlink_raced:
  assumes "pid_reach alone calm fs procs" "procs p = Some (path, Running i)" "procs q = Some (path, Opened j)"
  shows "pid_reach alone False (px_remove path fs) (procs(p \<mapsto> (path, Unlinked i)))"
proof -
  have "(calm \<and> (\<forall>q j. procs q \<noteq> Some (path, Opened j))) = False" using assms(3) by blast
  from reach_unlink [OF assms(1,2), unfolded this] show ?thesis .
qed

section \<open>What the control tool sees\<close>

text \<open>The directory listing of a host shows the names of a file system with what they contain.\<close>

definition shows_fs :: "host \<Rightarrow> pid_fs \<Rightarrow> bool" where
  "shows_fs h fs \<longleftrightarrow> (\<exists>es. ho_pid_dir h = Some es \<and>
     (\<forall>name c. (name, c) \<in> set es \<longleftrightarrow> CHR ''/'' \<notin> set name \<and>
        (\<exists>i. px_inode fs (PID_DIR @ ''/'' @ name) = Some i \<and> c = Some (px_content fs i))))"

text \<open>A name the kernel allows for an interface, as UTF-8.\<close>

definition iface_name :: "string \<Rightarrow> bool" where
  "iface_name iface \<longleftrightarrow> iface \<noteq> [] \<and> CHR ''/'' \<notin> set iface \<and> from_utf8 (pid_file_name iface) = Some (pid_file_name iface)"

lemma iface_from_pid_file_name:
  "iface_from_pidfile name = Some iface \<longleftrightarrow> iface \<noteq> [] \<and> name = pid_file_name iface"
  by (auto simp: iface_from_pidfile_def affixed_def pid_file_name_def PIDFILE_PREFIX_def PIDFILE_SUFFIX_def PROC_NAME_def
      strip_prefix_def strip_suffix_def suffix_def prefix_def bind_eq_Some_conv split: if_splits)

lemma map_of_unique:
  assumes "\<And>v'. (k, v') \<in> set xs \<longleftrightarrow> v' = v"
  shows "map_of xs k = Some v"
proof (cases "map_of xs k")
  case None
  then have "k \<notin> fst ` set xs" by (simp add: map_of_eq_None_iff)
  moreover have "(k, v) \<in> set xs" using assms by simp
  ultimately show ?thesis by force
next
  case (Some v')
  then show ?thesis using assms map_of_SomeD [OF Some] by simp
qed

lemma map_filter_mem: "y \<in> set (List.map_filter f xs) \<longleftrightarrow> (\<exists>x \<in> set xs. f x = Some y)"
  by (force simp: List.map_filter_def image_iff)

lemma pidfile_of_shown:
  assumes "shows_fs h fs" "iface_name iface" "px_inode fs (pid_file iface) = Some i"
  shows "pidfile_of h iface = Some (pid_file iface, parse_u32 (trim (px_content fs i)))"
proof -
  obtain es where es: "ho_pid_dir h = Some es" and listed: "\<And>name c. (name, c) \<in> set es \<longleftrightarrow> CHR ''/'' \<notin> set name \<and>
      (\<exists>i. px_inode fs (PID_DIR @ ''/'' @ name) = Some i \<and> c = Some (px_content fs i))"
    using assms(1) unfolding shows_fs_def by blast
  have path: "path_join PID_DIR (pid_file_name iface) = pid_file iface"
    by (simp add: pid_file_def pid_file_name_def path_join_def is_relative_def PID_DIR_def PROC_NAME_def)
  have "CHR ''/'' \<notin> set (pid_file_name iface)"
    using assms(2) by (simp add: iface_name_def pid_file_name_def PROC_NAME_def)
  then have mem: "(pid_file_name iface, c) \<in> set es \<longleftrightarrow> c = Some (px_content fs i)" for c
    using listed [of "pid_file_name iface" c] assms(3) by (auto simp: pid_file_def)
  have "(iface, v) \<in> set (pid_entries es) \<longleftrightarrow> v = (pid_file iface, parse_u32 (trim (px_content fs i)))" for v
  proof
    assume "(iface, v) \<in> set (pid_entries es)"
    then obtain name c where n: "(name, c) \<in> set es" "Option.bind (from_utf8 name) iface_from_pidfile = Some iface"
        "v = (path_join PID_DIR name, Option.bind c (\<lambda>s. parse_u32 (trim s)))"
      by (auto simp: pid_entries_def map_filter_mem)
    then have "name = pid_file_name iface"
      by (auto simp: bind_eq_Some_conv from_utf8_def iface_from_pid_file_name split: if_splits)
    with n mem path show "v = (pid_file iface, parse_u32 (trim (px_content fs i)))" by simp
  next
    assume "v = (pid_file iface, parse_u32 (trim (px_content fs i)))"
    moreover have "Option.bind (from_utf8 (pid_file_name iface)) iface_from_pidfile = Some iface"
      using assms(2) by (simp add: iface_name_def iface_from_pid_file_name)
    ultimately show "(iface, v) \<in> set (pid_entries es)" unfolding pid_entries_def map_filter_mem
      using mem path by (intro bexI [of _ "(pid_file_name iface, Some (px_content fs i))"]) auto
  qed
  then show ?thesis unfolding pidfile_of_def es option.case by (intro map_of_unique) simp
qed

lemma parse_u32_dec [simp]: "parse_u32 (dec (unat (n :: u32))) = Some n"
  by (simp add: parse_u32_def from_str_radix_dec unsigned_less [where 'b = 32, simplified])

lemma parse_u32_empty [simp]: "parse_u32 (trim []) = None"
proof -
  have "strip_one ws [] = None" for ws by (auto simp: strip_one_def find_None_iff)
  then have "trim [] = []" by (simp add: trim_def strip_all.simps)
  then show ?thesis by (simp add: parse_u32_def from_str_radix_def)
qed

section \<open>Properties\<close>

text \<open>
  C26. One daemon per interface. Whatever system calls of starting, stopping and crashing daemons interleave, two
  daemons never run with a lock on the same file. As long as no process removes a pidfile that another one
  has opened and not yet locked, two daemons never run with the pidfile of the same interface. As long as
  no process opens a pidfile that another one has open, the control tool resolves an interface to the daemon
  that runs with its pidfile, provided that no other running daemon names the interface on its command line.
\<close>

theorem pidfile_exclusion:
  assumes "pid_reach alone calm fs procs" "procs pid = Some (pid_file iface, Running i)"
  shows "(procs q = Some (path, Running i) \<longrightarrow> q = pid) \<and>
    (calm \<longrightarrow> procs q = Some (pid_file iface, Running j) \<longrightarrow> q = pid) \<and>
    (alone \<longrightarrow> shows_fs h fs \<longrightarrow> iface_name iface \<longrightarrow> parse_target s = Inr (Interface iface) \<longrightarrow>
      live_pid h iface \<in> {None, Some pid} \<longrightarrow>
      resolve h (Some s) = Some (Inr \<lparr>re_interface = iface, re_pid = pid, re_status_socket = socket_of h iface\<rparr>))"
proof (intro conjI impI)
  have inv: "pid_inv alone calm fs procs" by (rule pid_reach_inv [OF assms(1)])
  have lock: "px_lock fs k = Some p" if "procs p = Some (path, Running k)" for p path k
    using pid_inv_proc(2) [OF inv that] by (simp add: holds_lock_def)
  show "q = pid" if "procs q = Some (path, Running i)" using lock [OF that] lock [OF assms(2)] by simp
  have link: "px_inode fs path = Some k" if "procs p = Some (path, Running k)" calm for p path k
    using pid_inv_proc(3) [OF inv that(1)] that(2) by simp
  show "q = pid" if calm "procs q = Some (pid_file iface, Running j)"
    using link [OF that(2,1)] link [OF assms(2) that(1)] lock [OF that(2)] lock [OF assms(2)] by simp
  assume alone and h: "shows_fs h fs" "iface_name iface" and s: "parse_target s = Inr (Interface iface)"
    and live: "live_pid h iface \<in> {None, Some pid}"
  then have calm "px_content fs i = dec (unat pid)" using inv pid_inv_proc(4) [OF inv assms(2)] by (simp_all add: pid_inv_def)
  then have "pidfile_pid h iface = Some pid"
    using pidfile_of_shown [OF h link [OF assms(2)]] by (simp add: pidfile_pid_def)
  with live have "addressed_pid h iface = Some pid" by (auto simp: addressed_pid_def)
  then show "resolve h (Some s) = Some (Inr \<lparr>re_interface = iface, re_pid = pid, re_status_socket = socket_of h iface\<rparr>)"
    by (simp add: resolve_interface [OF s])
qed

text \<open>
  The condition on removals is needed: \<open>b\<close> opens the pidfile of \<open>a\<close>, \<open>a\<close> stops, \<open>b\<close> locks the file that no longer
  has a name, and \<open>c\<close> creates and locks a new one.
\<close>

lemma pidfile_race:
  assumes "distinct [a, b, c]"
  shows "\<exists>fs procs. pid_reach False False fs procs \<and>
    procs b = Some (pid_file iface, Running 0) \<and> procs c = Some (pid_file iface, Running 1)"
proof -
  let ?f = "pid_file iface"
  obtain fs1 where a: "pid_reach True True fs1 [a \<mapsto> (?f, Running 0)]" and fs1: "px_inode fs1 ?f = Some 0" "px_next fs1 = 1"
    using reach_started [OF reach_init, where p = a and iface = iface and i = 0] by (simp add: px_open_def empty_fs_def px_write_def)
  define fs2 where "fs2 = fs1\<lparr>px_content := (px_content fs1)(0 := [])\<rparr>"
  have "px_open ?f fs1 = (0, fs2)" using fs1 by (simp add: px_open_def fs2_def)
  from reach_open_busy [OF a _ this, where p = b and q = a and path = ?f and pc = "Running 0"]
  have "pid_reach False True fs2 [a \<mapsto> (?f, Running 0), b \<mapsto> (?f, Opened 0)]" using assms by force
  from reach_unlink_raced [OF this, where p = a and q = b and path = ?f]
  have "pid_reach False False (px_remove ?f fs2) [a \<mapsto> (?f, Running 0), b \<mapsto> (?f, Opened 0), a \<mapsto> (?f, Unlinked 0)]"
    using assms by simp
  from reach_close [OF this, of a ?f "Unlinked 0"]
  have "pid_reach False False (px_unlock 0 (px_remove ?f fs2)) ([a \<mapsto> (?f, Running 0), b \<mapsto> (?f, Opened 0)](a := None))"
    by (simp add: px_close_def holds_lock_def)
  from reach_locked [OF this, of b ?f 0] obtain fs3 procs where b: "pid_reach False False fs3 procs" "procs b = Some (?f, Running 0)"
      "procs c = None" "px_inode fs3 ?f = None" "px_next fs3 = 1"
    using assms fs1 by (fastforce simp: px_unlock_def px_remove_def px_write_def fs2_def)
  from reach_started [OF b(1,3), where iface = iface and i = 1] b(2,4,5) assms show ?thesis by (fastforce simp: px_open_def)
qed

text \<open>
  C14. What a refused start does. Let a daemon run on an interface that no running daemon names on its command line.
  A second start on the interface, whose opening of the pidfile succeeds, is refused, but it has erased the
  process id in the pidfile. The control tool then takes the file of the running daemon for stale and removes
  it, and a third start succeeds next to the first daemon.
\<close>

theorem refused_start_orphans:
  assumes "px_inode fs (pid_file iface) = Some i" "px_lock fs i = Some q" "iface_name iface"
    and "pi_open io = None" "pi_clone io = None" "pi_write io = None"
    and "pid_create io (pid_file iface) p fs = (r, fs')" "shows_fs h fs'"
    and "distinct (map ph_pid (scan_proc_for_pesigitgd h))" "\<forall>hit \<in> set (scan_proc_for_pesigitgd h). ph_interface hit \<noteq> Some iface"
  shows "r = Inl ''another instance is already running (PID file locked)'' \<and>
    pid_file iface \<in> set (fst (cmd_cleanup remove h [])) \<and>
    (\<exists>f. fst (pid_create io (pid_file iface) p' (px_remove (pid_file iface) fs')) = Inr f)"
proof (intro conjI)
  have r: "r = Inl ''another instance is already running (PID file locked)''" "px_inode fs' (pid_file iface) = Some i" "px_content fs' i = []"
    using assms(1,2,4-7) by (auto simp: pid_create_def px_open_def px_trylock_def)
  show "r = Inl ''another instance is already running (PID file locked)''" by (rule r)
  have "pidfile_of h iface = Some (pid_file iface, None)"
    using pidfile_of_shown [OF assms(8,3) r(2)] r(3) by simp
  moreover from this have "\<forall>k. pidfile_pid h k \<noteq> None \<longrightarrow> pidfile_pid h k = pidfile_pid h iface \<longrightarrow> k = iface"
    by (auto simp: pidfile_pid_def)
  ultimately show "pid_file iface \<in> set (fst (cmd_cleanup remove h []))"
    using cleanup_pidfiles [OF assms(9), of iface "pid_file iface" None remove] assms(10) by simp
  show "\<exists>f. fst (pid_create io (pid_file iface) p' (px_remove (pid_file iface) fs')) = Inr f"
    using assms(4-6) by (simp add: pid_create_def px_open_def px_remove_def px_trylock_def)
qed

section \<open>Witnesses\<close>

text \<open>The daemon 7 runs on the default interface, which its command line does not name.\<close>

definition no_errors :: pid_io where
  "no_errors = \<lparr>pi_open = None, pi_clone = None, pi_write = None\<rparr>"

definition one_daemon :: "string \<Rightarrow> pid_fs" where
  "one_daemon content = \<lparr>px_inode = [pid_file ''eth0'' \<mapsto> 0], px_next = 1, px_content = (\<lambda>_. [])(0 := content), px_lock = [0 \<mapsto> 7]\<rparr>"

definition one_host :: "string \<Rightarrow> host" where
  "one_host content = \<lparr>ho_pid_dir = Some [(''pesigitgd-eth0.pid'', Some content)], ho_run_dir = None, ho_proc = Some [''7''],
     ho_comm = (\<lambda>_. Some ''pesigitgd''), ho_cmdline = (\<lambda>_. Some ''pesigitgd'')\<rparr>"

lemma one_daemon_starts:
  "pid_create no_errors (pid_file ''eth0'') 7 empty_fs = (Inr \<lparr>pf_path = pid_file ''eth0'', pf_lock = 0\<rparr>, one_daemon ''7'')"
  by (auto simp: pid_create_def px_open_def px_trylock_def px_write_def no_errors_def empty_fs_def one_daemon_def dec.simps char_of_eq_iff)

lemma one_daemon_reached: "pid_reach True True (one_daemon ''7'') [7 \<mapsto> (pid_file ''eth0'', Running 0)]"
proof -
  have "px_write 0 7 (empty_fs\<lparr>px_inode := [pid_file ''eth0'' \<mapsto> 0], px_next := 1, px_lock := [0 \<mapsto> 7]\<rparr>) = one_daemon ''7''"
    by (auto simp: px_write_def empty_fs_def one_daemon_def dec.simps char_of_eq_iff)
  then show ?thesis
    using reach_started [OF reach_init, where p = 7 and iface = "''eth0''" and i = 0] by (simp add: px_open_def empty_fs_def fun_upd_idem)
qed

lemma one_daemon_refuses:
  "pid_create no_errors (pid_file ''eth0'') 8 (one_daemon ''7'') =
    (Inl ''another instance is already running (PID file locked)'', one_daemon [])"
  by (simp add: pid_create_def px_open_def px_trylock_def no_errors_def one_daemon_def)

lemma one_host_shows: "shows_fs (one_host content) (one_daemon content)"
proof -
  have "pid_file ''eth0'' = PID_DIR @ ''/'' @ ''pesigitgd-eth0.pid''" by (simp add: pid_file_def pid_file_name_def PROC_NAME_def)
  then show ?thesis by (auto simp: shows_fs_def one_host_def one_daemon_def)
qed

lemma eth0_name: "iface_name ''eth0''"
proof -
  have "from_utf8 ''pesigitgd-eth0.pid'' = Some ''pesigitgd-eth0.pid''" by code_simp
  then show ?thesis by (simp add: iface_name_def pid_file_name_def PROC_NAME_def)
qed

lemma one_host_scan: "scan_proc_for_pesigitgd (one_host content) = [\<lparr>ph_pid = 7, ph_interface = None, ph_cmdline = [''pesigitgd'']\<rparr>]"
proof -
  have "from_utf8 ''7'' = Some ''7''" "cmdline_args ''pesigitgd'' = [''pesigitgd'']" "scan_args [''pesigitgd''] = None" by code_simp+
  moreover have "parse_u32 ''7'' = Some 7" by (simp add: parse_u32_def from_str_radix_def to_digit_def of_char_def)
  ultimately show ?thesis
    by (simp add: scan_proc_for_pesigitgd_def List.map_filter_def proc_entry_def is_pesigitgd_proc_def one_host_def
        iface_from_cmdline_def sample_trims del: scan_args.simps)
qed

theorem pidfile_exclusion_witness:
  "resolve (one_host ''7'') (Some ''eth0'') = Some (Inr \<lparr>re_interface = ''eth0'', re_pid = 7, re_status_socket = None\<rparr>)"
proof -
  have "live_pid (one_host ''7'') ''eth0'' = None" "socket_of (one_host ''7'') ''eth0'' = None"
    by (simp add: live_pid_def one_host_scan named_hits_def List.map_filter_def)
      (simp add: socket_of_def socket_entries_def one_host_def)
  moreover have "parse_target ''eth0'' = Inr (Interface ''eth0'')" by (simp add: parse_target_def sample_trims sample_numbers)
  ultimately show ?thesis
    using pidfile_exclusion [OF one_daemon_reached, of 7 "''eth0''" 0 7 "[]" 0 "one_host ''7''" "''eth0''"]
    by (simp add: one_host_shows eth0_name)
qed

theorem refused_start_orphans_witness:
  "pid_file ''eth0'' \<in> set (fst (cmd_cleanup (\<lambda>_. None) (one_host []) [])) \<and>
   (\<exists>f. fst (pid_create no_errors (pid_file ''eth0'') 9 (px_remove (pid_file ''eth0'') (one_daemon []))) = Inr f)"
  using refused_start_orphans [of "one_daemon ''7''" "''eth0''" 0 7 no_errors 8 _ _ "one_host []" "\<lambda>_. None" 9, OF _ _ eth0_name _ _ _ one_daemon_refuses one_host_shows]
  by (simp add: one_host_scan one_daemon_def no_errors_def)

end
