(* ===== verification/Control_Cmd.thy ===== *)
theory Control_Cmd
  imports Control_Cid Pid_File "HOL-Library.Multiset"
begin

text \<open>
  The command line of the control tool: its flags, the table of commands with abbreviations, the request to
  a daemon, and the commands that print what a daemon or a route file says. What a command may reach is one
  record: the host, the JSON library, the socket, and the files. A command returns what it prints and its
  result.
\<close>

section \<open>Flags\<close>

text \<open>\<open>extract_flag\<close>: the value of the last occurrence and the arguments that are left.\<close>

fun extract_flag_loop :: "string \<Rightarrow> string \<Rightarrow> string option \<Rightarrow> string list \<Rightarrow> string list \<Rightarrow> target_error + string option \<times> string list" where
  "extract_flag_loop short long value rest [] = Inr (value, rest)"
| "extract_flag_loop short long value rest (a # args) =
     (if a = short \<or> a = long then
        (case args of
           v # args' \<Rightarrow> extract_flag_loop short long (Some v) rest args'
         | [] \<Rightarrow> Inl (ExtraArgs (a @ '' requires a value'')))
      else case strip_prefix (long @ ''='') a of
        Some v \<Rightarrow> extract_flag_loop short long (Some v) rest args
      | None \<Rightarrow> extract_flag_loop short long value (rest @ [a]) args)"

definition extract_flag :: "string list \<Rightarrow> string \<Rightarrow> string \<Rightarrow> target_error + string option \<times> string list" where
  "extract_flag args short long = extract_flag_loop short long None [] args"

section \<open>Asking a daemon\<close>

text \<open>
  \<open>ce_fetch\<close> connects to a socket, writes the request and reads the answer to its end; \<open>ce_read\<close> reads a
  file; \<open>ce_error\<close> is the text of an error of a route file. The text of a \<open>BadResponse\<close> leaves out the
  quoted answer.
\<close>

record 'v ctl_env =
  ce_host :: host
  ce_json :: "'v json_lib"
  ce_fetch :: "string \<Rightarrow> string \<Rightarrow> string + string"
  ce_read :: "string \<Rightarrow> string + string"
  ce_aes_new :: "bytes \<Rightarrow> aes128"
  ce_toml :: "string \<Rightarrow> string + raw_config list"
  ce_error :: "route_config_error \<Rightarrow> string"

definition request_text :: "string \<Rightarrow> string" where
  "request_text path = ''GET '' @ path @ [newline]"

definition query_endpoint :: "'v ctl_env \<Rightarrow> string option \<Rightarrow> string \<Rightarrow> (target_error + resolved_target \<times> 'v) run" where
  "query_endpoint env target path = do {
     r \<leftarrow> resolve (ce_host env) target;
     ret (case r of
       Inl e \<Rightarrow> Inl e
     | Inr resolved \<Rightarrow>
         (case re_status_socket resolved of
            None \<Rightarrow> Inl (NoStatusSocket (re_interface resolved))
          | Some socket \<Rightarrow>
              (case ce_fetch env socket (request_text path) of
                 Inl e \<Rightarrow> Inl (Io e)
               | Inr buf \<Rightarrow>
                   (case js_parse (ce_json env) (trim buf) of
                      Inl e \<Rightarrow> Inl (BadResponse e)
                    | Inr val \<Rightarrow>
                        (case get_str (ce_json env) val ''error'' of
                           Some msg \<Rightarrow> Inl (RemoteError msg)
                         | None \<Rightarrow> Inr (resolved, val))))))
   }"

definition parse_routes_file :: "'v ctl_env \<Rightarrow> string \<Rightarrow> (route_config_error + route_config list) run" where
  "parse_routes_file env path =
     (case ce_read env path of
        Inl e \<Rightarrow> ret (Inl (route_config_error.Io e))
      | Inr text \<Rightarrow> parse_routes (ce_aes_new env) (ce_toml env) text)"

text \<open>What a command prints: lines, a JSON value, or the document of \<open>backend-config\<close>.\<close>

datatype match_source = FromFile string | FromDaemon string u32

datatype 'v printed = Lines "string list" | Pretty 'v | Document match_source "backend_match list"

type_synonym 'v cmd_result = "(target_error + 'v printed) run"

text \<open>The summary line of \<open>status\<close>.\<close>

definition print_health_summary :: "'v json_lib \<Rightarrow> resolved_target \<Rightarrow> 'v \<Rightarrow> string" where
  "print_health_summary J target v =
     (let parts = [unwrap_or ''?'' (get_str J v ''status'')] @
            (case get_u64 J v ''uptime_secs'' of Some u \<Rightarrow> [''uptime '' @ format_duration (unat u)] | None \<Rightarrow> []) @
            (case (get_u64 J v ''workers_alive'', get_u64 J v ''workers_expected'') of
               (Some a, Some e) \<Rightarrow> [''workers '' @ dec (unat a) @ ''/'' @ dec (unat e)] | _ \<Rightarrow> [])
      in re_interface target @ '' (pid '' @ dec (unat (re_pid target)) @ ''): '' @ join '', '' parts)"

definition query_cmd :: "'v ctl_env \<Rightarrow> string \<Rightarrow> (resolved_target \<Rightarrow> 'v \<Rightarrow> 'v printed) \<Rightarrow> string list \<Rightarrow> 'v cmd_result" where
  "query_cmd env path show_reply args =
     (case expect_optional_target args of
        Inl e \<Rightarrow> ret (Inl e)
      | Inr target \<Rightarrow> do {
          r \<leftarrow> query_endpoint env target path;
          ret (map_sum id (\<lambda>(resolved, v). show_reply resolved v) r)
        })"

definition cmd_status :: "'v ctl_env \<Rightarrow> string list \<Rightarrow> 'v cmd_result" where
  "cmd_status env = query_cmd env ''/health'' (\<lambda>target v. Lines [print_health_summary (ce_json env) target v])"

definition cmd_health :: "'v ctl_env \<Rightarrow> string list \<Rightarrow> 'v cmd_result" where
  "cmd_health env = query_cmd env ''/health'' (\<lambda>_. Pretty)"

definition cmd_stats :: "'v ctl_env \<Rightarrow> string list \<Rightarrow> 'v cmd_result" where
  "cmd_stats env = query_cmd env ''/stats'' (\<lambda>_. Pretty)"

definition cmd_config :: "'v ctl_env \<Rightarrow> string list \<Rightarrow> 'v cmd_result" where
  "cmd_config env = query_cmd env ''/config'' (\<lambda>_. Pretty)"

definition cmd_info :: "'v ctl_env \<Rightarrow> string list \<Rightarrow> 'v cmd_result" where
  "cmd_info env = query_cmd env ''/version'' (\<lambda>_. Pretty)"

text \<open>\<open>args.get(1)\<close>\<close>

definition second :: "'a list \<Rightarrow> 'a option" where
  "second xs = (case xs of _ # x # _ \<Rightarrow> Some x | _ \<Rightarrow> None)"

definition cmd_endpoint :: "'v ctl_env \<Rightarrow> string list \<Rightarrow> 'v cmd_result" where
  "cmd_endpoint env args =
     (case args of
        [] \<Rightarrow> ret (Inl (ExtraArgs ''endpoint requires a path argument (e.g. /stats)''))
      | path # _ \<Rightarrow>
          if length args > 2 then ret (Inl (ExtraArgs (''expected '' @ [CHR 0x27] @ ''<path> [target]'' @ [CHR 0x27] @ '', got: '' @ join '' '' args)))
          else if \<not> prefix ''/'' path then
            ret (Inl (ExtraArgs (''endpoint path must start with '' @ [CHR 0x27] @ ''/'' @ [CHR 0x27] @ '', got '' @ [CHR 0x27] @ path @ [CHR 0x27])))
          else do {
            r \<leftarrow> query_endpoint env (second args) path;
            ret (map_sum id (\<lambda>(_, v). Pretty v) r)
          })"

text \<open>\<open>route.configs\<close> of an answer to \<open>/config\<close>.\<close>

definition reply_configs :: "'v json_lib \<Rightarrow> 'v \<Rightarrow> target_error + 'v list" where
  "reply_configs J v =
     ok_or (BadResponse ''/config response missing route.configs'')
       (Option.bind (js_get J v ''route'') (\<lambda>r. get_array J r ''configs''))"

definition file_and_target :: target_error where
  "file_and_target = ExtraArgs ''--route-config skips the daemon, so a target argument cannot be combined with it''"

definition route_file_error :: "'v ctl_env \<Rightarrow> string \<Rightarrow> route_config_error \<Rightarrow> target_error" where
  "route_file_error env path e =
     ExtraArgs (''--route-config '' @ [CHR 0x27] @ path @ [CHR 0x27] @ '': '' @ ce_error env e)"

definition cmd_whoami :: "'v ctl_env \<Rightarrow> string list \<Rightarrow> 'v cmd_result" where
  "cmd_whoami env args =
     (case extract_flag args ''-r'' ''--route-config'' of
        Inl e \<Rightarrow> ret (Inl e)
      | Inr (route_config_path, args) \<Rightarrow>
          (case args of
             [] \<Rightarrow> ret (Inl (ExtraArgs (''whoami requires a CID hex string (e.g. '' @ [CHR 0x27] @ ''00010203...'' @ [CHR 0x27] @ '')'')))
           | cid_hex # _ \<Rightarrow>
               if length args > 2 then
                 ret (Inl (ExtraArgs (''expected '' @ [CHR 0x27] @ ''<cid-hex> [target]'' @ [CHR 0x27] @ '', got: '' @ join '' '' args)))
               else try_bind (parse_cid_hex cid_hex) (\<lambda>cid.
                 case route_config_path of
                   Some path \<Rightarrow>
                     if length args > 1 then ret (Inl file_and_target)
                     else do {
                       r \<leftarrow> parse_routes_file env path;
                       case r of
                         Inl e \<Rightarrow> ret (Inl (route_file_error env path e))
                       | Inr cfgs \<Rightarrow> do {
                           ls \<leftarrow> analyze_whoami_offline cid cfgs;
                           ret (Inr (Lines ((''source:    '' @ path) # ls)))
                         }
                     }
                 | None \<Rightarrow>
                     try_bind (query_endpoint env (second args) ''/config'') (\<lambda>(resolved, v).
                       case reply_configs (ce_json env) v of
                         Inl e \<Rightarrow> ret (Inl e)
                       | Inr cfgs \<Rightarrow> do {
                           ls \<leftarrow> analyze_whoami (ce_json env) cid cfgs;
                           ret (Inr (Lines ((''target:    '' @ re_interface resolved @ '' (pid '' @ dec (unat (re_pid resolved)) @ '')'') # ls)))
                         }))))"

text \<open>The value of \<open>--config-id\<close>.\<close>

definition parse_config_id :: "string option \<Rightarrow> target_error + u8 option" where
  "parse_config_id arg =
     (case arg of
        None \<Rightarrow> Inr None
      | Some s \<Rightarrow>
          (case from_str_radix 8 10 s of
             None \<Rightarrow> Inl (ExtraArgs (''--config-id expects an integer 0-6, got '' @ [CHR 0x27] @ s @ [CHR 0x27]))
           | Some n \<Rightarrow> if n > 6 then Inl (ExtraArgs (''--config-id must be 0-6, got '' @ dec n)) else Inr (Some (of_nat n))))"

text \<open>\<open>to_lowercase\<close> is an argument; on ASCII text it maps the letters.\<close>

definition cmd_backend_config :: "(string \<Rightarrow> string) \<Rightarrow> 'v ctl_env \<Rightarrow> string list \<Rightarrow> 'v cmd_result" where
  "cmd_backend_config to_lowercase env args =
     (case extract_flag args ''-r'' ''--route-config'' of
        Inl e \<Rightarrow> ret (Inl e)
      | Inr (route_config_path, args) \<Rightarrow>
     (case extract_flag args [] ''--config-id'' of
        Inl e \<Rightarrow> ret (Inl e)
      | Inr (config_id_filter_str, args) \<Rightarrow>
          (let no_key = list_ex (\<lambda>a. a = ''--no-key'') args;
               positional = filter (\<lambda>a. a \<noteq> ''--no-key'') args
           in case positional of
             [] \<Rightarrow> ret (Inl (ExtraArgs (''backend-config requires a server-id hex string (e.g. '' @ [CHR 0x27] @ ''000001'' @ [CHR 0x27] @ '')'')))
           | id_arg # _ \<Rightarrow>
               if length positional > 2 then
                 ret (Inl (ExtraArgs (''expected '' @ [CHR 0x27] @ ''<server-id-hex> [target]'' @ [CHR 0x27] @ '', got: '' @ join '' '' positional)))
               else do {
                 let server_id_hex = to_lowercase (trim id_arg);
                 decoded \<leftarrow> hex_decode server_id_hex;
                 case decoded of
                   Inl e \<Rightarrow> ret (Inl (ExtraArgs (''invalid server-id hex: '' @ hex_error_text e)))
                 | Inr _ \<Rightarrow>
                     (case parse_config_id config_id_filter_str of
                        Inl e \<Rightarrow> ret (Inl e)
                      | Inr config_id_filter \<Rightarrow>
                          (case route_config_path of
                             Some path \<Rightarrow>
                               if length positional > 1 then ret (Inl file_and_target)
                               else do {
                                 r \<leftarrow> parse_routes_file env path;
                                 ret (case r of
                                   Inl e \<Rightarrow> Inl (route_file_error env path e)
                                 | Inr cfgs \<Rightarrow> Inr (Document (FromFile path)
                                     (analyze_backend_config_offline server_id_hex cfgs no_key config_id_filter)))
                               }
                           | None \<Rightarrow>
                               try_bind (query_endpoint env (second positional) ''/config'') (\<lambda>(resolved, v).
                                 ret (case reply_configs (ce_json env) v of
                                   Inl e \<Rightarrow> Inl e
                                 | Inr cfgs \<Rightarrow> Inr (Document (FromDaemon (re_interface resolved) (re_pid resolved))
                                     (analyze_backend_config_online (ce_json env) server_id_hex cfgs config_id_filter))))))
               })))"

section \<open>The table of commands\<close>

datatype cmd_fn = RunList | RunStatus | RunHealth | RunStats | RunConfig | RunInfo | RunEndpoint | RunWhoami |
  RunBackendConfig | RunWatch | RunPinInfo | RunCleanup | RunHup | RunStop | RunDumpStats | RunRestart |
  RunVersion | RunPaths | RunHelp

record cmd =
  cm_name :: string
  cm_aliases :: "string list"
  cm_summary :: string
  cm_run :: cmd_fn

definition CMDS :: "cmd list" where
  "CMDS =
    [\<lparr>cm_name = ''list'', cm_aliases = [], cm_summary = ''list discovered pesigitgd instances'', cm_run = RunList\<rparr>,
     \<lparr>cm_name = ''status'', cm_aliases = [], cm_summary = ''one-line health summary for a target'', cm_run = RunStatus\<rparr>,
     \<lparr>cm_name = ''health'', cm_aliases = [], cm_summary = ''fetch /health JSON'', cm_run = RunHealth\<rparr>,
     \<lparr>cm_name = ''stats'', cm_aliases = [], cm_summary = ''fetch /stats JSON'', cm_run = RunStats\<rparr>,
     \<lparr>cm_name = ''config'', cm_aliases = [], cm_summary = ''fetch /config JSON (live daemon args + route table)'', cm_run = RunConfig\<rparr>,
     \<lparr>cm_name = ''info'', cm_aliases = [], cm_summary = ''fetch /version JSON from the daemon (build identifiers)'', cm_run = RunInfo\<rparr>,
     \<lparr>cm_name = ''endpoint'', cm_aliases = [], cm_summary = ''fetch an arbitrary status endpoint: endpoint <path> [target]'', cm_run = RunEndpoint\<rparr>,
     \<lparr>cm_name = ''whoami'', cm_aliases = [], cm_summary = ''decode a QUIC CID: whoami <cid-hex> [target] [--route-config <path>]'', cm_run = RunWhoami\<rparr>,
     \<lparr>cm_name = ''backend-config'', cm_aliases = [], cm_summary = ''emit per-backend QUIC-LB provisioning JSON: backend-config <server-id-hex> [target] [-r <path>] [--no-key] [--config-id N]'', cm_run = RunBackendConfig\<rparr>,
     \<lparr>cm_name = ''watch'', cm_aliases = [], cm_summary = ''poll /stats periodically and print rate deltas: watch [target] [-n SECS]'', cm_run = RunWatch\<rparr>,
     \<lparr>cm_name = ''pin-info'', cm_aliases = [], cm_summary = ''list bpffs pins under /sys/fs/bpf/pesigitg/<iface>/'', cm_run = RunPinInfo\<rparr>,
     \<lparr>cm_name = ''cleanup'', cm_aliases = [], cm_summary = ''remove stale pidfiles for daemons that are no longer running'', cm_run = RunCleanup\<rparr>,
     \<lparr>cm_name = ''hup'', cm_aliases = [''reload''], cm_summary = ''send SIGHUP (reload daemon + route config, reset health backoff)'', cm_run = RunHup\<rparr>,
     \<lparr>cm_name = ''stop'', cm_aliases = [], cm_summary = ''send SIGTERM (graceful shutdown)'', cm_run = RunStop\<rparr>,
     \<lparr>cm_name = ''dump-stats'', cm_aliases = [''usr1''], cm_summary = ''send SIGUSR1 (log a stats snapshot)'', cm_run = RunDumpStats\<rparr>,
     \<lparr>cm_name = ''restart'', cm_aliases = [''usr2'', ''handoff''], cm_summary = ''send SIGUSR2 (zero-drop handoff to a fresh process)'', cm_run = RunRestart\<rparr>,
     \<lparr>cm_name = ''version'', cm_aliases = [], cm_summary = ''print this control utility's version'', cm_run = RunVersion\<rparr>,
     \<lparr>cm_name = ''paths'', cm_aliases = [], cm_summary = ''show pidfile, runtime, and bpffs pin paths'', cm_run = RunPaths\<rparr>,
     \<lparr>cm_name = ''help'', cm_aliases = [], cm_summary = ''show this help'', cm_run = RunHelp\<rparr>]"

text \<open>\<open>find_cmd\<close> over a table: an exact name or alias, or the only name that starts with the text.\<close>

definition exact :: "string \<Rightarrow> cmd \<Rightarrow> bool" where
  "exact name c \<longleftrightarrow> cm_name c = name \<or> name \<in> set (cm_aliases c)"

definition find_in :: "cmd list \<Rightarrow> string \<Rightarrow> string + cmd" where
  "find_in cmds name =
     (case find (exact name) cmds of
        Some c \<Rightarrow> Inr c
      | None \<Rightarrow>
          (case filter (\<lambda>c. prefix name (cm_name c)) cmds of
             [c] \<Rightarrow> Inr c
           | [] \<Rightarrow> Inl (''unknown command: '' @ name @ '' (try `pesigitg-ctl help`)'')
           | found \<Rightarrow> Inl (''ambiguous command '' @ [CHR 0x27] @ name @ [CHR 0x27] @ '' (matches: '' @ join '', '' (map cm_name found) @ '')'')))"

definition find_cmd :: "string \<Rightarrow> string + cmd" where
  "find_cmd = find_in CMDS"

text \<open>\<open>{:<w$}\<close> on an ASCII text.\<close>

definition pad_right :: "nat \<Rightarrow> string \<Rightarrow> string" where
  "pad_right w s = s @ replicate (w - length s) (CHR '' '')"

definition print_usage :: "string list" where
  "print_usage =
     (let width = foldr max (map (length \<circ> cm_name) CMDS) 0
      in [''pesigitg-ctl '' @ [CHR 0xE2, CHR 0x80, CHR 0x94] @ '' control utility for pesigitgd instances'', [],
          ''Usage: pesigitg-ctl <command> [args]'', ''       pesigitg-ctl -h | --help'', ''       pesigitg-ctl -V | --version'', [],
          ''Commands:''] @
         concat (map (\<lambda>c. (''  '' @ pad_right width (cm_name c) @ ''  '' @ cm_summary c) #
           (if cm_aliases c = [] then [] else [''  '' @ pad_right width [] @ ''  (aliases: '' @ join '', '' (cm_aliases c) @ '')''])) CMDS) @
         [[], ''A unique prefix is accepted (e.g. '' @ [CHR 0x27] @ ''co'' @ [CHR 0x27] @ '' '' @ [CHR 0xE2, CHR 0x86, CHR 0x92] @ '' config, '' @
            [CHR 0x27] @ ''res'' @ [CHR 0x27] @ '' '' @ [CHR 0xE2, CHR 0x86, CHR 0x92] @ '' restart).'',
          ''Targets are an interface name (e.g. eth0) or a pid. With exactly'', ''one running instance, the target may be omitted.''])"

text \<open>
  \<open>run\<close>: \<open>pico_args\<close> gives the subcommand, whether a help or version flag is present when there is none, and
  the remaining arguments. \<open>run_cmd\<close> runs a command. The result is what is printed at this level, or the
  outcome of the command.
\<close>

datatype 'o run_result = Printed "string list" | Ran 'o

definition ctl_run ::
  "string \<Rightarrow> (cmd_fn \<Rightarrow> string list \<Rightarrow> (target_error + 'o) run) \<Rightarrow> string + string option \<Rightarrow> bool \<Rightarrow> bool \<Rightarrow> string list \<Rightarrow> (string + 'o run_result) run" where
  "ctl_run version run_cmd subcommand help_flag version_flag args =
     (case subcommand of
        Inl e \<Rightarrow> ret (Inl e)
      | Inr None \<Rightarrow> ret
          (if help_flag then Inr (Printed print_usage)
           else if version_flag then Inr (Printed [version])
           else Inl ''missing command (try `pesigitg-ctl help`)'')
      | Inr (Some cmd_name) \<Rightarrow>
          (case find_cmd cmd_name of
             Inl e \<Rightarrow> ret (Inl e)
           | Inr c \<Rightarrow>
               if list_ex (\<lambda>a. a = ''-h'' \<or> a = ''--help'') args then
                 ret (Inr (Printed ((cm_name c @ '': '' @ cm_summary c) #
                   (if cm_aliases c = [] then [] else [''  aliases: '' @ join '', '' (cm_aliases c)]))))
               else do { r \<leftarrow> run_cmd (cm_run c) args; ret (map_sum target_error_text Ran r) }))"

text \<open>The commands that print constants.\<close>

definition cmd_version :: "string \<Rightarrow> string list \<Rightarrow> target_error + string list" where
  "cmd_version version args = map_sum id (\<lambda>_. [version]) (expect_no_args args)"

definition cmd_paths :: "string list \<Rightarrow> target_error + string list" where
  "cmd_paths args = map_sum id (\<lambda>_. [''pidfile dir:    '' @ PID_DIR, ''runtime dir:    '' @ RUN_DIR,
     ''bpffs pin root: /sys/fs/bpf/pesigitg/<interface>/'']) (expect_no_args args)"

definition cmd_help :: "string list \<Rightarrow> target_error + string list" where
  "cmd_help args = map_sum id (\<lambda>_. print_usage) (expect_no_args args)"

section \<open>Watching\<close>

text \<open>The counters of a tick; \<open>instant\<close> is when they were read. Dividing and printing a rate are arguments.\<close>

record stats_sample =
  ss_at :: instant
  ss_rx :: u64
  ss_fwd :: u64
  ss_cid :: u64
  ss_fb :: u64
  ss_unrt :: u64
  ss_retry_iss :: u64

definition sample_from_value :: "'v json_lib \<Rightarrow> 'v \<Rightarrow> instant \<Rightarrow> stats_sample" where
  "sample_from_value J v at =
     (let g = (\<lambda>k. unwrap_or 0 (get_u64 J v k))
      in \<lparr>ss_at = at, ss_rx = g ''rx_packets'', ss_fwd = g ''forwarded'', ss_cid = g ''cid_routed'', ss_fb = g ''fallback_routed'',
          ss_unrt = g ''cid_unroutable'',
          ss_retry_iss = unwrap_or 0 (Option.bind (js_get J v ''retry'') (\<lambda>r. get_u64 J r ''issued''))\<rparr>)"

definition watch_rate :: "(u64 \<Rightarrow> 'd \<Rightarrow> string) \<Rightarrow> u64 \<Rightarrow> u64 \<Rightarrow> 'd \<Rightarrow> string" where
  "watch_rate show_rate now_val prev dt = (if now_val < prev then ''*'' else show_rate (now_val - prev) dt)"

text \<open>The arguments of \<open>watch\<close>: the interval in seconds and the target.\<close>

definition watch_args :: "string list \<Rightarrow> target_error + nat \<times> string option" where
  "watch_args args =
     (case extract_flag args ''-n'' ''--interval'' of
        Inl e \<Rightarrow> Inl e
      | Inr (interval_str, rest) \<Rightarrow>
          (case (case interval_str of None \<Rightarrow> Some 1 | Some s \<Rightarrow> from_str_radix 64 10 s) of
             None \<Rightarrow> Inl (ExtraArgs (''--interval expects an integer, got '' @ [CHR 0x27] @ unwrap_or [] interval_str @ [CHR 0x27]))
           | Some n \<Rightarrow>
               if n = 0 then Inl (ExtraArgs ''--interval must be at least 1 second'')
               else map_sum id (Pair n) (expect_optional_target rest)))"

section \<open>Names and abbreviations\<close>

lemma concat_unique:
  "distinct (concat (map f xs)) \<Longrightarrow> x \<in> set xs \<Longrightarrow> y \<in> set xs \<Longrightarrow> n \<in> set (f x) \<Longrightarrow> n \<in> set (f y) \<Longrightarrow> x = y"
  by (induction xs) auto

lemma cmd_names_distinct: "distinct (concat (map (\<lambda>c. cm_name c # cm_aliases c) CMDS))"
  by (simp add: CMDS_def)

lemma exact_unique:
  assumes "c \<in> set CMDS" "d \<in> set CMDS" "exact name c" "exact name d"
  shows "c = d"
proof (rule concat_unique [OF cmd_names_distinct assms(1,2)])
  show "name \<in> set (cm_name c # cm_aliases c)" "name \<in> set (cm_name d # cm_aliases d)" using assms(3,4) by (simp_all add: exact_def eq_commute)
qed

lemma cmds_distinct: "distinct CMDS"
proof -
  have "distinct (map cm_name CMDS)" by (simp add: CMDS_def)
  then show ?thesis by (simp add: distinct_map)
qed

lemma filter_singleton: "distinct xs \<Longrightarrow> filter P xs = [x] \<longleftrightarrow> x \<in> set xs \<and> (\<forall>y \<in> set xs. P y \<longleftrightarrow> y = x)"
proof (induction xs)
  case (Cons a xs)
  show ?case
  proof (cases "P a")
    case True
    then show ?thesis using Cons.prems by (auto simp: filter_empty_conv)
  next
    case False
    then show ?thesis using Cons by auto
  qed
qed simp

lemma find_in_iff:
  assumes "mset cmds = mset CMDS"
  shows "find_in cmds name = Inr c \<longleftrightarrow> c \<in> set CMDS \<and>
    (exact name c \<or> (\<forall>d \<in> set CMDS. \<not> exact name d) \<and> (\<forall>d \<in> set CMDS. prefix name (cm_name d) \<longleftrightarrow> d = c))"
proof -
  have table: "set cmds = set CMDS" "distinct cmds"
    using assms cmds_distinct by (metis mset_eq_setD, metis mset_eq_imp_distinct_iff)
  show ?thesis
  proof (cases "find (exact name) cmds")
    case None
    then have none: "\<forall>d \<in> set CMDS. \<not> exact name d" by (auto simp: find_None_iff table)
    have "find_in cmds name = Inr c \<longleftrightarrow> filter (\<lambda>c. prefix name (cm_name c)) cmds = [c]"
      by (auto simp: find_in_def None split: list.splits)
    then show ?thesis using none by (auto simp: filter_singleton [OF table(2)] table(1))
  next
    case (Some d)
    then have "d \<in> set CMDS" "exact name d" by (auto simp: find_Some_iff table(1) [symmetric])
    with Some exact_unique show ?thesis by (auto simp: find_in_def)
  qed
qed

section \<open>Asking and answering\<close>

lemma char_of_byte: "char_of (unat (of_char c :: byte)) = c"
proof -
  have "(of_char c :: nat) < 256" by (rule nat_of_char_less_256)
  then have "unat (of_nat (of_char c) :: byte) = of_char c" by (simp add: unsigned_of_nat take_bit_nat_eq_self)
  then show ?thesis by (simp add: of_nat_of_char)
qed

lemma request_bytes: "map (\<lambda>b. char_of (unat b)) (map of_char s :: bytes) = s"
  by (induction s) (simp_all add: char_of_byte)

lemma of_char_byte_less: "(of_char c :: nat) < 128 \<Longrightarrow> (of_char c :: byte) < 0x80"
proof -
  assume small: "(of_char c :: nat) < 128"
  then have "unat (of_nat (of_char c) :: byte) = of_char c" by (simp add: unsigned_of_nat take_bit_nat_eq_self)
  with small show ?thesis by (simp add: word_less_nat_alt of_nat_of_char)
qed

lemma request_read:
  assumes "path \<noteq> []" "\<forall>c \<in> set path. graphic c" "length path \<le> 251"
  shows "handle_connection fdiv version clock now st [Inr (map of_char (request_text path))] =
    Some (Some (respond fdiv version clock now st (''GET '' @ path)))"
proof -
  let ?bytes = "map of_char (request_text path) :: bytes"
  have nl: "newline = CHR 0x0A" by (simp add: newline_def char_of_eq_iff)
  have "10 \<in> set ?bytes" by (simp add: request_text_def nl of_char_def)
  moreover have "length ?bytes \<le> MAX_REQUEST_BYTES" using assms(3) by (simp add: request_text_def MAX_REQUEST_BYTES_def)
  ultimately have read: "read_request [] [Inr ?bytes] = Some (Request ?bytes)"
    by (auto simp: read_request.simps [of "[]"] Let_def MAX_REQUEST_BYTES_def)
  have "of_char c < (0x80 :: byte)" if "c \<in> set (request_text path)" for c
    using that assms(2) by (intro of_char_byte_less) (auto simp: request_text_def graphic_def nl of_char_def)
  then have utf8: "utf8_valid ?bytes" by (intro utf8_ascii) auto
  have "c \<noteq> CHR 0x0A \<and> c \<noteq> CHR 0x0D" if "graphic c" for c
    using that by (auto simp: graphic_def of_char_def)
  with assms(2) have clean: "\<forall>c \<in> set (''GET '' @ path). c \<noteq> CHR 0x0A \<and> c \<noteq> CHR 0x0D" by auto
  have "request_text path = (''GET '' @ path) @ [CHR 0x0A]" by (simp add: request_text_def nl)
  then have "takeWhile (\<lambda>c. c \<noteq> CHR 0x0A \<and> c \<noteq> CHR 0x0D) (request_text path) = ''GET '' @ path"
    using clean by (simp only: takeWhile_append2 Ball_def) simp
  moreover have "tidy (''GET '' @ path)"
    using assms(1,2) by (simp add: tidy_def graphic_def of_char_def)
  ultimately have "request_line ?bytes = ''GET '' @ path"
    using utf8 by (simp only: request_line_def request_bytes if_True trim_tidy(1))
  with read show ?thesis by (simp add: handle_connection_def)
qed

text \<open>
  A value is read from the text of an answer to \<open>/config\<close>: it has no field \<open>error\<close>, and the configs of its
  route are those of the view.
\<close>

definition reads_reply :: "'v json_lib \<Rightarrow> 'v \<Rightarrow> route_view \<Rightarrow> bool" where
  "reads_reply J v r \<longleftrightarrow> js_get J v ''error'' = None \<and>
     (\<exists>w vs. js_get J v ''route'' = Some w \<and> get_array J w ''configs'' = Some vs \<and> list_all2 (reads_config J) vs (vt_configs r))"

lemma extract_no_flag:
  assumes "\<forall>a \<in> set args. a \<noteq> short \<and> a \<noteq> long \<and> strip_prefix (long @ ''='') a = None"
  shows "extract_flag args short long = Inr (None, args)"
proof -
  have "extract_flag_loop short long None rest args = Inr (None, rest @ args)" for rest
    using assms by (induction args arbitrary: rest) auto
  then show ?thesis by (simp add: extract_flag_def)
qed

lemma parse_cid_encoded: "cid \<noteq> [] \<Longrightarrow> parse_cid_hex (hex_encode cid) = Some (Inr cid)"
  by (simp add: parse_cid_hex_def hex.dec_enc)

lemma hex_encode_no_flag: "hex_encode cid \<noteq> ''-r'' \<and> hex_encode cid \<noteq> ''--route-config'' \<and> strip_prefix ''--route-config='' (hex_encode cid) = None"
proof -
  have "hex_digit n \<noteq> CHR ''-''" if "n < 16" for n using that by (rule hex_digit_neq) (simp add: of_char_def)
  then have "CHR ''-'' \<notin> set (hex_encode cid)" using set_hex_encode [of "CHR ''-''" cid] by metis
  then have "\<not> prefix ''-'' (hex_encode cid)" using set_mono_prefix [of "''-''"] by auto
  then show ?thesis by (cases "hex_encode cid") (auto simp: strip_prefix_def)
qed

section \<open>Properties\<close>

text \<open>
  C35. A command name means one command, whatever the order of the table. A text selects a command exactly if it
  is the name or an alias of the command, or if it is no name and no alias and the command is the only one
  whose name it abbreviates; a table with the same commands in another order selects the same command.
\<close>

theorem find_cmd_order:
  "(find_cmd name = Inr c \<longleftrightarrow> c \<in> set CMDS \<and>
     (exact name c \<or> (\<forall>d \<in> set CMDS. \<not> exact name d) \<and> (\<forall>d \<in> set CMDS. prefix name (cm_name d) \<longleftrightarrow> d = c))) \<and>
   (mset cmds = mset CMDS \<longrightarrow> (find_in cmds name = Inr c \<longleftrightarrow> find_cmd name = Inr c))"
  by (simp add: find_cmd_def find_in_iff)

text \<open>
  C22. \<open>whoami\<close> from the command line to the daemon and back. Let a target resolve to a daemon whose socket serves
  the status API on a well-formed table, let the JSON library read back what it wrote, and let a connection
  id belong to a config of the table. Then \<open>whoami\<close> with the id in hexadecimal and the target succeeds. For
  a config in plaintext it prints the verdict that decoding with the daemon's own configuration gives; for
  an encrypted config it names no server.
\<close>

theorem whoami_end_to_end:
  assumes "table_wf aes_new (ap_table st)" "cid \<noteq> []" "get (ap_table st) (drop_bit 5 (hd cid)) = Some rc"
    and "target \<noteq> ''-r''" "target \<noteq> ''--route-config''" "\<not> prefix ''--route-config='' target"
    and "resolve (ce_host env) (Some target) = Some (Inr t)" "re_status_socket t = Some socket"
    and "\<forall>req. ce_fetch env socket req =
      (case handle_connection fdiv version clock now st [Inr (map of_char req)] of Some (Some resp) \<Rightarrow> Inr (write resp) | _ \<Rightarrow> Inl [])"
    and "\<forall>d r. build_config_response clock (ap_args st) (ap_table st) now = (d, r) \<longrightarrow>
      (\<exists>v. js_parse (ce_json env) (trim (write (ConfigReport d r))) = Inr v \<and> reads_reply (ce_json env) v r)"
  shows "\<exists>ls. cmd_whoami env [hex_encode cid, target] =
      Some (Inr (Lines ((''target:    '' @ re_interface t @ '' (pid '' @ dec (unat (re_pid t)) @ '')'') # ls))) \<and>
    (if rc_encryption rc = Plaintext
     then \<exists>off. analyze_whoami_offline cid (configs (ap_table st)) = Some off \<and> filter (prefix ''verdict:'') ls = filter (prefix ''verdict:'') off
     else \<forall>addr mac. routes_line addr mac \<notin> set ls)"
proof -
  obtain d r where report: "build_config_response clock (ap_args st) (ap_table st) now = (d, r)" by fastforce
  have "\<forall>c \<in> set ''/config''. graphic c" by (simp add: graphic_def of_char_def)
  then have "handle_connection fdiv version clock now st [Inr (map of_char (request_text ''/config''))] = Some (Some (ConfigReport d r))"
    using request_read [of "''/config''" fdiv version clock now st] by (simp add: respond_def Let_def report)
  then have fetched: "ce_fetch env socket (request_text ''/config'') = Inr (write (ConfigReport d r))"
    using assms(9) by simp
  obtain v where v: "js_parse (ce_json env) (trim (write (ConfigReport d r))) = Inr v" "reads_reply (ce_json env) v r" using assms(10) report by blast
  obtain vs where vs: "reply_configs (ce_json env) v = Inr vs" "list_all2 (reads_config (ce_json env)) vs (vt_configs r)"
    using v(2) by (auto simp: reads_reply_def reply_configs_def ok_or_def)
  have "query_endpoint env (Some target) ''/config'' = Some (Inr (t, v))"
    using v assms(7,8) fetched by (simp add: query_endpoint_def reads_reply_def get_str_def)
  moreover have "extract_flag [hex_encode cid, target] ''-r'' ''--route-config'' = Inr (None, [hex_encode cid, target])"
    using hex_encode_no_flag [of cid] assms(4-6) by (intro extract_no_flag) (simp add: strip_prefix_def)
  moreover obtain ls where ls: "analyze_whoami (ce_json env) cid vs = Some ls"
      "if rc_encryption rc = Plaintext
       then \<exists>off. analyze_whoami_offline cid (configs (ap_table st)) = Some off \<and> filter (prefix ''verdict:'') ls = filter (prefix ''verdict:'') off
       else \<forall>addr mac. routes_line addr mac \<notin> set ls"
    using whoami_online_agrees [OF assms(1) _ assms(2,3), of "ce_json env" vs clock "ap_args st" now] vs(2) report by auto
  ultimately have "cmd_whoami env [hex_encode cid, target] =
      Some (Inr (Lines ((''target:    '' @ re_interface t @ '' (pid '' @ dec (unat (re_pid t)) @ '')'') # ls)))"
    using parse_cid_encoded [OF assms(2)] vs(1) by (simp add: cmd_whoami_def second_def)
  with ls(2) show ?thesis by blast
qed

section \<open>Witnesses\<close>

theorem find_cmd_order_witness: "find_cmd ''co'' = find_in (rev CMDS) ''co'' \<and> cm_name (projr (find_cmd ''co'')) = ''config''"
proof -
  let ?c = "CMDS ! 4"
  have c: "?c \<in> set CMDS" "cm_name ?c = ''config''" "find_cmd ''co'' = Inr ?c"
    by (simp_all add: CMDS_def find_cmd_def find_in_def exact_def)
  have "find_in (rev CMDS) ''co'' = Inr ?c" using find_cmd_order [of "''co''" ?c "rev CMDS"] c(3) by simp
  with c show ?thesis by simp
qed

text \<open>A daemon with a socket on \<open>eth0\<close> that serves the sample table.\<close>

definition socket_host :: host where
  "socket_host = (one_host ''7'')\<lparr>ho_run_dir := Some [''status-eth0.sock'']\<rparr>"

definition live_api :: api_state where
  "live_api = sample_api\<lparr>ap_table := live_table\<rparr>"

definition live_json :: json where
  "live_json = JObject [(''route'', JObject [(''configs'', JArray (map json_config
     (vt_configs (snd (build_config_response (\<lambda>_ _. 0) (ap_args live_api) live_table 0)))))])]"

definition live_write :: "(nat, unit) response \<Rightarrow> string" where
  "live_write resp = (case resp of ConfigReport _ _ \<Rightarrow> ''c'' | _ \<Rightarrow> ''e'')"

definition live_ctl :: "json ctl_env" where
  "live_ctl = \<lparr>ce_host = socket_host, ce_json = json_ops\<lparr>js_parse := (\<lambda>s. if s = ''c'' then Inr live_json else Inl s)\<rparr>,
     ce_fetch = (\<lambda>_ req. case handle_connection (\<lambda>_ _. 0) () (\<lambda>_ _. 0) 0 live_api [Inr (map of_char req)] of
        Some (Some resp) \<Rightarrow> Inr (live_write resp) | _ \<Rightarrow> Inl []),
     ce_read = (\<lambda>_. Inl []), ce_aes_new = xor_cipher, ce_toml = (\<lambda>_. Inl []), ce_error = (\<lambda>_. [])\<rparr>"

lemma socket_host_resolves:
  "resolve socket_host (Some ''eth0'') = Some (Inr \<lparr>re_interface = ''eth0'', re_pid = 7, re_status_socket = Some ''/run/pesigitg/status-eth0.sock''\<rparr>)"
proof -
  have "proc_entry socket_host = proc_entry (one_host ''7'')"
    by (rule ext) (simp add: proc_entry_def is_pesigitgd_proc_def socket_host_def cong: if_cong option.case_cong)
  moreover have "ho_proc socket_host = ho_proc (one_host ''7'')" by (simp add: socket_host_def)
  ultimately have "scan_proc_for_pesigitgd socket_host = scan_proc_for_pesigitgd (one_host ''7'')"
    by (simp only: scan_proc_for_pesigitgd_def)
  then have live: "live_pid socket_host ''eth0'' = None"
    by (simp add: live_pid_def one_host_scan named_hits_def List.map_filter_def)
  have "shows_fs socket_host (one_daemon ''7'')" using one_host_shows [of "''7''"] by (simp add: shows_fs_def socket_host_def)
  moreover have "px_inode (one_daemon ''7'') (pid_file ''eth0'') = Some 0" "px_content (one_daemon ''7'') 0 = ''7''" by (simp_all add: one_daemon_def)
  moreover have "parse_u32 (trim ''7'') = Some 7"
    by (simp add: tidy_def graphic_def of_char_def parse_u32_def from_str_radix_def to_digit_def)
  ultimately have "pidfile_pid socket_host ''eth0'' = Some 7"
    using pidfile_of_shown [OF _ eth0_name, of socket_host "one_daemon ''7''" 0] by (simp add: pidfile_pid_def)
  with live have pid: "addressed_pid socket_host ''eth0'' = Some 7" by (simp add: addressed_pid_def)
  have "socket_entries [''status-eth0.sock''] = [(''eth0'', ''/run/pesigitg/status-eth0.sock'')]" by code_simp
  then have "socket_of socket_host ''eth0'' = Some ''/run/pesigitg/status-eth0.sock''" by (simp add: socket_of_def socket_host_def)
  moreover have "parse_target ''eth0'' = Inr (Interface ''eth0'')" by (simp add: parse_target_def sample_trims sample_numbers)
  ultimately show ?thesis by (simp add: resolve_interface pid)
qed

lemma reads_reply_parse: "reads_reply (J\<lparr>js_parse := f\<rparr>) v r = reads_reply J v r"
proof -
  have gets: "get_str (J\<lparr>js_parse := f\<rparr>) = get_str J" "get_u64 (J\<lparr>js_parse := f\<rparr>) = get_u64 J" "get_bool (J\<lparr>js_parse := f\<rparr>) = get_bool J"
      "get_array (J\<lparr>js_parse := f\<rparr>) = get_array J"
    by (simp_all add: fun_eq_iff get_str_def get_u64_def get_bool_def get_array_def)
  have "reads_server (J\<lparr>js_parse := f\<rparr>) = reads_server J" by (simp add: fun_eq_iff reads_server_def gets)
  then have "reads_config (J\<lparr>js_parse := f\<rparr>) = reads_config J" by (intro ext) (simp add: reads_config_def gets)
  with gets show ?thesis by (simp add: reads_reply_def)
qed

theorem whoami_end_to_end_witness:
  "\<exists>ls off. cmd_whoami live_ctl [hex_encode [0x40, 10, 11, 1, 2, 3, 4], ''eth0''] = Some (Inr (Lines (''target:    eth0 (pid 7)'' # ls))) \<and>
    analyze_whoami_offline [0x40, 10, 11, 1, 2, 3, 4] (configs live_table) = Some off \<and>
    filter (prefix ''verdict:'') ls = filter (prefix ''verdict:'') off"
proof -
  have wf: "table_wf xor_cipher (ap_table live_api)" using live_env by (simp add: env_ok_def live_api_def)
  have rc: "get (ap_table live_api) (drop_bit 5 (hd [0x40, 10, 11, 1, 2, 3, 4])) = Some live_rc"
    by (simp add: live_api_def get_live_table)
  have "reads_reply json_ops live_json (snd (build_config_response (\<lambda>_ _. 0) (ap_args live_api) live_table 0))"
    using json_reads_all by (simp add: reads_reply_def live_json_def json_ops_def get_array_def)
  then have reads: "\<forall>d r. build_config_response (\<lambda>_ _. 0) (ap_args live_api) (ap_table live_api) 0 = (d, r) \<longrightarrow>
      (\<exists>v. js_parse (ce_json live_ctl) (trim (live_write (ConfigReport d r))) = Inr v \<and> reads_reply (ce_json live_ctl) v r)"
    by (auto simp: live_write_def live_ctl_def live_api_def reads_reply_parse tidy_def graphic_def of_char_def)
  have resolved: "resolve (ce_host live_ctl) (Some ''eth0'') =
      Some (Inr \<lparr>re_interface = ''eth0'', re_pid = 7, re_status_socket = Some ''/run/pesigitg/status-eth0.sock''\<rparr>)"
    using socket_host_resolves by (simp add: live_ctl_def)
  have fetch: "\<forall>req. ce_fetch live_ctl ''/run/pesigitg/status-eth0.sock'' req =
      (case handle_connection (\<lambda>_ _. 0) () (\<lambda>_ _. 0) 0 live_api [Inr (map of_char req)] of Some (Some resp) \<Rightarrow> Inr (live_write resp) | _ \<Rightarrow> Inl [])"
    by (simp add: live_ctl_def)
  have "dec 7 = ''7''" by code_simp
  moreover have "rc_encryption live_rc = Plaintext" by (simp add: live_rc_def)
  ultimately show ?thesis
    using whoami_end_to_end [OF wf _ rc _ _ _ resolved _ fetch reads] by (simp add: live_api_def)
qed

end
