(* ===== verification/Spec2Isabelle.thy ===== *)
theory Spec2Isabelle
  imports Encoder Worker Xdp_Filter Threads Ebpf_Pins Control_Cmd
begin

text \<open>
  Verification of pesigitg, a load balancer for QUIC that routes packets by the server id in their
  connection ids. Paths are relative to \<open>src/\<close>; \<open>daemon/\<close> stands for \<open>pesigitg-daemon/src/\<close>.

  \<^bold>\<open>The program.\<close> An XDP program in the kernel hands the UDP and ICMP frames of the configured ports to one
  worker thread per NIC queue. A worker takes a batch of frames from the rings it shares with the kernel,
  lets the Retry service answer or admit QUIC Initials, and routes the others: it decrypts the connection
  id with the keys of the route table and rewrites the MAC addresses for the server it names, or falls
  back to the connection table and a hash over the healthy servers. The main thread loads the route table,
  resolves MACs, probes the backends, reacts to signals and publishes new tables. A status API shows the
  state on a Unix socket. On a restart the daemon may leave its XDP program pinned and its sockets with
  systemd for the next one. A control tool finds the running daemons by their pidfiles and processes, sends
  them signals, queries the status API and explains connection ids. Backends mint their ids with the encoder
  of \<open>contrib/quic-lb-core\<close>.

  \<^bold>\<open>Conventions\<close> (\<open>Prelude\<close>). A computation that may panic is an \<open>option\<close> (\<open>None\<close> is a panic, an index out of
  range or an access outside a mapping); a Rust \<open>Result\<close> is a sum inside it. Integers of the wire and
  counters are words and wrap as in the release build; lengths and offsets are natural numbers, with the
  bound written out where the code checks it. An \<open>Instant\<close> is a number of nanoseconds. A loop is
  a fold or a recursive function with a termination proof. No definition uses fuel.

  \<^bold>\<open>Theories.\<close>
  \<^item> \<open>Common\<close>, \<open>Ip_Addr\<close>, \<open>Rust_Text\<close>: the crate \<open>pesigitg-common\<close> (constants, hex and MAC codecs) and the parts
    of the standard library that handle numbers, text, paths and addresses.
  \<^item> \<open>Route\<close>, \<open>Cid\<close> (\<open>pesigitg-routing/src/route.rs\<close>, \<open>cid.rs\<close>), \<open>Encoder\<close> (\<open>contrib/quic-lb-core\<close>): validation of
    route files, decryption of connection ids, and minting. Decoding inverts minting in every mode;
    decryption panics exactly for four-pass nonces longer than a cipher block.
  \<^item> \<open>Config_Table\<close>, \<open>Retry_Config\<close> (\<open>daemon/config/route.rs\<close>, \<open>retry.rs\<close>): the slot table, its fallback pool, and
    the ages of keys across reloads.
  \<^item> \<open>Conn_Table\<close>, \<open>Packet\<close>, \<open>Routing\<close> (\<open>daemon/conntable.rs\<close>, \<open>packet.rs\<close>, \<open>cid.rs\<close>): flows that stay with their
    server, frame parsing, and what the routing decision guarantees, including when it panics.
  \<^item> \<open>Quic_Initial\<close>, \<open>Retry_Token\<close>, \<open>Retry_Load\<close>, \<open>Retry_Packet\<close>, \<open>Checksum\<close>, \<open>Retry_Datapath\<close>, \<open>Retry_Policy\<close>
    (\<open>daemon/quic/initial.rs\<close>, \<open>daemon/retry/\<close>): the Initial grammar, tokens, the rate window under every
    interleaving of its atomic operations, the reply and its checksums, and who is admitted.
  \<^item> \<open>Frame_View\<close>, \<open>Ring\<close>, \<open>Xdp_Socket\<close>, \<open>Stats\<close>, \<open>Worker\<close> (\<open>daemon/frame.rs\<close>, \<open>xdp_adopt.rs\<close>, \<open>worker_socket.rs\<close>,
    \<open>stats.rs\<close>, \<open>threading.rs\<close>): rings that refine bounded queues, and the worker loop in every interleaving
    with the kernel: frames are conserved and packets are counted. The steps of a worker are the operations
    on its rings, the counting of received packets, the work on a batch, which writes nothing that another
    thread reads, and each single store of its flush; so a reader of the counters may come at any of them.
  \<^item> \<open>Xdp_Filter\<close>, \<open>Ebpf_Pins\<close> (\<open>pesigitg-ebpf/src/main.rs\<close>, \<open>daemon/ebpf.rs\<close>): the filter agrees with the frame
    parser on the port, loading installs the configured ports, and a handoff keeps the program and the
    slots of the sockets that stay open.
  \<^item> \<open>Neigh\<close>, \<open>Health\<close>, \<open>Key_Age\<close> (\<open>daemon/neigh.rs\<close>, \<open>health.rs\<close>, \<open>config/key_age.rs\<close>): the netlink reader on
    dumps in the general format of the kernel interface, the health state machine with its probe schedule,
    and the warnings about old keys.
  \<^item> \<open>Daemon_Config\<close>, \<open>Daemon\<close>, \<open>Threads\<close>, \<open>Fd_Store\<close>, \<open>Status_Api\<close> (\<open>daemon/args.rs\<close>, \<open>config/daemon.rs\<close>,
    \<open>config/mod.rs\<close>, \<open>main.rs\<close>, \<open>threading.rs\<close>, \<open>fdstore.rs\<close>, \<open>status_api.rs\<close>): settings, the main loop and its
    reload, the placement of workers on cores, the hand-over of sockets, and the status requests.
  \<^item> \<open>Pid_File\<close> (\<open>daemon/pidfile.rs\<close>): pidfiles under every interleaving of the system calls of several daemons,
    when they exclude each other, and when they do not.
  \<^item> \<open>Control\<close>, \<open>Control_Cid\<close>, \<open>Control_Cmd\<close> (\<open>pesigitg-control/src/main.rs\<close>): whom a command addresses, the analysis
    of connection ids compared with the datapath, and the command line through the socket to the daemon and
    back.

  \<^bold>\<open>Interfaces.\<close> The locales \<open>text_codec\<close>, \<open>sticky_table\<close>, \<open>frame_view\<close>, \<open>bounded_queue\<close> and \<open>af_xdp_socket\<close> state
  what clients rely on, and each is interpreted on the definitions that model the code.

  \<^bold>\<open>Parameters.\<close> AES-128, AES-GCM, HMAC-SHA256, the hash of the fallback pool, the TOML reader, the
  JSON library, floating-point division, the eBPF maps, and what the kernel, systemd and the network answer
  are arguments of the definitions; what a property needs of them is a hypothesis of its statement.

  \<^bold>\<open>Not modelled.\<close> System calls and their wrappers: creating and mapping sockets (\<open>daemon/xsk.rs\<close> and the setup in
  \<open>xdp_adopt.rs\<close>), daemonising and logging (\<open>utils.rs\<close>), starting and pinning threads. The probe itself is the
  \<open>quinn\<close> library, and the command line is read by \<open>pico_args\<close>. \<open>Display\<close> and \<open>Debug\<close> output, JSON text, the padded tables and the endless loop of
  the control tool's \<open>list\<close> and \<open>watch\<close>, the build tool, the fuzz targets and the demonstration programs are left
  out.
\<close>

section \<open>End-to-end routing\<close>

text \<open>
  C1. A packet with a connection id minted by a backend reaches that backend. Let a short-header packet
  start with the id that an encoder configured like the route entry mints for one of its servers, with
  any nonce, any filler bits and any payload behind it. If the server is healthy and its MAC is known, the
  frame is forwarded to this MAC, whatever the state of the connection table.
\<close>

theorem minted_cid_reaches_server:
  assumes env: "env_ok aes_new table conn local_mac"
    and rc: "get table (rc_config_id rc) = Some rc"
    and server: "i < length (rc_servers rc)" "distinct (map srv_id (rc_servers rc))"
      "srv_healthy (rc_servers rc ! i)" "srv_mac (rc_servers rc ! i) = Some mac"
    and enc: "encoder_matches e rc" "enc_server_id e = srv_id (rc_servers rc ! i)"
      "length nonce = unat (rc_nonce_length rc)" "encode_to_vec e nonce low = Some cid"
    and packet: "udp_payload frame = Some (flow, b0 # cid @ payload)" "b0 AND 0x80 = 0"
  shows "\<exists>conn'. process_packet fx_hash frame table conn local_mac now =
    Some (if srv_draining (rc_servers rc ! i) then CidForwardDraining (rc_config_id rc) else CidForward (rc_config_id rc),
      mac @ local_mac @ drop 12 frame, conn')"
proof -
  have wf: "table_wf aes_new table" and ciphers: "ciphers_ok aes_new" and fit: "nonces_fit table"
    using env by (simp_all add: env_ok_def)
  have rc_in: "rc \<in> set (configs table)" and rc_wf: "route_wf aes_new rc" using table_wf_get [OF wf rc] by simp_all
  have "\<not> (is_four_pass (rc_encryption rc) \<and> 16 < unat (rc_nonce_length rc))"
    using fit rc_in by (auto simp: nonces_fit_def list_all_iff)
  from resolve_encoded_cid [OF rc_wf ciphers enc(1,3) this, of low "[]"] enc(4)
  have cid: "length cid = unat (cid_length rc)" "drop_bit 5 (hd cid) = rc_config_id rc"
      "resolve_server_idx cid rc = Some (find_server_idx rc (enc_server_id e))"
    by auto
  have ok: "lengths_ok (unat (rc_server_id_length rc)) (unat (rc_nonce_length rc))" and id: "rc_config_id rc \<le> 6"
    using rc_wf by (simp_all add: route_wf_def)
  have ne: "cid \<noteq> []" using cid(1) cid_lengths(2) [OF ok] by auto
  then have first: "(cid @ payload) ! 0 = hd cid" "0 < length cid"
    by (simp_all add: nth_append hd_conv_nth)
  have "rc_config_id rc \<noteq> 7" using id by auto
  then have "lookup_config (b0 # cid @ payload) table = Some (Some (cid, rc))"
    using packet(2) ne cid(1,2) rc first
    by (simp add: lookup_config_def first_cid_octet_def extract_raw_dcid_def Let_def)
  then have "cid_server (b0 # cid @ payload) table = Some (cid, rc, rc_servers rc ! i)"
    using cid(3) find_server_idx_distinct [OF server(2,1)] enc(2) by (simp add: cid_server_def)
  moreover obtain v frame' conn' where
      "process_packet fx_hash frame table conn local_mac now = Some (v, frame', conn')"
    using process_packet_udp_total [OF env packet(1)] by blast
  ultimately show ?thesis
    using process_packet_udp [OF env packet(1)] server(3,4) by (fastforce split: if_splits)
qed


definition live_encoder :: quic_lb_encoder where
  "live_encoder = \<lparr>enc_config_id = 2, enc_server_id = [10, 11], enc_nonce_length = 4,
     enc_encryption = Plaintext, enc_encode_cid_length = False\<rparr>"

theorem minted_cid_reaches_server_witness:
  "\<exists>cid conn'. encode_to_vec live_encoder [1, 2, 3, 4] 9 = Some cid \<and>
     process_packet (\<lambda>_. 0) (sample_udp_frame (0x40 # cid @ [99])) live_table (conn_new 0) sample_local_mac 0 =
       Some (CidForward 2, sample_mac @ sample_local_mac @ drop 12 (sample_udp_frame (0x40 # cid @ [99])), conn')"
proof -
  have cid: "encode_to_vec live_encoder [1, 2, 3, 4] 9 =
      Some (encoder_first_octet live_encoder 9 # [10, 11] @ [1, 2, 3, 4])"
    using encode_plaintext [of live_encoder "[1, 2, 3, 4]" 9]
    by (simp add: encoder_ok_def lengths_ok_def live_encoder_def)
  have "encoder_matches live_encoder live_rc"
    by (simp add: encoder_matches_def live_encoder_def live_rc_def)
  from minted_cid_reaches_server [OF live_env _ _ _ _ _ this _ _ cid udp_payload_sample,
      where i = 0 and mac = sample_mac and fx_hash = "\<lambda>_. 0" and now = 0] cid
  show ?thesis
    by (simp add: get_live_table live_rc_def live_server_def live_encoder_def)
qed

end
